(* ===== verification/Prelude.thy ===== *)
theory Prelude
  imports Main "HOL-Library.Word"
begin

text \<open>
  Shared vocabulary of the development: Rust's machine integers as words, byte strings,
  \<open>Result\<close>, panics as values, the little-endian byte order of the wire headers,
  \<open>str::from_utf8\<close>, and the \<open>BTreeMap\<close> operations the client uses. The theory closes
  with the interface \<open>ordered_map\<close> (what the task timer relies on) and its
  interpretation on the \<open>BTreeMap\<close> model.
\<close>

unbundle bit_operations_syntax

section \<open>Machine integers, bytes, results\<close>

type_synonym u8 = "8 word"
type_synonym u16 = "16 word"
type_synonym u32 = "32 word"
type_synonym u64 = "64 word"

text \<open>Signed integers share the word of their width; \<open>sint\<close> reads them.\<close>

type_synonym i32 = "32 word"
type_synonym bytes = "u8 list"

text \<open>A Rust \<open>String\<close>/\<open>&str\<close> is its UTF-8 byte sequence.\<close>

type_synonym rstr = "u8 list"

datatype ('a, 'e) result = Ok 'a | Err 'e

text \<open>A computation that may panic (\<open>unwrap\<close>, \<open>expect\<close>, \<open>unreachable!\<close>, \<open>panic!\<close>).\<close>

datatype 'a panics = Returns 'a | Panic

named_theorems wire_simps "equations that evaluate the wire format"
named_theorems step_simps "equations of the operations of the state machines"

fun is_Ok :: "('a, 'e) result \<Rightarrow> bool" where
  "is_Ok (Ok _) = True"
| "is_Ok (Err _) = False"

text \<open>A computation that goes on unless the first part panics.\<close>

fun and_then :: "'a panics \<Rightarrow> ('a \<Rightarrow> 'b panics) \<Rightarrow> 'b panics" where
  "and_then (Returns x) f = f x"
| "and_then Panic f = Panic"

lemma and_then_Returns: "and_then m f = Returns y \<longleftrightarrow> (\<exists>x. m = Returns x \<and> f x = Returns y)"
  by (cases m) simp_all

lemma and_then_Panic: "and_then m f = Panic \<longleftrightarrow> m = Panic \<or> (\<exists>x. m = Returns x \<and> f x = Panic)"
  by (cases m) simp_all

definition i32_max :: nat where "i32_max = 2147483647"
definition u32_max :: nat where "u32_max = 4294967295"

text \<open>The bytes of a string literal.\<close>

definition lit :: "string \<Rightarrow> bytes" where
  "lit s = map of_char s"

section \<open>Little-endian byte order\<close>

definition to_le :: "nat \<Rightarrow> 'a::len word \<Rightarrow> bytes" where
  "to_le n w = map (\<lambda>i. ucast (drop_bit (8 * i) w)) [0..<n]"

fun of_le :: "bytes \<Rightarrow> 'a::len word" where
  "of_le [] = 0"
| "of_le (b # bs) = ucast b OR push_bit 8 (of_le bs)"

section \<open>UTF-8 validation\<close>

text \<open>
  \<open>str::from_utf8\<close> accepts exactly the well-formed sequences of RFC 3629: no overlong
  form, no surrogate, nothing above U+10FFFF.
\<close>

definition cont_byte :: "u8 \<Rightarrow> bool" where
  "cont_byte b \<longleftrightarrow> 0x80 \<le> b \<and> b \<le> 0xBF"

fun utf8_valid :: "bytes \<Rightarrow> bool" where
  "utf8_valid [] = True"
| "utf8_valid (b # bs) =
    (if b < 0x80 then utf8_valid bs
     else if 0xC2 \<le> b \<and> b \<le> 0xDF then
       (case bs of c1 # r \<Rightarrow> cont_byte c1 \<and> utf8_valid r | _ \<Rightarrow> False)
     else if 0xE0 \<le> b \<and> b \<le> 0xEF then
       (case bs of c1 # c2 # r \<Rightarrow>
          cont_byte c1 \<and> cont_byte c2 \<and> (b = 0xE0 \<longrightarrow> 0xA0 \<le> c1) \<and> (b = 0xED \<longrightarrow> c1 \<le> 0x9F)
          \<and> utf8_valid r
        | _ \<Rightarrow> False)
     else if 0xF0 \<le> b \<and> b \<le> 0xF4 then
       (case bs of c1 # c2 # c3 # r \<Rightarrow>
          cont_byte c1 \<and> cont_byte c2 \<and> cont_byte c3
          \<and> (b = 0xF0 \<longrightarrow> 0x90 \<le> c1) \<and> (b = 0xF4 \<longrightarrow> c1 \<le> 0x8F) \<and> utf8_valid r
        | _ \<Rightarrow> False)
     else False)"

definition from_utf8 :: "bytes \<Rightarrow> (rstr, unit) result" where
  "from_utf8 b = (if utf8_valid b then Ok b else Err ())"

definition starts_with :: "bytes \<Rightarrow> bytes \<Rightarrow> bool" where
  "starts_with p b \<longleftrightarrow> take (length p) b = p"

section \<open>BTreeMap\<close>

text \<open>
  A \<open>BTreeMap\<close> as its sequence of entries in ascending key order, which is the order
  its iterators give.
\<close>

type_synonym ('k, 'v) btree = "('k \<times> 'v) list"

fun bt_insert :: "'k::linorder \<Rightarrow> 'v \<Rightarrow> ('k, 'v) btree \<Rightarrow> ('k, 'v) btree" where
  "bt_insert k v [] = [(k, v)]"
| "bt_insert k v ((k', v') # m) =
    (if k < k' then (k, v) # (k', v') # m
     else if k = k' then (k, v) # m
     else (k', v') # bt_insert k v m)"

fun bt_remove :: "'k::linorder \<Rightarrow> ('k, 'v) btree \<Rightarrow> ('k, 'v) btree \<times> 'v option" where
  "bt_remove k [] = ([], None)"
| "bt_remove k ((k', v') # m) =
    (if k = k' then (m, Some v')
     else (let (m', r) = bt_remove k m in ((k', v') # m', r)))"

definition bt_invar :: "('k::linorder, 'v) btree \<Rightarrow> bool" where
  "bt_invar m \<longleftrightarrow> sorted_wrt (<) (map fst m)"

section \<open>Lemmas: byte order\<close>

lemma length_to_le [simp, wire_simps]: "length (to_le n w) = n"
  by (simp add: to_le_def)

lemma bit_of_le:
  "bit (of_le bs :: 'a::len word) i \<longleftrightarrow>
     i < LENGTH('a) \<and> i div 8 < length bs \<and> bit (bs ! (i div 8)) (i mod 8)"
proof (induction bs arbitrary: i)
  case Nil
  then show ?case by simp
next
  case (Cons b bs)
  show ?case
  proof (cases "i < 8")
    case True
    then show ?thesis
      by (auto simp: bit_or_iff bit_push_bit_iff bit_ucast_iff dest: bit_imp_le_length)
  next
    case False
    then obtain j where j: "i = 8 + j"
      by (metis add.commute le_add_diff_inverse2 not_less)
    have "\<not> bit b i" using False bit_imp_le_length [of b i] by auto
    moreover have "(8 + j) div 8 = Suc (j div 8)" by simp
    ultimately show ?thesis
      by (auto simp: j bit_or_iff bit_push_bit_iff bit_ucast_iff Cons.IH dest: bit_imp_le_length)
  qed
qed

lemma of_le_to_le [simp, wire_simps]:
  fixes w :: "'a::len word"
  assumes "LENGTH('a) \<le> 8 * n"
  shows "of_le (to_le n w) = w"
proof (rule bit_word_eqI)
  fix i assume "i < LENGTH('a)"
  then have "i div 8 < n" using assms by linarith
  then show "bit (of_le (to_le n w) :: 'a word) i \<longleftrightarrow> bit w i"
    using \<open>i < LENGTH('a)\<close>
    by (simp add: bit_of_le to_le_def bit_ucast_iff bit_drop_bit_eq)
qed

lemma to_le_of_le:
  assumes "8 * length bs \<le> LENGTH('a::len)"
  shows "to_le (length bs) (of_le bs :: 'a word) = bs"
proof (rule nth_equalityI)
  show "length (to_le (length bs) (of_le bs :: 'a word)) = length bs" by simp
next
  fix i assume "i < length (to_le (length bs) (of_le bs :: 'a word))"
  then have i: "i < length bs" by simp
  show "to_le (length bs) (of_le bs :: 'a word) ! i = bs ! i"
  proof (rule bit_word_eqI)
    fix j assume "j < LENGTH(8)"
    then have j: "j < 8" by simp
    have "8 * i + j < LENGTH('a)" using i j assms by linarith
    then show "bit (to_le (length bs) (of_le bs :: 'a word) ! i) j \<longleftrightarrow> bit (bs ! i) j"
      using i j by (simp add: to_le_def bit_ucast_iff bit_drop_bit_eq bit_of_le)
  qed
qed

section \<open>Lemmas: strings\<close>

lemma length_lit [simp]: "length (lit s) = length s"
  by (simp add: lit_def)

lemma utf8_valid_ascii:
  assumes "\<forall>b \<in> set bs. b < 0x80"
  shows "utf8_valid bs"
  using assms by (induction bs) auto

lemma starts_with_append [simp]: "starts_with p (p @ b)"
  by (simp add: starts_with_def)

section \<open>The ordered map interface\<close>

text \<open>
  What a client of an ordered map relies on, stated over the set of entries: the invariant
  makes the entries a partial function, insertion replaces, removal returns what was there.
\<close>

locale ordered_map =
  fixes insert :: "'k::linorder \<Rightarrow> 'v \<Rightarrow> ('k \<times> 'v) list \<Rightarrow> ('k \<times> 'v) list"
    and remove :: "'k \<Rightarrow> ('k \<times> 'v) list \<Rightarrow> ('k \<times> 'v) list \<times> 'v option"
    and invar :: "('k \<times> 'v) list \<Rightarrow> bool"
  assumes invar_empty: "invar []"
    and invar_sorted: "invar m \<Longrightarrow> sorted (map fst m) \<and> distinct (map fst m)"
    and invar_insert: "invar m \<Longrightarrow> invar (insert k v m)"
    and invar_remove: "invar m \<Longrightarrow> invar (fst (remove k m))"
    and map_of_insert: "invar m \<Longrightarrow> map_of (insert k v m) = (map_of m)(k \<mapsto> v)"
    and map_of_remove: "invar m \<Longrightarrow> map_of (fst (remove k m)) = (map_of m)(k := None)"
    and remove_result: "invar m \<Longrightarrow> snd (remove k m) = map_of m k"
begin

lemma remove_after_insert:
  "invar m \<Longrightarrow> snd (remove k (insert k v m)) = Some v"
  by (simp add: remove_result invar_insert map_of_insert)

lemma remove_other_after_insert:
  "invar m \<Longrightarrow> k' \<noteq> k \<Longrightarrow> snd (remove k' (insert k v m)) = snd (remove k' m)"
  by (simp add: remove_result invar_insert map_of_insert)

lemma remove_twice:
  "invar m \<Longrightarrow> snd (remove k (fst (remove k m))) = None"
  by (simp add: remove_result invar_remove map_of_remove)

lemma keys_insert: "invar m \<Longrightarrow> fst ` set (insert k v m) = Set.insert k (fst ` set m)"
  by (metis dom_fun_upd dom_map_of_conv_image_fst map_of_insert option.discI)

lemma keys_remove: "invar m \<Longrightarrow> fst ` set (fst (remove k m)) = fst ` set m - {k}"
  by (metis dom_fun_upd dom_map_of_conv_image_fst map_of_remove)

end

section \<open>Lemmas: BTreeMap\<close>

lemma bt_invar_Cons:
  "bt_invar ((k, v) # m) \<longleftrightarrow> (\<forall>x \<in> set m. k < fst x) \<and> bt_invar m"
  by (auto simp: bt_invar_def)

lemma set_bt_insert_subset: "set (bt_insert k v m) \<subseteq> Set.insert (k, v) (set m)"
  by (induction k v m rule: bt_insert.induct) auto

lemma bt_invar_insert: "bt_invar m \<Longrightarrow> bt_invar (bt_insert k v m)"
proof (induction k v m rule: bt_insert.induct)
  case (2 k v k' v' m)
  have "set (bt_insert k v m) \<subseteq> Set.insert (k, v) (set m)" by (rule set_bt_insert_subset)
  with 2 show ?case by (fastforce simp: bt_invar_Cons)
qed (simp add: bt_invar_def)

lemma map_of_bt_insert: "bt_invar m \<Longrightarrow> map_of (bt_insert k v m) = (map_of m)(k \<mapsto> v)"
  by (induction k v m rule: bt_insert.induct) (auto simp: bt_invar_Cons fun_eq_iff)

lemma set_bt_remove: "set (fst (bt_remove k m)) \<subseteq> set m"
  by (induction k m rule: bt_remove.induct) (auto split: prod.splits)

lemma bt_invar_remove: "bt_invar m \<Longrightarrow> bt_invar (fst (bt_remove k m))"
proof (induction k m rule: bt_remove.induct)
  case (2 k k' v' m)
  have "set (fst (bt_remove k m)) \<subseteq> set m" by (rule set_bt_remove)
  with 2 show ?case by (auto simp: bt_invar_Cons split: prod.splits)
qed simp

lemma bt_invar_notin: "bt_invar ((k, v) # m) \<Longrightarrow> map_of m k = None"
  by (auto simp: bt_invar_Cons map_of_eq_None_iff)

lemma snd_bt_remove: "snd (bt_remove k m) = map_of m k"
  by (induction k m rule: bt_remove.induct) (auto split: prod.splits)

lemma map_of_bt_remove: "bt_invar m \<Longrightarrow> map_of (fst (bt_remove k m)) = (map_of m)(k := None)"
proof (induction k m rule: bt_remove.induct)
  case (2 k k' v' m)
  show ?case
  proof (cases "k = k'")
    case True
    then show ?thesis using bt_invar_notin [OF "2.prems"] by (auto simp: fun_eq_iff)
  next
    case False
    with 2 show ?thesis by (auto simp: bt_invar_Cons fun_eq_iff split: prod.splits)
  qed
qed simp

lemma bt_remove_None: "snd (bt_remove k m) = None \<Longrightarrow> fst (bt_remove k m) = m"
  by (induction k m rule: bt_remove.induct) (auto split: prod.splits if_splits)

interpretation bt: ordered_map bt_insert bt_remove bt_invar
proof unfold_locales
  fix m :: "('a::linorder \<times> 'b) list" and k :: 'a and v :: 'b
  show "bt_invar ([] :: ('a \<times> 'b) list)" by (simp add: bt_invar_def)
  assume inv: "bt_invar m"
  then show "sorted (map fst m) \<and> distinct (map fst m)"
    by (simp add: bt_invar_def strict_sorted_iff)
  from inv show "bt_invar (bt_insert k v m)" by (rule bt_invar_insert)
  from inv show "bt_invar (fst (bt_remove k m))" by (rule bt_invar_remove)
  from inv show "map_of (bt_insert k v m) = (map_of m)(k \<mapsto> v)" by (rule map_of_bt_insert)
  from inv show "map_of (fst (bt_remove k m)) = (map_of m)(k := None)"
    by (rule map_of_bt_remove)
  show "snd (bt_remove k m) = map_of m k" by (rule snd_bt_remove)
qed

end
