(* ===== verification/Rpc_Error.thy ===== *)
theory Rpc_Error
  imports Prelude
begin

text \<open>
  The error types of \<open>src/stream/src/error.rs\<close>: the internal errors \<open>RpcIntErr\<close> with
  their wire names and their order, the transported form \<open>EncodedErr\<close>, the client's
  \<open>RpcError\<close>, and the built-in implementations of the trait \<open>RpcErrCodec\<close>, which is a
  record of its methods. The interface \<open>rpc_err_codec\<close> states what makes such an
  implementation survive the wire; it is interpreted on every built-in one.
\<close>

section \<open>Internal errors\<close>

datatype RpcIntErr =
  Unreachable | IO | Timeout | Method | Service | Encode | Decode | Internal | Version

text \<open>The discriminants of the \<open>#[repr(u8)]\<close> enum, which the derived order compares.\<close>

fun discriminant :: "RpcIntErr \<Rightarrow> nat" where
  "discriminant Unreachable = 0"
| "discriminant IO = 1"
| "discriminant Timeout = 2"
| "discriminant Method = 3"
| "discriminant Service = 4"
| "discriminant Encode = 5"
| "discriminant Decode = 6"
| "discriminant Internal = 7"
| "discriminant Version = 8"

lemma discriminant_inj: "discriminant a = discriminant b \<Longrightarrow> a = b"
  by (cases a; cases b) simp_all

instantiation RpcIntErr :: linorder
begin

definition less_eq_RpcIntErr :: "RpcIntErr \<Rightarrow> RpcIntErr \<Rightarrow> bool" where
  "less_eq_RpcIntErr a b = (discriminant a \<le> discriminant b)"

definition less_RpcIntErr :: "RpcIntErr \<Rightarrow> RpcIntErr \<Rightarrow> bool" where
  "less_RpcIntErr a b = (discriminant a < discriminant b)"

instance
  by standard (auto simp: less_eq_RpcIntErr_def less_RpcIntErr_def discriminant_inj)

end

definition RPC_ERR_PREFIX :: rstr where
  "RPC_ERR_PREFIX = lit ''rpc_''"

text \<open>The \<open>#[strum(serialize = ...)]\<close> names, given back by \<open>as_ref\<close>.\<close>

fun as_ref :: "RpcIntErr \<Rightarrow> rstr" where
  "as_ref Unreachable = lit ''rpc_unreachable''"
| "as_ref IO = lit ''rpc_io_err''"
| "as_ref Timeout = lit ''rpc_timeout''"
| "as_ref Method = lit ''rpc_method_notfound''"
| "as_ref Service = lit ''rpc_service_notfound''"
| "as_ref Encode = lit ''rpc_encode''"
| "as_ref Decode = lit ''rpc_decode''"
| "as_ref Internal = lit ''rpc_internal_err''"
| "as_ref Version = lit ''rpc_invalid_ver''"

definition as_bytes :: "RpcIntErr \<Rightarrow> bytes" where
  "as_bytes e = as_ref e"

definition all_int_errs :: "RpcIntErr list" where
  "all_int_errs =
    [Unreachable, IO, Timeout, Method, Service, Encode, Decode, Internal, Version]"

text \<open>The derived \<open>EnumString\<close>: the variant whose name is the whole string.\<close>

definition from_str :: "rstr \<Rightarrow> (RpcIntErr, unit) result" where
  "from_str s = (case List.find (\<lambda>e. as_ref e = s) all_int_errs of
     Some e \<Rightarrow> Ok e | None \<Rightarrow> Err ())"

section \<open>Encoded and decoded errors\<close>

datatype EncodedErr = ERpc RpcIntErr | ENum u32 | EStatic rstr | EBuf bytes

definition try_as_str :: "EncodedErr \<Rightarrow> (rstr, unit) result" where
  "try_as_str e = (case e of
     EStatic s \<Rightarrow> Ok s
   | EBuf b \<Rightarrow> (case from_utf8 b of Ok s \<Rightarrow> Ok s | Err _ \<Rightarrow> Err ())
   | _ \<Rightarrow> Err ())"

definition encoded_err_eq :: "EncodedErr \<Rightarrow> EncodedErr \<Rightarrow> bool" where
  "encoded_err_eq self other = (case self of
     ERpc e \<Rightarrow> (case other of ERpc o' \<Rightarrow> e = o' | _ \<Rightarrow> False)
   | ENum e \<Rightarrow> (case other of ENum o' \<Rightarrow> e = o' | _ \<Rightarrow> False)
   | EStatic s \<Rightarrow> (case try_as_str other of Ok o' \<Rightarrow> s = o' | Err _ \<Rightarrow> False)
   | EBuf s \<Rightarrow> (case other of
        EBuf o' \<Rightarrow> s = o'
      | _ \<Rightarrow> (case try_as_str other of
           Ok o' \<Rightarrow> (case from_utf8 s of Ok s' \<Rightarrow> s' = o' | Err _ \<Rightarrow> False)
         | Err _ \<Rightarrow> False)))"

text \<open>A \<open>&'static str\<close> is valid UTF-8: the type's own invariant.\<close>

fun encoded_err_wf :: "EncodedErr \<Rightarrow> bool" where
  "encoded_err_wf (EStatic s) = utf8_valid s"
| "encoded_err_wf _ = True"

datatype 'e RpcError = User 'e | Rpc RpcIntErr

definition rpc_error_eq_int :: "'e RpcError \<Rightarrow> RpcIntErr \<Rightarrow> bool" where
  "rpc_error_eq_int self other = (case self of Rpc r \<Rightarrow> r = other | User _ \<Rightarrow> False)"

definition rpc_error_eq_user :: "('e \<Rightarrow> 'e \<Rightarrow> bool) \<Rightarrow> 'e RpcError \<Rightarrow> 'e \<Rightarrow> bool" where
  "rpc_error_eq_user eq self other = (case self of User r \<Rightarrow> eq r other | Rpc _ \<Rightarrow> False)"

definition rpc_error_eq :: "('e \<Rightarrow> 'e \<Rightarrow> bool) \<Rightarrow> 'e RpcError \<Rightarrow> 'e RpcError \<Rightarrow> bool" where
  "rpc_error_eq eq self other = (case self of
     Rpc r \<Rightarrow> (case other of Rpc o' \<Rightarrow> r = o' | _ \<Rightarrow> False)
   | User r \<Rightarrow> (case other of User o' \<Rightarrow> eq r o' | _ \<Rightarrow> False))"

section \<open>The trait RpcErrCodec and its built-in implementations\<close>

text \<open>
  The methods of the trait, for a codec type \<open>'c\<close> and an error type \<open>'e\<close>. The
  argument of \<open>decode\<close> is \<open>Result<u32, &[u8]>\<close>.
\<close>

record ('c, 'e) RpcErrCodec =
  err_encode :: "'c \<Rightarrow> 'e \<Rightarrow> EncodedErr"
  err_decode :: "'c \<Rightarrow> (u32, bytes) result \<Rightarrow> ('e, unit) result"
  should_failover :: "'e \<Rightarrow> (rstr option, unit) result"

definition default_should_failover :: "'e \<Rightarrow> (rstr option, unit) result" where
  "default_should_failover e = Err ()"

text \<open>
  \<open>impl_rpc_error_for_num!\<close>: \<open>*self as u32\<close> sign-extends a signed type and
  zero-extends an unsigned one; \<open>decode\<close> compares with \<open>MAX as u32\<close> and truncates.
\<close>

definition signed_max :: "'a::len itself \<Rightarrow> u32" where
  "signed_max _ = mask (LENGTH('a) - 1)"

definition unsigned_max :: "'a::len itself \<Rightarrow> u32" where
  "unsigned_max _ = mask (LENGTH('a))"

definition num_decode :: "u32 \<Rightarrow> (u32, bytes) result \<Rightarrow> ('a::len word, unit) result" where
  "num_decode tmax buf = (case buf of
     Ok i \<Rightarrow> if i \<le> tmax then Ok (ucast i) else Err ()
   | Err _ \<Rightarrow> Err ())"

definition signed_err :: "('c, 'a::len word) RpcErrCodec" where
  "signed_err = \<lparr>err_encode = \<lambda>_ n. ENum (scast n),
     err_decode = \<lambda>_. num_decode (signed_max TYPE('a)),
     should_failover = default_should_failover\<rparr>"

definition unsigned_err :: "('c, 'a::len word) RpcErrCodec" where
  "unsigned_err = \<lparr>err_encode = \<lambda>_ n. ENum (ucast n),
     err_decode = \<lambda>_. num_decode (unsigned_max TYPE('a)),
     should_failover = default_should_failover\<rparr>"

text \<open>
  \<open>nix::errno::Errno\<close> is third-party: its cast to \<open>u32\<close> and its \<open>from_raw\<close> are
  arguments.
\<close>

definition errno_err :: "('e \<Rightarrow> u32) \<Rightarrow> (i32 \<Rightarrow> 'e) \<Rightarrow> ('c, 'e) RpcErrCodec" where
  "errno_err as_u32 from_raw = \<lparr>err_encode = \<lambda>_ e. ENum (as_u32 e),
     err_decode = \<lambda>_ buf. (case buf of
        Ok i \<Rightarrow> if i \<le> of_nat i32_max then Ok (from_raw (ucast i)) else Err ()
      | Err _ \<Rightarrow> Err ()),
     should_failover = default_should_failover\<rparr>"

definition unit_err :: "('c, unit) RpcErrCodec" where
  "unit_err = \<lparr>err_encode = \<lambda>_ _. ENum 0,
     err_decode = \<lambda>_ buf. (case buf of
        Ok i \<Rightarrow> if i = 0 then Ok () else Err ()
      | Err _ \<Rightarrow> Err ()),
     should_failover = default_should_failover\<rparr>"

definition string_err :: "('c, rstr) RpcErrCodec" where
  "string_err = \<lparr>err_encode = \<lambda>_ s. EBuf s,
     err_decode = \<lambda>_ buf. (case buf of
        Err s \<Rightarrow> (case from_utf8 s of Ok s' \<Rightarrow> Ok s' | Err _ \<Rightarrow> Err ())
      | Ok _ \<Rightarrow> Err ()),
     should_failover = default_should_failover\<rparr>"

section \<open>What the transport promises\<close>

text \<open>
  The abstract specification of the error path: what a client transport hands to a task
  for an error the server encoded. Text that spells an internal error becomes that error,
  all other text becomes a buffer. The TCP transport is shown to implement it.
\<close>

definition text_err :: "bytes \<Rightarrow> EncodedErr" where
  "text_err b = (case (if starts_with RPC_ERR_PREFIX b \<and> utf8_valid b then from_str b else Err ()) of
     Ok e \<Rightarrow> ERpc e | Err _ \<Rightarrow> EBuf b)"

fun received_err :: "EncodedErr \<Rightarrow> EncodedErr" where
  "received_err (ERpc e) = text_err (as_bytes e)"
| "received_err (ENum n) = ENum n"
| "received_err (EStatic s) = text_err s"
| "received_err (EBuf b) = text_err b"

text \<open>The text of an error, static or not.\<close>

fun encoded_err_text :: "EncodedErr \<Rightarrow> bytes option" where
  "encoded_err_text (EStatic s) = Some s"
| "encoded_err_text (EBuf b) = Some b"
| "encoded_err_text _ = None"

section \<open>Lemmas: internal errors\<close>

lemma set_all_int_errs [simp]: "e \<in> set all_int_errs"
  by (cases e) (simp_all add: all_int_errs_def)

lemma as_ref_inj: "as_ref a = as_ref b \<Longrightarrow> a = b"
  by (cases a; cases b) (simp_all add: lit_def)

lemma find_as_ref: "List.find (\<lambda>e. as_ref e = as_ref a) es = (if a \<in> set es then Some a else None)"
  by (induction es) (auto dest: as_ref_inj)

lemma from_str_as_ref [simp, wire_simps]: "from_str (as_ref e) = Ok e"
  by (simp add: from_str_def find_as_ref)

lemma from_str_OkD: "from_str s = Ok e \<Longrightarrow> s = as_ref e"
  by (auto simp: from_str_def find_Some_iff split: option.splits)

lemma as_ref_prefix [simp]: "starts_with RPC_ERR_PREFIX (as_ref e)"
  by (cases e) (simp_all add: starts_with_def RPC_ERR_PREFIX_def lit_def)

lemma as_ref_utf8 [simp]: "utf8_valid (as_ref e)"
  by (cases e) (simp_all add: lit_def)

lemma text_err_as_bytes [simp]: "text_err (as_bytes e) = ERpc e"
  by (simp add: text_err_def as_bytes_def)

lemma text_err_other: "from_str b = Err () \<Longrightarrow> text_err b = EBuf b"
  by (simp add: text_err_def)

lemma length_as_bytes: "0 < length (as_bytes e) \<and> length (as_bytes e) \<le> 20"
  by (cases e) (simp_all add: as_bytes_def)

text \<open>
  The wire names of the internal errors and the client's parser are inverse to each
  other: parsing a string gives an error exactly when the string is that error's name, the
  name carries the reserved prefix and is valid UTF-8.
\<close>

lemma rpc_int_err_roundtrip:
  "(from_str s = Ok e \<longleftrightarrow> s = as_bytes e)
   \<and> starts_with RPC_ERR_PREFIX (as_bytes e) \<and> utf8_valid (as_bytes e)"
  by (auto simp: as_bytes_def dest: from_str_OkD)

text \<open>The errors below \<open>Method\<close>, which the failover pool retries.\<close>

lemma retriable_iff: "e < Method \<longleftrightarrow> e \<in> {Unreachable, IO, Timeout}"
  by (cases e) (simp_all add: less_RpcIntErr_def)

section \<open>Lemmas: equality of encoded errors\<close>

lemma try_as_str_Ok:
  "try_as_str e = Ok s \<longleftrightarrow> (e = EStatic s \<or> (e = EBuf s \<and> utf8_valid s))"
  by (cases e) (auto simp: try_as_str_def from_utf8_def)

lemma encoded_err_eq_iff:
  assumes "encoded_err_wf a" and "encoded_err_wf b"
  shows "encoded_err_eq a b \<longleftrightarrow>
    (if encoded_err_text a = None then a = b else encoded_err_text a = encoded_err_text b)"
  using assms
  by (cases a; cases b) (auto simp: encoded_err_eq_def try_as_str_def from_utf8_def)

text \<open>
  The hand-written equality of encoded errors is an equivalence relation on
  well-formed values, and it identifies a static string with a buffer of the same bytes.
\<close>

lemma encoded_err_eq_equivalence:
  assumes "encoded_err_wf a" and "encoded_err_wf b" and "encoded_err_wf c" and "utf8_valid s"
  shows "encoded_err_eq a a
    \<and> encoded_err_eq a b = encoded_err_eq b a
    \<and> (encoded_err_eq a b \<and> encoded_err_eq b c \<longrightarrow> encoded_err_eq a c)
    \<and> encoded_err_eq (EStatic s) (EBuf s)"
  using assms by (auto simp: encoded_err_eq_iff split: if_splits)

section \<open>The RpcErrCodec interface\<close>

text \<open>
  The contract of an error type that survives the wire: on valid values, \<open>decode\<close>
  inverts \<open>encode\<close> in the form the transport delivers, and no valid value is encoded
  as, or spelled like, an internal error.
\<close>

locale rpc_err_codec =
  fixes E :: "('c, 'e) RpcErrCodec" and valid :: "'e \<Rightarrow> bool"
  assumes num_form: "valid e \<Longrightarrow> err_encode E c e = ENum n \<Longrightarrow> err_decode E c (Ok n) = Ok e"
    and static_form:
      "valid e \<Longrightarrow> err_encode E c e = EStatic b \<Longrightarrow> err_decode E c (Err b) = Ok e \<and> from_str b = Err ()"
    and buf_form:
      "valid e \<Longrightarrow> err_encode E c e = EBuf b \<Longrightarrow> err_decode E c (Err b) = Ok e \<and> from_str b = Err ()"
    and not_internal: "valid e \<Longrightarrow> err_encode E c e \<noteq> ERpc i"
begin

lemma received_num_or_buf:
  assumes "valid e"
  shows "(\<exists>n. received_err (err_encode E c e) = ENum n \<and> err_decode E c (Ok n) = Ok e)
       \<or> (\<exists>b. received_err (err_encode E c e) = EBuf b \<and> err_decode E c (Err b) = Ok e)"
proof (cases "err_encode E c e")
  case (ERpc i)
  with assms not_internal show ?thesis by blast
next
  case (ENum n)
  with assms num_form show ?thesis by auto
next
  case (EStatic b)
  with assms static_form [of e c b] show ?thesis by (simp add: text_err_other)
next
  case (EBuf b)
  with assms buf_form [of e c b] show ?thesis by (simp add: text_err_other)
qed

end

lemma uint_mask32: "n \<le> 32 \<Longrightarrow> uint (mask n :: u32) = 2 ^ n - 1"
  unfolding uint_mask_eq by (simp add: min_def mask_eq_exp_minus_1)

lemma uint_scast:
  fixes n :: "'a::len word"
  assumes "LENGTH('a) \<le> 32"
  shows "uint (scast n :: u32) = (if 0 \<le> sint n then sint n else sint n + 2 ^ 32)"
proof -
  have lo: "- (2 ^ (LENGTH('a) - 1)) \<le> sint n" and hi: "sint n < 2 ^ (LENGTH('a) - 1)"
    by (rule sint_ge, rule sint_lt)
  have le: "(2::int) ^ (LENGTH('a) - 1) \<le> 2 ^ 31"
    using assms by (intro power_increasing) auto
  have "uint (scast n :: u32) = sint n mod 2 ^ 32"
    unfolding scast_eq uint_word_of_int by simp
  also have "\<dots> = (if 0 \<le> sint n then sint n else sint n + 2 ^ 32)"
  proof (cases "0 \<le> sint n")
    case True
    then show ?thesis using hi le by (simp add: mod_pos_pos_trivial)
  next
    case False
    have "sint n mod 2 ^ 32 = (sint n + 2 ^ 32) mod 2 ^ 32" by simp
    also have "\<dots> = sint n + 2 ^ 32"
      using False lo le by (intro mod_pos_pos_trivial) auto
    finally show ?thesis using False by simp
  qed
  finally show ?thesis .
qed

lemma scast_le_signed_max:
  fixes n :: "'a::len word"
  assumes "LENGTH('a) \<le> 32"
  shows "(scast n :: u32) \<le> signed_max TYPE('a) \<longleftrightarrow> 0 \<le> sint n"
proof -
  have lo: "- (2 ^ (LENGTH('a) - 1)) \<le> sint n" and hi: "sint n < 2 ^ (LENGTH('a) - 1)"
    by (rule sint_ge, rule sint_lt)
  have le: "(2::int) ^ (LENGTH('a) - 1) \<le> 2 ^ 31"
    using assms by (intro power_increasing) auto
  have "uint (signed_max TYPE('a)) = 2 ^ (LENGTH('a) - 1) - 1"
    using assms by (simp add: signed_max_def uint_mask32)
  then show ?thesis
    using lo hi le by (simp add: word_le_def uint_scast [OF assms])
qed

lemma ucast_scast_id:
  fixes n :: "'a::len word"
  assumes "LENGTH('a) \<le> 32"
  shows "ucast (scast n :: u32) = n"
proof (rule bit_word_eqI)
  fix i assume i: "i < LENGTH('a)"
  then have "i = LENGTH('a) - Suc 0 \<or> i < LENGTH('a) - Suc 0" by auto
  with i assms show "bit (ucast (scast n :: u32) :: 'a word) i \<longleftrightarrow> bit n i"
    by (auto simp: bit_ucast_iff bit_signed_iff min_def)
qed

lemma ucast_le_unsigned_max:
  fixes n :: "'a::len word"
  assumes "LENGTH('a) \<le> 32"
  shows "(ucast n :: u32) \<le> unsigned_max TYPE('a)"
proof -
  have b: "uint n < 2 ^ LENGTH('a)" by (rule uint_bounded)
  have le: "(2::int) ^ LENGTH('a) \<le> 2 ^ 32"
    using assms by (intro power_increasing) auto
  have "uint (ucast n :: u32) = uint n"
    using assms by (simp add: unsigned_ucast_eq take_bit_eq_mod mod_pos_pos_trivial
        order.strict_trans2 [OF b le, simplified])
  moreover have "uint (unsigned_max TYPE('a)) = 2 ^ LENGTH('a) - 1"
    using assms by (simp add: unsigned_max_def uint_mask32)
  ultimately show ?thesis using b by (simp add: word_le_def)
qed

lemma ucast_ucast_id32:
  fixes n :: "'a::len word"
  assumes "LENGTH('a) \<le> 32"
  shows "ucast (ucast n :: u32) = n"
  by (rule bit_word_eqI) (use assms in \<open>auto simp: bit_ucast_iff\<close>)

lemma signed_err_wire:
  fixes n :: "'a::len word"
  assumes "LENGTH('a) \<le> 32"
  shows "num_decode (signed_max TYPE('a)) (Ok (scast n)) = (if 0 \<le> sint n then Ok n else Err ())"
  using assms by (simp add: num_decode_def scast_le_signed_max ucast_scast_id)

lemma unsigned_err_wire:
  fixes n :: "'a::len word"
  assumes "LENGTH('a) \<le> 32"
  shows "num_decode (unsigned_max TYPE('a)) (Ok (ucast n)) = Ok n"
  using assms by (simp add: num_decode_def ucast_le_unsigned_max ucast_ucast_id32)

text \<open>
  C38: a numeric error of a signed type (\<open>i8\<close>, \<open>i16\<close>, \<open>i32\<close>) survives the wire
  exactly when it is not negative: \<open>encode\<close> sign-extends to \<open>u32\<close> and \<open>decode\<close>
  then refuses every value above the type's maximum.
\<close>

theorem signed_err_roundtrip_iff:
  fixes n :: "'a::len word"
  assumes "LENGTH('a) \<le> 32"
  shows "\<exists>w. err_encode signed_err c n = ENum w
    \<and> err_decode signed_err c (Ok w) = (if 0 \<le> sint n then Ok n else Err ())"
  using signed_err_wire [OF assms, of n] by (simp add: signed_err_def)

theorem signed_err_roundtrip_iff_witness:
  "LENGTH(32) \<le> 32 \<and>
   (\<exists>w. err_encode signed_err () (- 1 :: 32 word) = ENum w
     \<and> err_decode signed_err () (Ok w) = (Err () :: (32 word, unit) result))"
  using signed_err_roundtrip_iff [where 'a = 32, of "()" "- 1"] by simp

text \<open>The built-in implementations meet the contract.\<close>

lemma signed_err_contract:
  assumes "LENGTH('a::len) \<le> 32"
  shows "rpc_err_codec (signed_err :: ('c, 'a word) RpcErrCodec) (\<lambda>n. 0 \<le> sint n)"
  by unfold_locales (auto simp: signed_err_def signed_err_wire [OF assms])

lemma unsigned_err_contract:
  assumes "LENGTH('a::len) \<le> 32"
  shows "rpc_err_codec (unsigned_err :: ('c, 'a word) RpcErrCodec) (\<lambda>_. True)"
  by unfold_locales (auto simp: unsigned_err_def unsigned_err_wire [OF assms])

lemma errno_err_contract:
  assumes "\<And>e. valid e \<Longrightarrow> as_u32 e \<le> of_nat i32_max \<and> from_raw (as_u32 e) = e"
  shows "rpc_err_codec (errno_err as_u32 from_raw) valid"
  by unfold_locales (auto simp: errno_err_def assms)

interpretation err_i8: rpc_err_codec "signed_err :: ('c, 8 word) RpcErrCodec" "\<lambda>n. 0 \<le> sint n"
  by (rule signed_err_contract) simp

interpretation err_i16: rpc_err_codec "signed_err :: ('c, 16 word) RpcErrCodec" "\<lambda>n. 0 \<le> sint n"
  by (rule signed_err_contract) simp

interpretation err_i32: rpc_err_codec "signed_err :: ('c, 32 word) RpcErrCodec" "\<lambda>n. 0 \<le> sint n"
  by (rule signed_err_contract) simp

interpretation err_u8: rpc_err_codec "unsigned_err :: ('c, 8 word) RpcErrCodec" "\<lambda>_. True"
  by (rule unsigned_err_contract) simp

interpretation err_u16: rpc_err_codec "unsigned_err :: ('c, 16 word) RpcErrCodec" "\<lambda>_. True"
  by (rule unsigned_err_contract) simp

interpretation err_u32: rpc_err_codec "unsigned_err :: ('c, 32 word) RpcErrCodec" "\<lambda>_. True"
  by (rule unsigned_err_contract) simp

interpretation err_unit: rpc_err_codec unit_err "\<lambda>_. True"
  by unfold_locales (auto simp: unit_err_def)

interpretation err_string: rpc_err_codec string_err "\<lambda>s. utf8_valid s \<and> from_str s = Err ()"
  by unfold_locales (auto simp: string_err_def from_utf8_def)

end
