(* ===== verification/Rpc_Task.thy ===== *)
theory Rpc_Task
  imports Rpc_Error
begin

text \<open>
  The traits through which the framework sees user tasks: \<open>RpcAction\<close> of
  \<open>stream/src/proto.rs\<close>, \<open>Codec\<close> of the codec crate with its MessagePack
  implementation, \<open>ClientTask\<close> of \<open>stream/src/client/task.rs\<close> and
  \<open>ServerTaskEncode\<close> of \<open>stream/src/server/task.rs\<close>. A trait is the record of its
  methods; the contracts the framework relies on are the locales \<open>client_task_laws\<close>
  and \<open>server_task_laws\<close>, interpreted where the tasks of this repository are defined.
\<close>

section \<open>Actions\<close>

datatype RpcAction = Str rstr | Num i32

text \<open>The owned copy of an action, and the two conversions.\<close>

datatype RpcActionOwned = StrOwned rstr | NumOwned i32

fun action_into_owned :: "RpcAction \<Rightarrow> RpcActionOwned" where
  "action_into_owned (Str s) = StrOwned s"
| "action_into_owned (Num n) = NumOwned n"

fun to_action :: "RpcActionOwned \<Rightarrow> RpcAction" where
  "to_action (StrOwned s) = Str s"
| "to_action (NumOwned n) = Num n"

section \<open>Codecs\<close>

text \<open>
  The methods of \<open>Codec\<close> at one message type \<open>'m\<close>. \<open>encode_into\<close> appends to a
  buffer and returns it with the size written; on failure the buffer keeps what had been
  written.
\<close>

record ('c, 'm) Codec =
  codec_encode :: "'c \<Rightarrow> 'm \<Rightarrow> (bytes, unit) result"
  codec_encode_into :: "'c \<Rightarrow> 'm \<Rightarrow> bytes \<Rightarrow> bytes \<times> (nat, unit) result"
  codec_decode :: "'c \<Rightarrow> bytes \<Rightarrow> ('m, unit) result"

text \<open>
  \<open>MsgpCodec\<close>. \<open>rmp_serde\<close> is third-party: \<open>to_vec_named\<close>, \<open>write_named\<close> (the
  bytes it appends and its result) and \<open>from_slice\<close> are arguments.
\<close>

definition msgp_encode :: "('m \<Rightarrow> (bytes, 'err) result) \<Rightarrow> 'm \<Rightarrow> (bytes, unit) result" where
  "msgp_encode to_vec_named task = (case to_vec_named task of Ok buf \<Rightarrow> Ok buf | Err _ \<Rightarrow> Err ())"

definition msgp_encode_into ::
  "('m \<Rightarrow> bytes \<times> (unit, 'err) result) \<Rightarrow> 'm \<Rightarrow> bytes \<Rightarrow> bytes \<times> (nat, unit) result" where
  "msgp_encode_into write_named task buf =
    (let pre_len = length buf;
         (written, r) = write_named task;
         buf' = buf @ written
     in case r of
          Err _ \<Rightarrow> (buf', Err ())
        | Ok _ \<Rightarrow> (buf', Ok (length buf' - pre_len)))"

definition msgp_decode :: "(bytes \<Rightarrow> ('m, 'err) result) \<Rightarrow> bytes \<Rightarrow> ('m, unit) result" where
  "msgp_decode from_slice buf = (case from_slice buf of Err _ \<Rightarrow> Err () | Ok s \<Rightarrow> Ok s)"

definition MsgpCodec ::
  "('m \<Rightarrow> (bytes, 'err) result) \<Rightarrow> ('m \<Rightarrow> bytes \<times> (unit, 'err) result)
   \<Rightarrow> (bytes \<Rightarrow> ('m, 'err) result) \<Rightarrow> ('c, 'm) Codec" where
  "MsgpCodec to_vec_named write_named from_slice =
    \<lparr>codec_encode = \<lambda>_. msgp_encode to_vec_named,
     codec_encode_into = \<lambda>_. msgp_encode_into write_named,
     codec_decode = \<lambda>_. msgp_decode from_slice\<rparr>"

text \<open>
  What the framework relies on of a codec: \<open>encode_into\<close> only appends and returns the
  size it wrote, both encoders agree, and \<open>decode\<close> inverts them on \<open>valid\<close> messages.
\<close>

definition codec_ok :: "('c, 'm) Codec \<Rightarrow> ('m \<Rightarrow> bool) \<Rightarrow> bool" where
  "codec_ok C valid \<longleftrightarrow> (\<forall>c m buf. valid m \<longrightarrow>
     (\<exists>b. codec_encode C c m = Ok b
        \<and> codec_encode_into C c m buf = (buf @ b, Ok (length b))
        \<and> codec_decode C c b = Ok m))"

section \<open>Client tasks\<close>

text \<open>
  The methods of \<open>ClientTask\<close> (with its supertraits and the \<open>seq\<close> of
  \<open>ClientTaskCommon\<close>). \<open>reserve_resp_blob\<close> lends a mutable slice: its length, and the
  task once the slice has been filled. \<open>done\<close> consumes the task and is an output of the
  operations that call it.
\<close>

record ('c, 't) ClientTask =
  get_action :: "'t \<Rightarrow> RpcAction"
  encode_req :: "'c \<Rightarrow> 't \<Rightarrow> bytes \<Rightarrow> bytes \<times> (nat, unit) result"
  get_req_blob :: "'t \<Rightarrow> bytes option"
  decode_resp :: "'c \<Rightarrow> bytes \<Rightarrow> 't \<Rightarrow> 't \<times> (unit, unit) result"
  reserve_resp_blob :: "i32 \<Rightarrow> 't \<Rightarrow> (nat \<times> (bytes \<Rightarrow> 't)) option"
  set_custom_error :: "'c \<Rightarrow> EncodedErr \<Rightarrow> nat \<Rightarrow> u64 \<Rightarrow> 't \<Rightarrow> 't"
  set_rpc_error :: "RpcIntErr \<Rightarrow> 't \<Rightarrow> 't"
  set_ok :: "'t \<Rightarrow> 't"
  task_seq :: "'t \<Rightarrow> u64"
  set_seq :: "u64 \<Rightarrow> 't \<Rightarrow> 't"

text \<open>The default methods of the traits, for tasks without a blob field.\<close>

definition default_get_req_blob :: "'t \<Rightarrow> bytes option" where
  "default_get_req_blob t = None"

definition default_reserve_resp_blob :: "i32 \<Rightarrow> 't \<Rightarrow> (nat \<times> (bytes \<Rightarrow> 't)) option" where
  "default_reserve_resp_blob sz t = None"

record ClientTaskCommon =
  common_seq :: u64

text \<open>How a task leaves the framework: through \<open>ClientFacts::error_handle\<close> or \<open>done\<close>.\<close>

datatype 't fact = Error_Handle 't | Task_Done 't

fun fact_task :: "'t fact \<Rightarrow> 't" where
  "fact_task (Error_Handle t) = t"
| "fact_task (Task_Done t) = t"

text \<open>
  What the stream relies on: the sequence number is a field of its own, storing a response
  or an error leaves it alone, and \<open>encode_req\<close> appends exactly the size it returns.
\<close>

locale client_task_laws =
  fixes T :: "('c, 't) ClientTask"
  assumes seq_set_seq: "task_seq T (set_seq T n t) = n"
    and seq_set_rpc_error: "task_seq T (set_rpc_error T e t) = task_seq T t"
    and seq_set_custom_error: "task_seq T (set_custom_error T c ee i v t) = task_seq T t"
    and seq_set_ok: "task_seq T (set_ok T t) = task_seq T t"
    and seq_decode_resp: "task_seq T (fst (decode_resp T c msg t)) = task_seq T t"
    and seq_reserve: "reserve_resp_blob T sz t = Some (len, fill) \<Longrightarrow> task_seq T (fill blob) = task_seq T t"
    and action_set_seq: "get_action T (set_seq T n t) = get_action T t"
    and blob_set_seq: "get_req_blob T (set_seq T n t) = get_req_blob T t"
    and encode_set_seq: "encode_req T c (set_seq T n t) buf = encode_req T c t buf"
    and encode_appends:
      "encode_req T c t buf = (buf', Ok k) \<Longrightarrow> \<exists>msg. buf' = buf @ msg \<and> length msg = k"
    and encode_keeps: "\<exists>w. fst (encode_req T c t buf) = buf @ w"
begin

lemma seq_set_rpc_error_set_seq: "task_seq T (set_rpc_error T e (set_seq T n t)) = n"
  by (simp add: seq_set_rpc_error seq_set_seq)

end

text \<open>
  What a stream may do to a task it took before it reports it: number it, fill in a blob,
  decode a message. Then it reports one fact: the answer, an error sent by the server, or an
  error of the transport.
\<close>

inductive touched :: "('c, 't) ClientTask \<Rightarrow> 't \<Rightarrow> 't \<Rightarrow> bool" for T where
  tch_refl: "touched T t t"
| tch_seq: "touched T t t' \<Longrightarrow> touched T t (set_seq T n t')"
| tch_blob: "touched T t t' \<Longrightarrow> reserve_resp_blob T sz t' = Some (len, fill) \<Longrightarrow> touched T t (fill b)"
| tch_msg: "touched T t t' \<Longrightarrow> touched T t (fst (decode_resp T c msg t'))"

inductive stream_fact :: "('c, 't) ClientTask \<Rightarrow> 't \<Rightarrow> 't fact \<Rightarrow> bool" for T where
  sf_ok: "touched T t t' \<Longrightarrow> stream_fact T t (Task_Done (set_ok T t'))"
| sf_custom: "touched T t t' \<Longrightarrow> stream_fact T t (Error_Handle (set_custom_error T c e 0 0 t'))"
| sf_rpc: "touched T t t' \<Longrightarrow> stream_fact T t (Error_Handle (set_rpc_error T e t'))"

text \<open>
  A fact settles a task: it is one of those, and carries the number of the task. Until then
  the task keeps its number.
\<close>

definition worked :: "('c, 't) ClientTask \<Rightarrow> 't \<Rightarrow> 't \<Rightarrow> bool" where
  "worked T t t' \<longleftrightarrow> touched T t t' \<and> task_seq T t' = task_seq T t"

definition settles :: "('c, 't) ClientTask \<Rightarrow> 't \<Rightarrow> 't fact \<Rightarrow> bool" where
  "settles T t f \<longleftrightarrow> stream_fact T t f \<and> task_seq T (fact_task f) = task_seq T t"

lemma touched_trans: "touched T t1 t2 \<Longrightarrow> touched T t0 t1 \<Longrightarrow> touched T t0 t2"
  by (induction rule: touched.induct) (auto intro: touched.intros)

lemma stream_fact_touched: "stream_fact T t f \<Longrightarrow> touched T t0 t \<Longrightarrow> stream_fact T t0 f"
  by (induction rule: stream_fact.induct) (auto intro: stream_fact.intros touched_trans)

lemma worked_refl [intro]: "worked T t t"
  by (simp add: worked_def tch_refl)

context client_task_laws
begin

lemma worked_blob: "worked T t t' \<Longrightarrow> reserve_resp_blob T sz t' = Some (len, fill) \<Longrightarrow> worked T t (fill b)"
  by (auto simp: worked_def seq_reserve intro: tch_blob)

lemma worked_msg: "worked T t t' \<Longrightarrow> decode_resp T c msg t' = (t2, r) \<Longrightarrow> worked T t t2"
  using tch_msg [of T t t' c msg] seq_decode_resp [of c msg t'] by (simp add: worked_def)

lemma worked_settles [intro]:
  assumes "worked T t t'"
  shows "settles T t (Task_Done (set_ok T t'))" "settles T t (Error_Handle (set_rpc_error T e t'))"
    "settles T t (Error_Handle (set_custom_error T c ee 0 0 t'))"
  using assms
  by (auto simp: settles_def worked_def seq_set_ok seq_set_rpc_error seq_set_custom_error intro: stream_fact.intros)

end

text \<open>
  The smallest client task, the concrete input of witnesses: a sequence number and the
  error it was told of, with a numeric action and an empty message.
\<close>

definition probe_task :: "(unit, u64 \<times> RpcIntErr option) ClientTask" where
  "probe_task = \<lparr>get_action = \<lambda>_. Num 7, encode_req = \<lambda>_ _ buf. (buf, Ok 0),
     get_req_blob = default_get_req_blob, decode_resp = \<lambda>_ _ t. (t, Ok ()),
     reserve_resp_blob = default_reserve_resp_blob, set_custom_error = \<lambda>_ _ _ _ t. t,
     set_rpc_error = \<lambda>e (seq, _). (seq, Some e), set_ok = \<lambda>t. t, task_seq = fst,
     set_seq = \<lambda>n (_, e). (n, e)\<rparr>"

section \<open>Server tasks\<close>

text \<open>
  \<open>ServerTaskEncode\<close>: \<open>encode_resp\<close> appends the structured message to the buffer and
  returns the sequence number with the message length and the blob, or the error. It
  panics in some implementations when no result was set.
\<close>

record ('c, 't) ServerTaskEncode =
  encode_resp :: "'c \<Rightarrow> 't \<Rightarrow> bytes
     \<Rightarrow> (bytes \<times> u64 \<times> (nat \<times> bytes option, EncodedErr) result) panics"

text \<open>
  The contract the response encoder relies on, for a task that is ready to be answered:
  it does not panic, what it reports as written is what it appended, and when it reports
  an error it has appended nothing. \<open>answer\<close> is what the task has to say.
\<close>

locale server_task_laws =
  fixes S :: "('c, 't) ServerTaskEncode"
    and ready :: "'t \<Rightarrow> bool"
    and seq_of :: "'t \<Rightarrow> u64"
    and answer :: "'c \<Rightarrow> 't \<Rightarrow> (bytes \<times> bytes option, EncodedErr) result"
  assumes encode_resp_spec: "ready t \<Longrightarrow> encode_resp S c t buf =
    (case answer c t of
       Ok (msg, blob) \<Rightarrow> Returns (buf @ msg, seq_of t, Ok (length msg, blob))
     | Err e \<Rightarrow> Returns (buf, seq_of t, Err e))"
begin

lemma encode_resp_no_panic: "ready t \<Longrightarrow> encode_resp S c t buf \<noteq> Panic"
  by (auto simp: encode_resp_spec split: result.splits prod.splits)

end

section \<open>Lemmas\<close>

lemma action_owned_roundtrip [simp]: "to_action (action_into_owned a) = a"
  by (cases a) simp_all

lemma msgp_encode_into_appends:
  "msgp_encode_into write_named m buf = (buf', Ok n) \<Longrightarrow> \<exists>w. buf' = buf @ w \<and> length w = n"
  by (auto simp: msgp_encode_into_def Let_def split: prod.splits result.splits)

lemma msgp_encode_into_keeps: "\<exists>w. fst (msgp_encode_into write_named m buf) = buf @ w"
  by (auto simp: msgp_encode_into_def Let_def split: prod.splits result.splits)

lemma probe_task_laws: "client_task_laws probe_task"
  by unfold_locales (auto simp: probe_task_def default_get_req_blob_def default_reserve_resp_blob_def)

text \<open>
  If the MessagePack library's two writers agree and its reader inverts them on valid
  messages, then \<open>MsgpCodec\<close> meets the contract the framework relies on.
\<close>

lemma msgp_codec_ok:
  assumes "\<And>m. valid m \<Longrightarrow> \<exists>b. to_vec_named m = Ok b \<and> write_named m = (b, Ok ()) \<and> from_slice b = Ok m"
  shows "codec_ok (MsgpCodec to_vec_named write_named from_slice) valid"
  unfolding codec_ok_def
proof (intro allI impI)
  fix c m buf
  assume "valid m"
  from assms [OF this] obtain b where
    "to_vec_named m = Ok b" "write_named m = (b, Ok ())" "from_slice b = Ok m" by blast
  then show "\<exists>b. codec_encode (MsgpCodec to_vec_named write_named from_slice) c m = Ok b
      \<and> codec_encode_into (MsgpCodec to_vec_named write_named from_slice) c m buf
          = (buf @ b, Ok (length b))
      \<and> codec_decode (MsgpCodec to_vec_named write_named from_slice) c b = Ok m"
    by (simp add: MsgpCodec_def msgp_encode_def msgp_encode_into_def msgp_decode_def)
qed

text \<open>The codec of raw bytes, the concrete codec of later witnesses.\<close>

definition raw_codec :: "('c, bytes) Codec" where
  "raw_codec = \<lparr>codec_encode = \<lambda>_ b. Ok b, codec_encode_into = \<lambda>_ m buf. (buf @ m, Ok (length m)),
     codec_decode = \<lambda>_ b. Ok b\<rparr>"

lemma raw_codec_ok: "codec_ok raw_codec (\<lambda>_. True)"
  by (simp add: codec_ok_def raw_codec_def)

end
