(* ===== verification/Proto.thy ===== *)
theory Proto
  imports Rpc_Task
begin

text \<open>
  The wire protocol of \<open>src/stream/src/proto.rs\<close>: the 32-byte request header and the
  20-byte response header, their encoders and decoders, and the encoding of responses and
  errors. A header struct is a record; \<open>zerocopy\<close>'s view of it as bytes is the
  concatenation of its little-endian fields in declaration order.
\<close>

section \<open>Constants and headers\<close>

definition PING_ACTION :: u32 where "PING_ACTION = 0"
definition RPC_MAGIC :: u16 where "RPC_MAGIC = 19749"
definition U32_HIGH_MASK :: u32 where "U32_HIGH_MASK = push_bit 31 1"
definition RESP_FLAG_HAS_ERRNO :: u8 where "RESP_FLAG_HAS_ERRNO = 1"
definition RESP_FLAG_HAS_ERR_STRING :: u8 where "RESP_FLAG_HAS_ERR_STRING = 2"
definition RPC_VERSION_1 :: u8 where "RPC_VERSION_1 = 1"
definition RPC_REQ_HEADER_LEN :: nat where "RPC_REQ_HEADER_LEN = 32"
definition RPC_RESP_HEADER_LEN :: nat where "RPC_RESP_HEADER_LEN = 20"

record ReqHead =
  rq_magic :: u16
  rq_ver :: u8
  rq_format :: u8
  rq_action :: u32
  rq_seq :: u64
  rq_client_id :: u64
  rq_msg_len :: u32
  rq_blob_len :: u32

definition req_head_bytes :: "ReqHead \<Rightarrow> bytes" where
  "req_head_bytes h = to_le 2 (rq_magic h) @ [rq_ver h, rq_format h] @ to_le 4 (rq_action h)
     @ to_le 8 (rq_seq h) @ to_le 8 (rq_client_id h) @ to_le 4 (rq_msg_len h)
     @ to_le 4 (rq_blob_len h)"

text \<open>\<open>ref_from_bytes\<close> succeeds on a slice of exactly the header's size.\<close>

definition req_head_from_bytes :: "bytes \<Rightarrow> ReqHead option" where
  "req_head_from_bytes b = (if length b = RPC_REQ_HEADER_LEN then Some
     \<lparr>rq_magic = of_le (take 2 b), rq_ver = b ! 2, rq_format = b ! 3,
      rq_action = of_le (take 4 (drop 4 b)), rq_seq = of_le (take 8 (drop 8 b)),
      rq_client_id = of_le (take 8 (drop 16 b)), rq_msg_len = of_le (take 4 (drop 24 b)),
      rq_blob_len = of_le (take 4 (drop 28 b))\<rparr> else None)"

record RespHead =
  rs_magic :: u16
  rs_ver :: u8
  rs_flag :: u8
  rs_msg_len :: u32
  rs_seq :: u64
  rs_blob_len :: i32

definition resp_head_bytes :: "RespHead \<Rightarrow> bytes" where
  "resp_head_bytes h = to_le 2 (rs_magic h) @ [rs_ver h, rs_flag h] @ to_le 4 (rs_msg_len h)
     @ to_le 8 (rs_seq h) @ to_le 4 (rs_blob_len h)"

definition resp_head_from_bytes :: "bytes \<Rightarrow> RespHead option" where
  "resp_head_from_bytes b = (if length b = RPC_RESP_HEADER_LEN then Some
     \<lparr>rs_magic = of_le (take 2 b), rs_ver = b ! 2, rs_flag = b ! 3,
      rs_msg_len = of_le (take 4 (drop 4 b)), rs_seq = of_le (take 8 (drop 8 b)),
      rs_blob_len = of_le (take 4 (drop 16 b))\<rparr> else None)"

section \<open>Requests\<close>

text \<open>
  \<open>_write_head\<close> overwrites the first 32 bytes of the buffer; slicing a shorter buffer
  panics.
\<close>

definition req_head :: "u64 \<Rightarrow> u32 \<Rightarrow> u64 \<Rightarrow> u32 \<Rightarrow> i32 \<Rightarrow> ReqHead" where
  "req_head client_id action seq msg_len blob_len =
    \<lparr>rq_magic = RPC_MAGIC, rq_ver = RPC_VERSION_1, rq_format = 0, rq_action = action,
     rq_seq = seq, rq_client_id = client_id, rq_msg_len = msg_len, rq_blob_len = blob_len\<rparr>"

definition req_write_head ::
  "bytes \<Rightarrow> u64 \<Rightarrow> u32 \<Rightarrow> u64 \<Rightarrow> u32 \<Rightarrow> i32 \<Rightarrow> bytes panics" where
  "req_write_head buf client_id action seq msg_len blob_len =
    (if length buf < RPC_REQ_HEADER_LEN then Panic
     else Returns (req_head_bytes (req_head client_id action seq msg_len blob_len)
                   @ drop RPC_REQ_HEADER_LEN buf))"

text \<open>
  \<open>set_len\<close> exposes 32 bytes of the reused buffer; \<open>room\<close> is whatever they hold.
\<close>

definition encode_ping :: "bytes \<Rightarrow> u64 \<Rightarrow> u64 \<Rightarrow> bytes panics" where
  "encode_ping room client_id seq = req_write_head room client_id PING_ACTION seq 0 0"

definition req_encode ::
  "('c, 't) ClientTask \<Rightarrow> 'c \<Rightarrow> bytes \<Rightarrow> u64 \<Rightarrow> 't
   \<Rightarrow> (bytes \<times> (bytes option, unit) result) panics" where
  "req_encode T codec room client_id task =
    (let (action_flag, buf1) = (case get_action T task of
           Num num \<Rightarrow> (num, room)
         | Str s \<Rightarrow> (of_nat (length s) OR U32_HIGH_MASK, room @ s));
         (buf2, r) = encode_req T codec task buf1
     in case r of
          Err _ \<Rightarrow> Returns (buf2, Err ())
        | Ok msg_len \<Rightarrow>
            if msg_len > u32_max then Returns (buf2, Err ())
            else
              (let blob = get_req_blob T task;
                   blob_len = (case blob of Some b \<Rightarrow> length b | None \<Rightarrow> 0)
               in if blob_len > i32_max then Returns (buf2, Err ())
                  else (case req_write_head buf2 client_id action_flag (task_seq T task)
                               (of_nat msg_len) (of_nat blob_len) of
                          Panic \<Rightarrow> Panic
                        | Returns buf3 \<Rightarrow> Returns (buf3, Ok blob))))"

definition req_decode_head :: "bytes \<Rightarrow> (ReqHead, RpcIntErr) result panics" where
  "req_decode_head head_buf = (case req_head_from_bytes head_buf of
     None \<Rightarrow> Panic
   | Some head \<Rightarrow> Returns
       (if rq_magic head \<noteq> RPC_MAGIC then Err IO
        else if rq_ver head \<noteq> RPC_VERSION_1 then Err Version
        else Ok head))"

text \<open>\<open>Ok\<close>: a numeric action; \<open>Err\<close>: the length of an action string.\<close>

definition req_get_action :: "ReqHead \<Rightarrow> (i32, i32) result" where
  "req_get_action h = (if rq_action h AND U32_HIGH_MASK = 0 then Ok (rq_action h)
     else Err (rq_action h XOR U32_HIGH_MASK))"

section \<open>Responses\<close>

definition resp_head :: "u8 \<Rightarrow> u64 \<Rightarrow> u32 \<Rightarrow> i32 \<Rightarrow> RespHead" where
  "resp_head flag seq msg_len blob_len =
    \<lparr>rs_magic = RPC_MAGIC, rs_ver = RPC_VERSION_1, rs_flag = flag, rs_msg_len = msg_len,
     rs_seq = seq, rs_blob_len = blob_len\<rparr>"

definition resp_write_head :: "bytes \<Rightarrow> u8 \<Rightarrow> u64 \<Rightarrow> u32 \<Rightarrow> i32 \<Rightarrow> bytes panics" where
  "resp_write_head buf flag seq msg_len blob_len =
    (if length buf < RPC_RESP_HEADER_LEN then Panic
     else Returns (resp_head_bytes (resp_head flag seq msg_len blob_len)
                   @ drop RPC_RESP_HEADER_LEN buf))"

definition write_err_str :: "bytes \<Rightarrow> u64 \<Rightarrow> bytes \<Rightarrow> bytes panics" where
  "write_err_str buf seq s =
    (case resp_write_head buf RESP_FLAG_HAS_ERR_STRING seq 0 (of_nat (length s)) of
       Panic \<Rightarrow> Panic
     | Returns buf' \<Rightarrow> Returns (buf' @ s))"

definition encode_error :: "bytes \<Rightarrow> u64 \<Rightarrow> EncodedErr \<Rightarrow> bytes panics" where
  "encode_error buf seq e = (case e of
     ENum n \<Rightarrow> resp_write_head buf RESP_FLAG_HAS_ERRNO seq n 0
   | ERpc s \<Rightarrow> write_err_str buf seq (as_bytes s)
   | EBuf s \<Rightarrow> write_err_str buf seq s
   | EStatic s \<Rightarrow> write_err_str buf seq s)"

text \<open>The buffer, the sequence number and the blob to send after the buffer.\<close>

definition with_blob :: "u64 \<Rightarrow> bytes option \<Rightarrow> bytes panics \<Rightarrow> (bytes \<times> u64 \<times> bytes option) panics" where
  "with_blob seq blob r = (case r of Panic \<Rightarrow> Panic | Returns buf \<Rightarrow> Returns (buf, seq, blob))"

definition resp_encode ::
  "('c, 't) ServerTaskEncode \<Rightarrow> 'c \<Rightarrow> bytes \<Rightarrow> 't \<Rightarrow> (bytes \<times> u64 \<times> bytes option) panics" where
  "resp_encode S codec room task = (case encode_resp S codec task room of
     Panic \<Rightarrow> Panic
   | Returns (buf, seq, r) \<Rightarrow> (case r of
        Ok (msg_len, None) \<Rightarrow>
          if msg_len > u32_max then with_blob seq None (encode_error buf seq (ERpc Encode))
          else with_blob seq None (resp_write_head buf 0 seq (of_nat msg_len) 0)
      | Ok (msg_len, Some blob) \<Rightarrow>
          if msg_len > u32_max then with_blob seq None (encode_error buf seq (ERpc Encode))
          else if length blob > i32_max then with_blob seq None (encode_error buf seq (ERpc Encode))
          else with_blob seq (Some blob)
                 (resp_write_head buf 0 seq (of_nat msg_len) (of_nat (length blob)))
      | Err e \<Rightarrow> with_blob seq None (encode_error buf seq e)))"

definition encode_internal :: "bytes \<Rightarrow> u64 \<Rightarrow> RpcIntErr option \<Rightarrow> (bytes \<times> u64) panics" where
  "encode_internal room seq err =
    (case (case err of
             Some e \<Rightarrow> encode_error room seq (ERpc e)
           | None \<Rightarrow> resp_write_head room 0 seq 0 0) of
       Panic \<Rightarrow> Panic
     | Returns buf \<Rightarrow> Returns (buf, seq))"

definition resp_decode_head :: "bytes \<Rightarrow> (RespHead, RpcIntErr) result panics" where
  "resp_decode_head head_buf = (case resp_head_from_bytes head_buf of
     None \<Rightarrow> Panic
   | Some head \<Rightarrow> Returns
       (if rs_magic head \<noteq> RPC_MAGIC then Err IO
        else if rs_ver head \<noteq> RPC_VERSION_1 then Err Version
        else Ok head))"

section \<open>What the encoders promise\<close>

text \<open>
  The abstract view of a request: the bytes of its action and how the header announces it;
  of a response: all its bytes, header, message and blob, or header and error text.
\<close>

fun action_text :: "RpcAction \<Rightarrow> bytes" where
  "action_text (Str s) = s"
| "action_text (Num n) = []"

fun action_flag :: "RpcAction \<Rightarrow> u32" where
  "action_flag (Str s) = of_nat (length s) OR U32_HIGH_MASK"
| "action_flag (Num n) = n"

definition opt_bytes :: "bytes option \<Rightarrow> bytes" where
  "opt_bytes b = (case b of Some x \<Rightarrow> x | None \<Rightarrow> [])"

definition req_frame :: "u64 \<Rightarrow> u64 \<Rightarrow> RpcAction \<Rightarrow> bytes \<Rightarrow> bytes option \<Rightarrow> bytes" where
  "req_frame client_id seq a msg blob =
     req_head_bytes (req_head client_id (action_flag a) seq (of_nat (length msg))
       (of_nat (length (opt_bytes blob)))) @ action_text a @ msg @ opt_bytes blob"

fun err_frame :: "u64 \<Rightarrow> EncodedErr \<Rightarrow> bytes" where
  "err_frame seq (ENum n) = resp_head_bytes (resp_head RESP_FLAG_HAS_ERRNO seq n 0)"
| "err_frame seq (ERpc e) = resp_head_bytes (resp_head RESP_FLAG_HAS_ERR_STRING seq 0
     (of_nat (length (as_bytes e)))) @ as_bytes e"
| "err_frame seq (EStatic b) = resp_head_bytes (resp_head RESP_FLAG_HAS_ERR_STRING seq 0
     (of_nat (length b))) @ b"
| "err_frame seq (EBuf b) = resp_head_bytes (resp_head RESP_FLAG_HAS_ERR_STRING seq 0
     (of_nat (length b))) @ b"

definition ok_frame :: "u64 \<Rightarrow> bytes \<Rightarrow> bytes option \<Rightarrow> bytes" where
  "ok_frame seq msg blob = resp_head_bytes (resp_head 0 seq (of_nat (length msg))
     (of_nat (length (opt_bytes blob)))) @ msg @ opt_bytes blob"

text \<open>What is sent for an answer: an answer too long for the header becomes an error.\<close>

fun answer_frame :: "u64 \<Rightarrow> (bytes \<times> bytes option, EncodedErr) result \<Rightarrow> bytes" where
  "answer_frame seq (Ok (msg, blob)) = ok_frame seq msg blob"
| "answer_frame seq (Err e) = err_frame seq e"

fun answer_fits :: "(bytes \<times> bytes option, EncodedErr) result \<Rightarrow> bool" where
  "answer_fits (Ok (msg, blob)) \<longleftrightarrow> length msg \<le> u32_max \<and> length (opt_bytes blob) \<le> i32_max"
| "answer_fits (Err e) \<longleftrightarrow> True"

section \<open>Lemmas: headers\<close>

lemma length_req_head_bytes [simp, wire_simps]: "length (req_head_bytes h) = RPC_REQ_HEADER_LEN"
  by (simp add: req_head_bytes_def RPC_REQ_HEADER_LEN_def)

lemma length_resp_head_bytes [simp, wire_simps]: "length (resp_head_bytes h) = RPC_RESP_HEADER_LEN"
  by (simp add: resp_head_bytes_def RPC_RESP_HEADER_LEN_def)

lemma req_head_from_to [simp, wire_simps]: "req_head_from_bytes (req_head_bytes h) = Some h"
  by (simp add: req_head_from_bytes_def)
     (simp add: req_head_bytes_def take_append nth_append)

lemma resp_head_from_to [simp, wire_simps]: "resp_head_from_bytes (resp_head_bytes h) = Some h"
  by (simp add: resp_head_from_bytes_def)
     (simp add: resp_head_bytes_def take_append nth_append)

lemma to_le_chunk:
  assumes "length b = n" and "8 * n \<le> LENGTH('a::len)"
  shows "to_le n (of_le b :: 'a word) = b"
  using to_le_of_le [where 'a = 'a, of b] assms by simp

lemma chunk: "i + n \<le> length b \<Longrightarrow> drop i b = take n (drop i b) @ drop (i + n) b"
  by (metis append_take_drop_id drop_drop add.commute)

lemma req_head_to_from:
  assumes "req_head_from_bytes b = Some h"
  shows "req_head_bytes h = b"
proof -
  from assms have len: "length b = 32"
    by (simp add: req_head_from_bytes_def RPC_REQ_HEADER_LEN_def split: if_splits)
  have mid: "[b ! 2, b ! 3] = take 2 (drop 2 b)"
    using len by (auto intro!: nth_equalityI simp: nth_Cons numeral_2_eq_2 numeral_3_eq_3
        split: nat.splits)
  have "b = take 2 b @ take 2 (drop 2 b) @ take 4 (drop 4 b) @ take 8 (drop 8 b)
      @ take 8 (drop 16 b) @ take 4 (drop 24 b) @ take 4 (drop 28 b)"
    using len chunk [of 0 2 b] chunk [of 2 2 b] chunk [of 4 4 b] chunk [of 8 8 b]
      chunk [of 16 8 b] chunk [of 24 4 b] chunk [of 28 4 b] by simp
  then have sp: "take 2 b @ [b ! 2, b ! 3] @ take 4 (drop 4 b) @ take 8 (drop 8 b)
      @ take 8 (drop 16 b) @ take 4 (drop 24 b) @ take 4 (drop 28 b) = b"
    using mid by simp
  with assms len show ?thesis
    by (auto simp: req_head_from_bytes_def req_head_bytes_def to_le_chunk split: if_splits)
qed

lemma resp_head_to_from:
  assumes "resp_head_from_bytes b = Some h"
  shows "resp_head_bytes h = b"
proof -
  from assms have len: "length b = 20"
    by (simp add: resp_head_from_bytes_def RPC_RESP_HEADER_LEN_def split: if_splits)
  have mid: "[b ! 2, b ! 3] = take 2 (drop 2 b)"
    using len by (auto intro!: nth_equalityI simp: nth_Cons numeral_2_eq_2 numeral_3_eq_3
        split: nat.splits)
  have "b = take 2 b @ take 2 (drop 2 b) @ take 4 (drop 4 b) @ take 8 (drop 8 b)
      @ take 4 (drop 16 b)"
    using len chunk [of 0 2 b] chunk [of 2 2 b] chunk [of 4 4 b] chunk [of 8 8 b]
      chunk [of 16 4 b] by simp
  then have sp: "take 2 b @ [b ! 2, b ! 3] @ take 4 (drop 4 b) @ take 8 (drop 8 b)
      @ take 4 (drop 16 b) = b"
    using mid by simp
  with assms len show ?thesis
    by (auto simp: resp_head_from_bytes_def resp_head_bytes_def to_le_chunk split: if_splits)
qed

text \<open>
  The request header and its 32 bytes, and the response header and its 20 bytes,
  determine each other: reading inverts writing and writing inverts reading.
\<close>

lemma header_roundtrip:
  "(req_head_from_bytes b = Some h \<longleftrightarrow> req_head_bytes h = b)
   \<and> (resp_head_from_bytes b' = Some h' \<longleftrightarrow> resp_head_bytes h' = b')
   \<and> length (req_head_bytes h) = 32 \<and> length (resp_head_bytes h') = 20"
  using req_head_to_from resp_head_to_from
  by (auto simp: RPC_REQ_HEADER_LEN_def RPC_RESP_HEADER_LEN_def)

lemma req_decode_head_bytes [simp, wire_simps]:
  "req_decode_head (req_head_bytes (req_head cid a seq m b)) = Returns (Ok (req_head cid a seq m b))"
  by (simp add: req_decode_head_def) (simp add: req_head_def)

lemma resp_decode_head_bytes [simp, wire_simps]:
  "resp_decode_head (resp_head_bytes (resp_head f seq m b)) = Returns (Ok (resp_head f seq m b))"
  by (simp add: resp_decode_head_def) (simp add: resp_head_def)

section \<open>Lemmas: actions\<close>

lemma bit_high_mask: "bit U32_HIGH_MASK i \<longleftrightarrow> i = 31"
  unfolding U32_HIGH_MASK_def bit_push_bit_iff bit_1_iff by auto

lemma bit_of_nat_high: "n < 2 ^ 31 \<Longrightarrow> \<not> bit (of_nat n :: u32) 31"
  by (simp add: bit_of_nat_iff bit_nat_def)

lemma and_high_mask_0: "w AND U32_HIGH_MASK = 0 \<longleftrightarrow> \<not> bit w 31"
proof
  assume "w AND U32_HIGH_MASK = 0"
  then have "\<not> bit (w AND U32_HIGH_MASK) 31" by simp
  then show "\<not> bit w 31" by (simp add: bit_and_iff bit_high_mask)
next
  assume "\<not> bit w 31"
  then show "w AND U32_HIGH_MASK = 0"
    by (intro bit_word_eqI) (auto simp: bit_and_iff bit_high_mask)
qed

lemma high_mask_nonzero: "U32_HIGH_MASK \<noteq> 0"
  by (simp add: U32_HIGH_MASK_def)

lemma sint_nonneg_bit: "0 \<le> sint (w :: u32) \<longleftrightarrow> \<not> bit w 31"
  using bit_last_iff [of w] by (simp add: not_less)

lemma get_action_num:
  "req_get_action (req_head cid (action_flag (Num n)) seq m b) =
     (if 0 \<le> sint n then Ok n else Err (n XOR U32_HIGH_MASK))"
  by (simp add: req_get_action_def req_head_def and_high_mask_0 sint_nonneg_bit)

lemma get_action_str:
  assumes "length s < 2 ^ 31"
  shows "req_get_action (req_head cid (action_flag (Str s)) seq m b) = Err (of_nat (length s))"
proof -
  have "(of_nat (length s) OR U32_HIGH_MASK) XOR U32_HIGH_MASK = (of_nat (length s) :: u32)"
    using bit_of_nat_high [OF assms]
    by (intro bit_word_eqI) (auto simp: bit_or_iff bit_xor_iff bit_high_mask)
  then show ?thesis
    using and_high_mask_0 [of "of_nat (length s) OR U32_HIGH_MASK"]
    by (simp add: req_get_action_def req_head_def bit_or_iff bit_high_mask high_mask_nonzero)
qed

text \<open>
  C37: the action word of the request header tells numbers from strings exactly for
  non-negative action numbers and strings shorter than two to the 31: a negative number has
  the string mark set and is read back as a string length.
\<close>

theorem action_word_roundtrip:
  "(req_get_action (req_head cid (action_flag (Num n)) seq m b) = Ok n \<longleftrightarrow> 0 \<le> sint n)
   \<and> (sint n < 0 \<longrightarrow>
        req_get_action (req_head cid (action_flag (Num n)) seq m b) = Err (n XOR U32_HIGH_MASK))
   \<and> (length s < 2 ^ 31 \<longrightarrow>
        req_get_action (req_head cid (action_flag (Str s)) seq m b) = Err (of_nat (length s)))"
  by (simp add: get_action_num get_action_str del: action_flag.simps)

theorem action_word_roundtrip_witness:
  "req_get_action (req_head 0 (action_flag (Num (- 1))) 1 0 0) = Err 0x7FFFFFFF
   \<and> req_get_action (req_head 0 (action_flag (Str (lit ''A.b''))) 1 0 0) = Err 3"
proof -
  have x: "(- 1 :: u32) XOR U32_HIGH_MASK = 0x7FFFFFFF" by (simp add: U32_HIGH_MASK_def)
  have s: "sint (- 1 :: u32) < 0" by simp
  have l: "length (lit ''A.b'') < 2 ^ 31" by simp
  show ?thesis
    using action_word_roundtrip [of 0 "- 1" 1 0 0 "lit ''A.b''"] s l by (simp only: x) simp
qed

section \<open>Lemmas: encoding a request\<close>

lemma req_write_head_room:
  "length room = RPC_REQ_HEADER_LEN \<Longrightarrow>
   req_write_head (room @ w) cid a seq m b = Returns (req_head_bytes (req_head cid a seq m b) @ w)"
  by (simp add: req_write_head_def)

lemma encode_ping_frame:
  "length room = RPC_REQ_HEADER_LEN \<Longrightarrow>
   encode_ping room cid seq = Returns (req_frame cid seq (Num 0) [] None)"
  using req_write_head_room [of room "[]" cid PING_ACTION seq 0 0]
  by (simp add: encode_ping_def req_frame_def PING_ACTION_def opt_bytes_def)

text \<open>\<open>encode\<close> in terms of the task's own encoder.\<close>

lemma req_encode_eq:
  "req_encode T c room cid t =
    (case encode_req T c t (room @ action_text (get_action T t)) of
       (buf, Err _) \<Rightarrow> Returns (buf, Err ())
     | (buf, Ok n) \<Rightarrow>
         if n \<le> u32_max \<and> length (opt_bytes (get_req_blob T t)) \<le> i32_max
         then (case req_write_head buf cid (action_flag (get_action T t)) (task_seq T t) (of_nat n)
                      (of_nat (length (opt_bytes (get_req_blob T t)))) of
                 Panic \<Rightarrow> Panic
               | Returns buf' \<Rightarrow> Returns (buf', Ok (get_req_blob T t)))
         else Returns (buf, Err ()))"
proof -
  have bl: "(case get_req_blob T t of Some b \<Rightarrow> length b | None \<Rightarrow> 0)
      = length (opt_bytes (get_req_blob T t))"
    by (simp add: opt_bytes_def split: option.splits)
  have act: "(case get_action T t of Num num \<Rightarrow> (num, room)
        | Str s \<Rightarrow> (of_nat (length s) OR U32_HIGH_MASK, room @ s))
      = (action_flag (get_action T t), room @ action_text (get_action T t))"
    by (cases "get_action T t") simp_all
  show ?thesis
    by (auto simp: req_encode_def Let_def act bl not_le split: prod.splits result.splits)
qed

lemma req_encode_Ok:
  assumes room: "length room = RPC_REQ_HEADER_LEN"
    and enc: "encode_req T c t (room @ action_text (get_action T t))
        = (room @ action_text (get_action T t) @ msg, Ok (length msg))"
    and sizes: "length msg \<le> u32_max" "length (opt_bytes (get_req_blob T t)) \<le> i32_max"
  shows "\<exists>buf. req_encode T c room cid t = Returns (buf, Ok (get_req_blob T t))
    \<and> buf @ opt_bytes (get_req_blob T t)
        = req_frame cid (task_seq T t) (get_action T t) msg (get_req_blob T t)"
  using enc sizes by (simp add: req_encode_eq req_write_head_room [OF room] req_frame_def)

lemma encode_req_appends:
  assumes "client_task_laws T" "encode_req T c t (room @ a) = (buf, Ok n)"
  obtains msg where "buf = room @ a @ msg" "length msg = n"
  using client_task_laws.encode_appends [OF assms] by auto

text \<open>
  C36: encoding a request never panics. It fails exactly when the task's own encoder fails
  or a length does not fit the header; otherwise the bytes written, with the blob after
  them, are the frame of the request: the header announcing the lengths, the action string,
  the message and the blob, whatever the reused buffer held before.
\<close>

theorem req_encode_frames:
  assumes "client_task_laws T" and "length room = 32"
  shows "case encode_req T c t (room @ action_text (get_action T t)) of
      (buf, Err _) \<Rightarrow> req_encode T c room cid t = Returns (buf, Err ())
    | (buf, Ok n) \<Rightarrow>
        if n \<le> u32_max \<and> length (opt_bytes (get_req_blob T t)) \<le> i32_max
        then \<exists>msg out. length msg = n \<and> buf = room @ action_text (get_action T t) @ msg
          \<and> req_encode T c room cid t = Returns (out, Ok (get_req_blob T t))
          \<and> out @ opt_bytes (get_req_blob T t)
              = req_frame cid (task_seq T t) (get_action T t) msg (get_req_blob T t)
        else req_encode T c room cid t = Returns (buf, Err ())"
proof -
  obtain buf r where enc: "encode_req T c t (room @ action_text (get_action T t)) = (buf, r)" by force
  show ?thesis
  proof (cases r)
    case (Err u)
    then show ?thesis by (simp add: enc req_encode_eq)
  next
    case (Ok n)
    with enc encode_req_appends [OF assms(1)] obtain msg where
      msg: "buf = room @ action_text (get_action T t) @ msg" "length msg = n" by metis
    show ?thesis
      using enc Ok msg req_encode_Ok [of room T c t msg cid] assms(2)
      by (auto simp: req_encode_eq RPC_REQ_HEADER_LEN_def)
  qed
qed

theorem req_encode_frames_witness:
  "\<exists>out. req_encode probe_task () (replicate 32 0) 9 (3, None) = Returns (out, Ok None)
     \<and> out = req_frame 9 3 (Num 7) [] None"
  using req_encode_frames [OF probe_task_laws, where room = "replicate 32 0" and t = "(3, None)" and c = "()" and cid = 9]
  by (auto simp: probe_task_def default_get_req_blob_def opt_bytes_def)

section \<open>Lemmas: encoding a response\<close>

lemma resp_write_head_room:
  "length room = RPC_RESP_HEADER_LEN \<Longrightarrow>
   resp_write_head (room @ w) f seq m b = Returns (resp_head_bytes (resp_head f seq m b) @ w)"
  by (simp add: resp_write_head_def)

lemma encode_error_frame:
  assumes "length room = RPC_RESP_HEADER_LEN"
  shows "encode_error room seq e = Returns (err_frame seq e)"
  using resp_write_head_room [OF assms, of "[]"]
  by (cases e) (simp_all add: encode_error_def write_err_str_def)

lemma encode_internal_frame:
  assumes "length room = RPC_RESP_HEADER_LEN"
  shows "encode_internal room seq err = Returns
    (case err of Some e \<Rightarrow> err_frame seq (ERpc e) | None \<Rightarrow> ok_frame seq [] None, seq)"
  using resp_write_head_room [OF assms, of "[]"] encode_error_frame [OF assms]
  by (cases err) (simp_all add: encode_internal_def ok_frame_def opt_bytes_def)

context server_task_laws
begin

lemma resp_encode_frame:
  assumes "ready t" and "length room = RPC_RESP_HEADER_LEN" and "answer_fits (answer c t)"
  shows "\<exists>buf blob. resp_encode S c room t = Returns (buf, seq_of t, blob)
    \<and> buf @ opt_bytes blob = answer_frame (seq_of t) (answer c t)"
proof (cases "answer c t")
  case (Err e)
  with assms show ?thesis
    by (simp add: resp_encode_def encode_resp_spec with_blob_def encode_error_frame opt_bytes_def)
next
  case (Ok a)
  obtain msg blob where a: "a = (msg, blob)" by (cases a)
  show ?thesis
    using assms Ok a resp_write_head_room [OF assms(2)]
    by (cases blob)
       (auto simp: resp_encode_def encode_resp_spec with_blob_def ok_frame_def opt_bytes_def)
qed

end

end
