(* ===== verification/Task_Timer.thy ===== *)
theory Task_Timer
  imports Rpc_Task "HOL-Library.Multiset"
begin

text \<open>
  \<open>ClientTaskTimer\<close> of \<open>src/stream/src/client/timer.rs\<close>: the tasks of a connection
  that wait for a response, in three stages: the channel of freshly sent tasks, the map of
  the current second, and the queue of the batches of past seconds. The task items are the
  tasks themselves (each holds one throttler guard, released when the item is dropped).
  Tasks the timer gives up are the output of an operation, in the order in which
  \<open>facts.error_handle\<close> is called.

  The abstract specification is the timeline: the waiting tasks, oldest first. Every
  operation is shown to implement its counterpart on the timeline.
\<close>

section \<open>State and operations\<close>

record 't ClientTaskTimer =
  pending_tasks :: "'t list"
  pending_cap :: nat
  pending_task_count :: u64
  sent_tasks :: "(u64, 't) btree"
  delay_tasks_queue :: "(u64, 't) btree list"
  min_delay_seq :: u64
  task_timeout :: nat
  processed_seq :: u64
  reg_stopped_flag :: bool

definition timer_new :: "nat \<Rightarrow> nat \<Rightarrow> 't ClientTaskTimer" where
  "timer_new timeout thresholds =
    (let thresholds' = (if thresholds = 0 then 500 else thresholds)
     in \<lparr>pending_tasks = [], pending_cap = thresholds' * 2, pending_task_count = 0,
         sent_tasks = [], delay_tasks_queue = [], min_delay_seq = 0, task_timeout = timeout,
         processed_seq = 0, reg_stopped_flag = False\<rparr>)"

definition got_pending_task ::
  "('c, 't) ClientTask \<Rightarrow> 't \<Rightarrow> 't ClientTaskTimer \<Rightarrow> 't ClientTaskTimer" where
  "got_pending_task T t tm = tm\<lparr>pending_task_count := pending_task_count tm - 1,
     processed_seq := task_seq T t, sent_tasks := bt_insert (task_seq T t) t (sent_tasks tm)\<rparr>"

text \<open>The loops that receive until the channel is empty.\<close>

fun recv_all :: "('c, 't) ClientTask \<Rightarrow> 't list \<Rightarrow> 't ClientTaskTimer \<Rightarrow> 't ClientTaskTimer" where
  "recv_all T [] tm = tm\<lparr>pending_tasks := []\<rparr>"
| "recv_all T (t # ts) tm = recv_all T ts (got_pending_task T t (tm\<lparr>pending_tasks := ts\<rparr>))"

definition poll_sent_task ::
  "('c, 't) ClientTask \<Rightarrow> 't ClientTaskTimer \<Rightarrow> 't ClientTaskTimer \<times> bool" where
  "poll_sent_task T tm = (recv_all T (pending_tasks tm) tm, pending_tasks tm \<noteq> [])"

text \<open>
  The body of the cleaning loops: each key of the map is removed and its task reported;
  the removal's \<open>unwrap\<close> would panic on a missing key.
\<close>

fun clean_keys ::
  "('c, 't) ClientTask \<Rightarrow> u64 list \<Rightarrow> (u64, 't) btree \<Rightarrow> ((u64, 't) btree \<times> 't list) panics" where
  "clean_keys T [] m = Returns (m, [])"
| "clean_keys T (k # ks) m = (case bt_remove k m of
     (_, None) \<Rightarrow> Panic
   | (m', Some t) \<Rightarrow> (case clean_keys T ks m' of
        Panic \<Rightarrow> Panic
      | Returns (m'', out) \<Rightarrow> Returns (m'', set_rpc_error T IO t # out)))"

fun clean_batches ::
  "('c, 't) ClientTask \<Rightarrow> (u64, 't) btree list \<Rightarrow> ((u64, 't) btree list \<times> 't list) panics" where
  "clean_batches T [] = Returns ([], [])"
| "clean_batches T (b # bs) = (case clean_keys T (map fst b) b of
     Panic \<Rightarrow> Panic
   | Returns (b', out) \<Rightarrow> (case clean_batches T bs of
        Panic \<Rightarrow> Panic
      | Returns (bs', out') \<Rightarrow> Returns (b' # bs', out @ out')))"

definition clean_pending_tasks ::
  "('c, 't) ClientTask \<Rightarrow> 't ClientTaskTimer \<Rightarrow> ('t ClientTaskTimer \<times> 't list) panics" where
  "clean_pending_tasks T tm =
    (let tm1 = recv_all T (pending_tasks tm) tm
     in case clean_keys T (map fst (sent_tasks tm1)) (sent_tasks tm1) of
          Panic \<Rightarrow> Panic
        | Returns (sent, out) \<Rightarrow> (case clean_batches T (delay_tasks_queue tm1) of
             Panic \<Rightarrow> Panic
           | Returns (queue, out') \<Rightarrow>
               Returns (tm1\<lparr>sent_tasks := sent, delay_tasks_queue := queue\<rparr>, out @ out')))"

definition check_pending_tasks_empty ::
  "('c, 't) ClientTask \<Rightarrow> 't ClientTaskTimer \<Rightarrow> 't ClientTaskTimer \<times> bool" where
  "check_pending_tasks_empty T tm =
    (let tm1 = recv_all T (pending_tasks tm) tm
     in (tm1, if sent_tasks tm1 \<noteq> [] then False
              else list_all (\<lambda>b. b = []) (delay_tasks_queue tm1)))"

text \<open>Sending to the bounded channel waits (\<open>None\<close>) while it is full.\<close>

definition reg_task :: "'t \<Rightarrow> 't ClientTaskTimer \<Rightarrow> 't ClientTaskTimer option" where
  "reg_task t tm = (if length (pending_tasks tm) < pending_cap tm
     then Some (tm\<lparr>pending_tasks := pending_tasks tm @ [t]\<rparr>) else None)"

definition stop_reg_task :: "'t ClientTaskTimer \<Rightarrow> 't ClientTaskTimer" where
  "stop_reg_task tm = tm\<lparr>reg_stopped_flag := True\<rparr>"

datatype 'a poll = Ready 'a | Pending

text \<open>\<open>WaitRegTaskFuture::poll\<close>.\<close>

definition wait_reg_poll ::
  "('c, 't) ClientTask \<Rightarrow> u64 \<Rightarrow> 't ClientTaskTimer
   \<Rightarrow> 't ClientTaskTimer \<times> (unit, unit) result poll" where
  "wait_reg_poll T target_seq tm =
    (if processed_seq tm \<ge> target_seq then (tm, Ready (Ok ()))
     else if reg_stopped_flag tm then (tm, Ready (Err ()))
     else (let (tm', got) = poll_sent_task T tm
           in if got \<and> processed_seq tm' \<ge> target_seq then (tm', Ready (Ok ()))
              else (tm', Pending)))"

fun remove_from_batches ::
  "u64 \<Rightarrow> (u64, 't) btree list \<Rightarrow> (u64, 't) btree list \<times> 't option" where
  "remove_from_batches seq [] = ([], None)"
| "remove_from_batches seq (b # bs) = (case bt_remove seq b of
     (b', Some t) \<Rightarrow> (b' # bs, Some t)
   | (_, None) \<Rightarrow> (let (bs', r) = remove_from_batches seq bs in (b # bs', r)))"

definition find_task :: "u64 \<Rightarrow> 't ClientTaskTimer \<Rightarrow> 't ClientTaskTimer \<times> 't option" where
  "find_task seq tm = (case bt_remove seq (sent_tasks tm) of
     (m', Some t) \<Rightarrow> (tm\<lparr>sent_tasks := m'\<rparr>, Some t)
   | (_, None) \<Rightarrow> (let (q', r) = remove_from_batches seq (delay_tasks_queue tm)
                  in (tm\<lparr>delay_tasks_queue := q'\<rparr>, r)))"

text \<open>
  \<open>take_task\<close>: its first poll, and the polls after it has waited for the task to be
  registered, which do not repeat the first check.
\<close>

definition take_task_resume ::
  "('c, 't) ClientTask \<Rightarrow> u64 \<Rightarrow> 't ClientTaskTimer \<Rightarrow> 't ClientTaskTimer \<times> 't option poll" where
  "take_task_resume T seq tm = (case wait_reg_poll T seq tm of
     (tm', Pending) \<Rightarrow> (tm', Pending)
   | (tm', Ready (Err _)) \<Rightarrow> (tm', Ready None)
   | (tm', Ready (Ok _)) \<Rightarrow> (let (tm'', r) = find_task seq tm' in (tm'', Ready r)))"

definition take_task ::
  "('c, 't) ClientTask \<Rightarrow> u64 \<Rightarrow> 't ClientTaskTimer \<Rightarrow> 't ClientTaskTimer \<times> 't option poll" where
  "take_task T seq tm =
    (if seq < min_delay_seq tm then (tm, Ready None)
     else if seq > processed_seq tm then take_task_resume T seq tm
     else (let (tm', r) = find_task seq tm in (tm', Ready r)))"

text \<open>The loop over an expired batch: the least sequence number and the reported tasks.\<close>

fun expire_loop :: "('c, 't) ClientTask \<Rightarrow> u64 \<Rightarrow> (u64, 't) btree \<Rightarrow> u64 \<times> 't list" where
  "expire_loop T min_seq [] = (min_seq, [])"
| "expire_loop T min_seq ((_, t) # m) =
    (let seq = task_seq T t;
         min_seq' = (if min_seq = 0 \<or> min_seq > seq then seq else min_seq);
         (r, out) = expire_loop T min_seq' m
     in (r, set_rpc_error T Timeout t # out))"

definition adjust_task_queue ::
  "('c, 't) ClientTask \<Rightarrow> 't ClientTaskTimer \<Rightarrow> 't ClientTaskTimer \<times> 't list" where
  "adjust_task_queue T tm =
    (let queue = sent_tasks tm # delay_tasks_queue tm
     in if length queue > task_timeout tm then
          (let real_timeout = last queue;
               tm1 = tm\<lparr>sent_tasks := [], delay_tasks_queue := butlast queue\<rparr>
           in if real_timeout \<noteq> [] then
                (let (min_seq, out) = expire_loop T 0 real_timeout
                 in (tm1\<lparr>min_delay_seq := min_seq\<rparr>, out))
              else (tm1, []))
        else (tm\<lparr>sent_tasks := [], delay_tasks_queue := queue\<rparr>, []))"

section \<open>The timeline\<close>

definition batch_tasks :: "(u64, 't) btree list \<Rightarrow> 't list" where
  "batch_tasks q = concat (map (map snd) (rev q))"

definition timeline :: "'t ClientTaskTimer \<Rightarrow> 't list" where
  "timeline tm = batch_tasks (delay_tasks_queue tm) @ map snd (sent_tasks tm) @ pending_tasks tm"

definition keyed :: "('c, 't) ClientTask \<Rightarrow> (u64, 't) btree \<Rightarrow> bool" where
  "keyed T m \<longleftrightarrow> (\<forall>(k, t) \<in> set m. k = task_seq T t)"

text \<open>
  The invariant: sequence numbers grow along the timeline, everything up to
  \<open>processed_seq\<close> has left the channel, and everything waiting is newer than
  \<open>min_delay_seq\<close>.
\<close>

definition timer_inv :: "('c, 't) ClientTask \<Rightarrow> 't ClientTaskTimer \<Rightarrow> bool" where
  "timer_inv T tm \<longleftrightarrow>
     sorted_wrt (<) (map (task_seq T) (timeline tm))
   \<and> keyed T (sent_tasks tm) \<and> (\<forall>b \<in> set (delay_tasks_queue tm). keyed T b)
   \<and> (\<forall>t \<in> set (batch_tasks (delay_tasks_queue tm) @ map snd (sent_tasks tm)).
        task_seq T t \<le> processed_seq tm)
   \<and> (\<forall>t \<in> set (pending_tasks tm). processed_seq tm < task_seq T t)
   \<and> (\<forall>t \<in> set (timeline tm). min_delay_seq tm < task_seq T t)
   \<and> min_delay_seq tm \<le> processed_seq tm
   \<and> length (delay_tasks_queue tm) \<le> task_timeout tm"

section \<open>Lemmas: draining the channel\<close>

lemma bt_insert_last: "(\<forall>x \<in> set m. fst x < k) \<Longrightarrow> bt_insert k v m = m @ [(k, v)]"
  by (induction k v m rule: bt_insert.induct) (auto simp: not_less_iff_gr_or_eq)

lemma keyed_append [simp]: "keyed T (m @ m') \<longleftrightarrow> keyed T m \<and> keyed T m'"
  by (auto simp: keyed_def)

lemma keyed_fst: "keyed T m \<Longrightarrow> map fst m = map (task_seq T) (map snd m)"
  by (auto simp: keyed_def)

lemma keyed_bt_invar: "keyed T m \<Longrightarrow> bt_invar m \<longleftrightarrow> sorted_wrt (<) (map (task_seq T) (map snd m))"
  by (simp add: bt_invar_def keyed_fst del: map_map)

lemma timer_inv_step_recv:
  assumes inv: "timer_inv T tm" and p: "pending_tasks tm = t # ts"
  shows "timer_inv T (got_pending_task T t (tm\<lparr>pending_tasks := ts\<rparr>))"
    and "sent_tasks (got_pending_task T t (tm\<lparr>pending_tasks := ts\<rparr>)) = sent_tasks tm @ [(task_seq T t, t)]"
proof -
  have "\<forall>x \<in> set (sent_tasks tm). fst x < task_seq T t"
  proof
    fix x assume x: "x \<in> set (sent_tasks tm)"
    then have "fst x = task_seq T (snd x)" using inv by (auto simp: timer_inv_def keyed_def)
    also have "\<dots> \<le> processed_seq tm" using inv x by (auto simp: timer_inv_def)
    also have "\<dots> < task_seq T t" using inv p by (auto simp: timer_inv_def)
    finally show "fst x < task_seq T t" .
  qed
  then show s: "sent_tasks (got_pending_task T t (tm\<lparr>pending_tasks := ts\<rparr>))
      = sent_tasks tm @ [(task_seq T t, t)]"
    by (simp add: got_pending_task_def bt_insert_last)
  have lt: "processed_seq tm < task_seq T t" using inv p by (auto simp: timer_inv_def)
  have tl: "timeline (got_pending_task T t (tm\<lparr>pending_tasks := ts\<rparr>)) = timeline tm"
    using s p by (simp add: timeline_def got_pending_task_def)
  have "sorted_wrt (<) (map (task_seq T) (t # ts))"
    using inv p by (auto simp: timer_inv_def timeline_def sorted_wrt_append)
  moreover have "\<forall>x \<in> set (batch_tasks (delay_tasks_queue tm) @ map snd (sent_tasks tm)).
      task_seq T x \<le> task_seq T t"
  proof
    fix x assume "x \<in> set (batch_tasks (delay_tasks_queue tm) @ map snd (sent_tasks tm))"
    then have "task_seq T x \<le> processed_seq tm" using inv unfolding timer_inv_def by blast
    with lt show "task_seq T x \<le> task_seq T t" by simp
  qed
  ultimately show "timer_inv T (got_pending_task T t (tm\<lparr>pending_tasks := ts\<rparr>))"
    using inv p lt s tl
    by (auto simp: timer_inv_def keyed_def got_pending_task_def)
qed

lemma recv_all_spec:
  assumes "timer_inv T tm" and "pending_tasks tm = ts"
  shows "timer_inv T (recv_all T ts tm)
    \<and> timeline (recv_all T ts tm) = timeline tm
    \<and> pending_tasks (recv_all T ts tm) = []
    \<and> sent_tasks (recv_all T ts tm) = sent_tasks tm @ map (\<lambda>t. (task_seq T t, t)) ts
    \<and> delay_tasks_queue (recv_all T ts tm) = delay_tasks_queue tm
    \<and> min_delay_seq (recv_all T ts tm) = min_delay_seq tm
    \<and> task_timeout (recv_all T ts tm) = task_timeout tm
    \<and> pending_cap (recv_all T ts tm) = pending_cap tm
    \<and> reg_stopped_flag (recv_all T ts tm) = reg_stopped_flag tm
    \<and> pending_task_count (recv_all T ts tm) = pending_task_count tm - of_nat (length ts)
    \<and> processed_seq (recv_all T ts tm) = (if ts = [] then processed_seq tm else task_seq T (last ts))"
  using assms
proof (induction ts arbitrary: tm)
  case Nil
  then have e: "recv_all T [] tm = tm" by simp
  show ?case unfolding e using Nil by simp
next
  case (Cons t ts)
  let ?tm = "got_pending_task T t (tm\<lparr>pending_tasks := ts\<rparr>)"
  have s: "sent_tasks ?tm = sent_tasks tm @ [(task_seq T t, t)]"
    using Cons.prems by (rule timer_inv_step_recv(2))
  have q: "delay_tasks_queue ?tm = delay_tasks_queue tm" "pending_tasks ?tm = ts"
      "min_delay_seq ?tm = min_delay_seq tm" "task_timeout ?tm = task_timeout tm"
      "pending_cap ?tm = pending_cap tm" "reg_stopped_flag ?tm = reg_stopped_flag tm"
      "processed_seq ?tm = task_seq T t" "pending_task_count ?tm = pending_task_count tm - 1"
    by (simp_all add: got_pending_task_def)
  have "timeline ?tm = timeline tm" using Cons.prems s q by (simp add: timeline_def)
  moreover have "timer_inv T ?tm" using Cons.prems by (rule timer_inv_step_recv(1))
  ultimately show ?case using Cons.IH [of ?tm] s q by (cases ts) simp_all
qed

lemmas recv_all_facts = recv_all_spec [OF _ refl]

lemma poll_sent_task_spec:
  assumes "timer_inv T tm"
  shows "timer_inv T (fst (poll_sent_task T tm)) \<and> timeline (fst (poll_sent_task T tm)) = timeline tm
    \<and> pending_tasks (fst (poll_sent_task T tm)) = []"
  using recv_all_facts [OF assms] by (simp add: poll_sent_task_def)

section \<open>Lemmas: cleaning\<close>

lemma clean_keys_all:
  "clean_keys T (map fst m) m = Returns ([], map (set_rpc_error T IO) (map snd m))"
  by (induction m) auto

lemma clean_batches_all:
  "clean_batches T q = Returns (map (\<lambda>_. []) q, map (set_rpc_error T IO) (concat (map (map snd) q)))"
  by (induction q) (auto simp: clean_keys_all)

lemma mset_batch_tasks: "mset (batch_tasks q) = mset (concat (map (map snd) q))"
  by (induction q) (auto simp: batch_tasks_def)

lemma clean_pending_tasks_eq:
  assumes "timer_inv T tm"
  shows "clean_pending_tasks T tm = Returns
    ((recv_all T (pending_tasks tm) tm)\<lparr>sent_tasks := [],
        delay_tasks_queue := map (\<lambda>_. []) (delay_tasks_queue tm)\<rparr>,
     map (set_rpc_error T IO) (map snd (sent_tasks tm) @ pending_tasks tm
        @ concat (map (map snd) (delay_tasks_queue tm))))"
  using recv_all_facts [OF assms]
  by (simp add: clean_pending_tasks_def Let_def clean_keys_all clean_batches_all comp_def)

lemma batch_tasks_cleared [simp]: "batch_tasks (map (\<lambda>_. []) q) = []"
  by (simp add: batch_tasks_def)

lemma clean_spec:
  assumes "timer_inv T tm"
  obtains tm' out where "clean_pending_tasks T tm = Returns (tm', map (set_rpc_error T IO) out)"
    and "mset out = mset (timeline tm)" and "timeline tm' = []" and "timer_inv T tm'"
    and "pending_task_count tm' = pending_task_count tm - of_nat (length (pending_tasks tm))"
    and "pending_tasks tm' = []" and "pending_cap tm' = pending_cap tm"
    and "processed_seq tm' = processed_seq (recv_all T (pending_tasks tm) tm)"
proof -
  let ?tm = "recv_all T (pending_tasks tm) tm"
  let ?tm' = "?tm\<lparr>sent_tasks := [], delay_tasks_queue := map (\<lambda>_. []) (delay_tasks_queue tm)\<rparr>"
  let ?out = "map snd (sent_tasks tm) @ pending_tasks tm @ concat (map (map snd) (delay_tasks_queue tm))"
  have inv: "timer_inv T ?tm" and p: "pending_tasks ?tm = []" "pending_cap ?tm = pending_cap tm"
    and c: "pending_task_count ?tm = pending_task_count tm - of_nat (length (pending_tasks tm))"
    and q: "delay_tasks_queue ?tm = delay_tasks_queue tm"
    using recv_all_facts [OF assms] by blast+
  have tl: "timeline ?tm' = []" by (simp add: timeline_def p)
  have "timer_inv T ?tm'"
    using inv p q unfolding timer_inv_def tl by (simp add: keyed_def)
  moreover have "mset ?out = mset (timeline tm)"
    by (simp add: timeline_def mset_batch_tasks)
  ultimately show thesis
    using clean_pending_tasks_eq [OF assms] tl c p by (intro that [of ?tm' ?out]) simp_all
qed

section \<open>Lemmas: taking a task\<close>

text \<open>On the timeline, a task is looked up and removed by its sequence number.\<close>

abbreviation task_with :: "('c, 't) ClientTask \<Rightarrow> u64 \<Rightarrow> 't list \<Rightarrow> 't option" where
  "task_with T seq \<equiv> find (\<lambda>t. task_seq T t = seq)"

abbreviation without :: "('c, 't) ClientTask \<Rightarrow> u64 \<Rightarrow> 't list \<Rightarrow> 't list" where
  "without T seq \<equiv> filter (\<lambda>t. task_seq T t \<noteq> seq)"

lemma find_append: "find P (xs @ ys) = (case find P xs of Some x \<Rightarrow> Some x | None \<Rightarrow> find P ys)"
  by (induction xs) auto

lemma without_absent: "task_with T k xs = None \<Longrightarrow> without T k xs = xs"
  by (auto simp: find_None_iff filter_id_conv)

lemma find_seq_cases:
  assumes "distinct (map (task_seq T) (xs @ ys))" "task_with T k ys = Some t"
  shows "task_with T k xs = None"
proof -
  have "k \<in> task_seq T ` set ys" using assms(2) by (auto simp: find_Some_iff)
  then have "k \<notin> task_seq T ` set xs" using assms(1) by auto
  then show ?thesis by (auto simp: find_None_iff)
qed

lemma bt_remove_tasks:
  assumes "keyed T m" "distinct (map fst m)"
  shows "map snd (fst (bt_remove k m)) = without T k (map snd m)
    \<and> keyed T (fst (bt_remove k m)) \<and> snd (bt_remove k m) = task_with T k (map snd m)"
  using assms
proof (induction m)
  case (Cons x m)
  obtain k' t where x: "x = (k', t)" by force
  have IH: "map snd (fst (bt_remove k m)) = without T k (map snd m)"
      "keyed T (fst (bt_remove k m))" "snd (bt_remove k m) = task_with T k (map snd m)"
    and t: "task_seq T t = k'" and d: "k' \<notin> fst ` set m"
    using Cons by (auto simp: keyed_def x)
  have "k' \<notin> task_seq T ` set (map snd m)"
    using d Cons.prems(1) by (force simp: keyed_def x)
  then have "k = k' \<Longrightarrow> without T k (map snd m) = map snd m"
    by (auto simp: filter_id_conv)
  then show ?case using IH t Cons.prems(1)
    by (auto simp: x keyed_def split: prod.splits)
qed (simp add: keyed_def)

lemma batch_tasks_Cons: "batch_tasks (b # q) = batch_tasks q @ map snd b"
  by (simp add: batch_tasks_def)

lemma keyed_distinct: "keyed T m \<Longrightarrow> distinct (map (task_seq T) (map snd m)) \<Longrightarrow> distinct (map fst m)"
  by (simp only: keyed_fst)

lemma remove_from_batches_tasks:
  assumes "\<forall>b \<in> set q. keyed T b" "distinct (map (task_seq T) (batch_tasks q))"
  shows "batch_tasks (fst (remove_from_batches k q)) = without T k (batch_tasks q)
    \<and> (\<forall>b \<in> set (fst (remove_from_batches k q)). keyed T b)
    \<and> length (fst (remove_from_batches k q)) = length q
    \<and> snd (remove_from_batches k q) = task_with T k (batch_tasks q)"
  using assms
proof (induction q)
  case (Cons b q)
  have k: "keyed T b" and d: "distinct (map fst b)"
    using Cons.prems by (auto simp: batch_tasks_Cons intro: keyed_distinct)
  note r = bt_remove_tasks [OF k d]
  note IH = Cons.IH
  show ?case
  proof (cases "task_with T k (map snd b)")
    case None
    then have "fst (bt_remove k b) = b" "snd (bt_remove k b) = None"
      using r by (simp_all add: bt_remove_None)
    then show ?thesis using IH Cons.prems None
      by (auto simp: batch_tasks_Cons find_append without_absent split: prod.splits option.splits)
  next
    case (Some t)
    then have "task_with T k (batch_tasks q) = None"
      using Cons.prems(2) unfolding batch_tasks_Cons by (rule find_seq_cases [rotated])
    then show ?thesis using r [of k] Some Cons.prems
      by (auto simp: batch_tasks_Cons find_append without_absent split: prod.splits)
  qed
qed (simp add: batch_tasks_def)

lemma timer_inv_distinct: "timer_inv T tm \<Longrightarrow> distinct (map (task_seq T) (timeline tm))"
  by (simp add: timer_inv_def strict_sorted_iff)

lemma timer_inv_without:
  assumes inv: "timer_inv T tm"
    and "batch_tasks (delay_tasks_queue tm') = without T k (batch_tasks (delay_tasks_queue tm))"
    and "map snd (sent_tasks tm') = without T k (map snd (sent_tasks tm))"
    and "pending_tasks tm' = without T k (pending_tasks tm)"
    and "keyed T (sent_tasks tm')" "\<forall>b \<in> set (delay_tasks_queue tm'). keyed T b"
    and "length (delay_tasks_queue tm') = length (delay_tasks_queue tm)"
    and "processed_seq tm' = processed_seq tm" "min_delay_seq tm' = min_delay_seq tm"
    and "task_timeout tm' = task_timeout tm"
  shows "timeline tm' = without T k (timeline tm) \<and> timer_inv T tm'"
proof -
  have tl: "timeline tm' = without T k (timeline tm)"
    using assms by (simp add: timeline_def)
  have parts: "batch_tasks (delay_tasks_queue tm') @ map snd (sent_tasks tm')
      = without T k (batch_tasks (delay_tasks_queue tm) @ map snd (sent_tasks tm))"
    using assms by simp
  have "sorted_wrt (<) (map (task_seq T) (without T k (timeline tm)))"
    using inv unfolding sorted_wrt_map by (auto simp: timer_inv_def sorted_wrt_map intro: sorted_wrt_filter)
  then show ?thesis
    using inv assms(4-) unfolding timer_inv_def tl parts by (simp only: set_filter) auto
qed

lemma find_task_spec:
  assumes inv: "timer_inv T tm" and new: "task_with T seq (pending_tasks tm) = None"
  shows "timeline (fst (find_task seq tm)) = without T seq (timeline tm)
    \<and> snd (find_task seq tm) = task_with T seq (timeline tm)
    \<and> timer_inv T (fst (find_task seq tm))"
proof -
  have k: "keyed T (sent_tasks tm)" and kq: "\<forall>b \<in> set (delay_tasks_queue tm). keyed T b"
    using inv by (auto simp: timer_inv_def)
  have d: "distinct (map (task_seq T) (batch_tasks (delay_tasks_queue tm) @ map snd (sent_tasks tm)))"
    using timer_inv_distinct [OF inv] by (auto simp: timeline_def)
  note r = bt_remove_tasks [OF k keyed_distinct [OF k]]
  note rq = remove_from_batches_tasks [OF kq]
  have p: "pending_tasks tm = without T seq (pending_tasks tm)"
    by (rule without_absent [OF new, symmetric])
  show ?thesis
  proof (cases "task_with T seq (map snd (sent_tasks tm))")
    case None
    obtain q' res where q: "remove_from_batches seq (delay_tasks_queue tm) = (q', res)" by force
    have f: "find_task seq tm = (tm\<lparr>delay_tasks_queue := q'\<rparr>, res)"
      using r [of seq] d k None q by (auto simp: find_task_def split: prod.splits)
    have "timeline (tm\<lparr>delay_tasks_queue := q'\<rparr>) = without T seq (timeline tm)
        \<and> timer_inv T (tm\<lparr>delay_tasks_queue := q'\<rparr>)"
      using rq [of seq] d q k None without_absent [OF None] p
      by (intro timer_inv_without [OF inv]) auto
    moreover have "task_with T seq (timeline tm) = res"
      using rq [of seq] d q None new by (auto simp: timeline_def find_append split: option.splits)
    ultimately show ?thesis using f by simp
  next
    case (Some t)
    then have n: "task_with T seq (batch_tasks (delay_tasks_queue tm)) = None"
      using d by (rule find_seq_cases [rotated])
    obtain m' where m: "bt_remove seq (sent_tasks tm) = (m', Some t)"
      using r [of seq] d Some by (metis distinct_append map_append surjective_pairing)
    then have f: "find_task seq tm = (tm\<lparr>sent_tasks := m'\<rparr>, Some t)"
      by (simp add: find_task_def)
    have "timeline (tm\<lparr>sent_tasks := m'\<rparr>) = without T seq (timeline tm)
        \<and> timer_inv T (tm\<lparr>sent_tasks := m'\<rparr>)"
      using r [of seq] d m kq without_absent [OF n] p
      by (intro timer_inv_without [OF inv]) auto
    moreover have "task_with T seq (timeline tm) = Some t"
      using n Some by (simp add: timeline_def find_append)
    ultimately show ?thesis using f by simp
  qed
qed

text \<open>The sequence number of the newest task that was ever registered.\<close>

definition newest :: "('c, 't) ClientTask \<Rightarrow> 't ClientTaskTimer \<Rightarrow> u64" where
  "newest T tm = (if pending_tasks tm = [] then processed_seq tm else task_seq T (last (pending_tasks tm)))"

lemma newest_recv_all:
  "timer_inv T tm \<Longrightarrow> processed_seq (recv_all T (pending_tasks tm) tm) = newest T tm"
  by (simp add: recv_all_facts newest_def)

lemma processed_le_newest: "timer_inv T tm \<Longrightarrow> processed_seq tm \<le> newest T tm"
  by (auto simp: timer_inv_def newest_def intro: less_imp_le)

lemma timeline_le_newest:
  assumes "timer_inv T tm" "t \<in> set (timeline tm)"
  shows "task_seq T t \<le> newest T tm"
proof -
  let ?tm = "recv_all T (pending_tasks tm) tm"
  have "t \<in> set (timeline ?tm)" "timer_inv T ?tm" "pending_tasks ?tm = []"
    using recv_all_facts [OF assms(1)] assms(2) by auto
  then have "task_seq T t \<le> processed_seq ?tm" unfolding timer_inv_def timeline_def by auto
  then show ?thesis using newest_recv_all [OF assms(1)] by simp
qed

lemma absent_beyond_newest:
  "timer_inv T tm \<Longrightarrow> newest T tm < seq \<Longrightarrow> task_with T seq (timeline tm) = None"
  using timeline_le_newest by (fastforce simp: find_None_iff)

lemma wait_reg_poll_cases:
  assumes "timer_inv T tm" "processed_seq tm < seq"
  shows "wait_reg_poll T seq tm =
    (if reg_stopped_flag tm then (tm, Ready (Err ()))
     else (recv_all T (pending_tasks tm) tm, if seq \<le> newest T tm then Ready (Ok ()) else Pending))"
  using assms newest_recv_all [OF assms(1)]
  by (auto simp: wait_reg_poll_def poll_sent_task_def newest_def)

lemma take_task_core:
  assumes "timer_inv T tm" and "reg_stopped_flag tm \<longrightarrow> seq \<le> processed_seq tm"
  shows "snd (take_task T seq tm) =
      (case task_with T seq (timeline tm) of
         Some t \<Rightarrow> Ready (Some t)
       | None \<Rightarrow> if seq \<le> newest T tm then Ready None else Pending)
    \<and> timeline (fst (take_task T seq tm)) = without T seq (timeline tm)
    \<and> timer_inv T (fst (take_task T seq tm))"
proof -
  let ?tm = "recv_all T (pending_tasks tm) tm"
  note r = recv_all_facts [OF assms(1)]
  consider (old) "seq < min_delay_seq tm" | (wait) "min_delay_seq tm \<le> seq" "processed_seq tm < seq"
    | (here) "min_delay_seq tm \<le> seq" "seq \<le> processed_seq tm" by fastforce
  then show ?thesis
  proof cases
    case old
    then have none: "task_with T seq (timeline tm) = None" and "seq < processed_seq tm"
      using assms(1) by (fastforce simp: timer_inv_def find_None_iff)+
    with old show ?thesis
      using assms(1) processed_le_newest [OF assms(1)]
      by (simp add: take_task_def without_absent)
  next
    case wait
    then have t: "take_task T seq tm = (if seq \<le> newest T tm
        then (fst (find_task seq ?tm), Ready (snd (find_task seq ?tm))) else (?tm, Pending))"
      using assms(2) leD wait_reg_poll_cases [OF assms(1) wait(2)]
      by (auto simp: take_task_def take_task_resume_def split: prod.splits)
    show ?thesis
    proof (cases "seq \<le> newest T tm")
      case True
      have "task_with T seq (pending_tasks ?tm) = None" using r by simp
      from find_task_spec [OF _ this] True r t show ?thesis
        by (auto split: option.splits)
    next
      case False
      then show ?thesis using r t absent_beyond_newest [OF assms(1), of seq]
        by (simp add: without_absent)
    qed
  next
    case here
    have "task_with T seq (pending_tasks tm) = None"
      using assms(1) here by (fastforce simp: timer_inv_def find_None_iff)
    from find_task_spec [OF assms(1) this] here processed_le_newest [OF assms(1)]
    show ?thesis by (auto simp: take_task_def split: option.splits prod.splits)
  qed
qed

lemma take_task_stopped:
  assumes "timer_inv T tm" "reg_stopped_flag tm" "processed_seq tm < seq"
  shows "take_task T seq tm = (tm, Ready None)"
  using assms wait_reg_poll_cases [OF assms(1,3)] by (simp add: take_task_def take_task_resume_def)

text \<open>
  C11: taking the task a response belongs to. The waiting task with that sequence number is
  found in whichever stage it is, is returned at once and is the only one removed; a
  sequence number that is not waiting gives nothing when something as new has been
  registered, and otherwise the reader keeps waiting for the registration. Once
  registration has stopped, a sequence number beyond what was processed gives nothing and
  changes nothing.
\<close>

theorem take_task_refines:
  assumes "timer_inv T tm"
  shows "if reg_stopped_flag tm \<and> processed_seq tm < seq then take_task T seq tm = (tm, Ready None)
    else snd (take_task T seq tm) =
      (case task_with T seq (timeline tm) of
         Some t \<Rightarrow> Ready (Some t)
       | None \<Rightarrow> if seq \<le> newest T tm then Ready None else Pending)
    \<and> timeline (fst (take_task T seq tm)) = without T seq (timeline tm)
    \<and> timer_inv T (fst (take_task T seq tm))"
proof (cases "reg_stopped_flag tm \<and> processed_seq tm < seq")
  case True
  then show ?thesis using take_task_stopped [OF assms] by simp
next
  case False
  then have "reg_stopped_flag tm \<longrightarrow> seq \<le> processed_seq tm" by auto
  from take_task_core [OF assms this] False show ?thesis by (simp only: if_False)
qed

section \<open>Lemmas: registering and expiring\<close>

lemma reg_task_spec:
  assumes "timer_inv T tm" "newest T tm < task_seq T t" "reg_task t tm = Some tm'"
  shows "timer_inv T tm' \<and> timeline tm' = timeline tm @ [t] \<and> newest T tm' = task_seq T t"
proof -
  have tm': "tm' = tm\<lparr>pending_tasks := pending_tasks tm @ [t]\<rparr>"
    using assms(3) by (auto simp: reg_task_def split: if_splits)
  have lt: "\<forall>x \<in> set (timeline tm). task_seq T x < task_seq T t" "processed_seq tm < task_seq T t"
    "min_delay_seq tm < task_seq T t"
    using timeline_le_newest [OF assms(1)] processed_le_newest [OF assms(1)] assms(1,2)
    by (fastforce simp: timer_inv_def)+
  have tl: "timeline tm' = timeline tm @ [t]" by (simp add: tm' timeline_def)
  then show ?thesis
    using assms(1) lt unfolding timer_inv_def tl
    by (auto simp: tm' sorted_wrt_append newest_def)
qed

lemma expire_loop_out: "snd (expire_loop T mn m) = map (set_rpc_error T Timeout) (map snd m)"
  by (induction T mn m rule: expire_loop.induct) (auto simp: Let_def split: prod.splits)

lemma expire_loop_min:
  "mn \<noteq> 0 \<Longrightarrow> (\<forall>x \<in> set m. mn < task_seq T (snd x)) \<Longrightarrow> fst (expire_loop T mn m) = mn"
  by (induction m) (auto simp: Let_def split: prod.splits)

lemma expire_loop_first:
  assumes "sorted_wrt (<) (map (task_seq T) (map snd m))" "m \<noteq> []"
    and "\<forall>x \<in> set m. task_seq T (snd x) \<noteq> 0"
  shows "fst (expire_loop T 0 m) = task_seq T (snd (hd m))"
  using assms expire_loop_min [of "task_seq T (snd (hd m))" "tl m" T]
  by (cases m) (auto simp: Let_def split: prod.splits)

lemma batch_tasks_last: "q \<noteq> [] \<Longrightarrow> batch_tasks q = map snd (last q) @ batch_tasks (butlast q)"
  by (induction q rule: rev_induct) (simp_all add: batch_tasks_def)

text \<open>The tasks the next tick gives up.\<close>

definition due :: "'t ClientTaskTimer \<Rightarrow> 't list" where
  "due tm = (if length (delay_tasks_queue tm) \<ge> task_timeout tm
     then map snd (last (sent_tasks tm # delay_tasks_queue tm)) else [])"

lemma adjust_due:
  "snd (adjust_task_queue T tm) = map (set_rpc_error T Timeout) (due tm)"
  using expire_loop_out [of T 0 "last (sent_tasks tm # delay_tasks_queue tm)"]
  by (auto simp: adjust_task_queue_def due_def Let_def split: prod.splits)

lemma adjust_timeline:
  "timeline tm = due tm @ timeline (fst (adjust_task_queue T tm))"
  using batch_tasks_last [of "sent_tasks tm # delay_tasks_queue tm"]
  by (auto simp: adjust_task_queue_def due_def timeline_def Let_def batch_tasks_Cons split: prod.splits)

lemma adjust_min_delay:
  assumes "timer_inv T tm"
  shows "min_delay_seq (fst (adjust_task_queue T tm))
    = (if due tm = [] then min_delay_seq tm else task_seq T (hd (due tm)))"
proof (cases "due tm = []")
  case True
  then show ?thesis by (auto simp: adjust_task_queue_def due_def Let_def split: prod.splits if_splits)
next
  case False
  let ?l = "last (sent_tasks tm # delay_tasks_queue tm)"
  have d: "due tm = map snd ?l" "?l \<noteq> []" "length (delay_tasks_queue tm) \<ge> task_timeout tm"
    using False by (auto simp: due_def split: if_splits)
  have "sorted_wrt (<) (map (task_seq T) (due tm))"
    using assms unfolding timer_inv_def adjust_timeline [of tm T] by (simp add: sorted_wrt_append)
  moreover have "task_seq T (snd x) \<noteq> 0" if "x \<in> set ?l" for x
  proof -
    have "snd x \<in> set (timeline tm)" unfolding adjust_timeline [of tm T] using that d(1) by simp
    then have "min_delay_seq tm < task_seq T (snd x)" using assms unfolding timer_inv_def by blast
    then show ?thesis by (metis not_less word_zero_le)
  qed
  ultimately have "fst (expire_loop T 0 ?l) = task_seq T (snd (hd ?l))"
    using d(1,2) by (intro expire_loop_first) simp_all
  then show ?thesis using d False
    by (auto simp: adjust_task_queue_def Let_def hd_map split: prod.splits)
qed

lemma adjust_timer_inv:
  assumes "timer_inv T tm"
  shows "timer_inv T (fst (adjust_task_queue T tm))"
proof -
  let ?q = "sent_tasks tm # delay_tasks_queue tm" and ?tm = "fst (adjust_task_queue T tm)"
  have split: "timeline tm = due tm @ timeline ?tm" by (rule adjust_timeline)
  have sorted: "sorted_wrt (<) (map (task_seq T) (timeline ?tm))"
    using assms unfolding timer_inv_def split by (simp add: sorted_wrt_append)
  have sent: "sent_tasks ?tm = []" "pending_tasks ?tm = pending_tasks tm"
      "processed_seq ?tm = processed_seq tm" "task_timeout ?tm = task_timeout tm"
    by (auto simp: adjust_task_queue_def Let_def split: prod.splits)
  have qset: "set (delay_tasks_queue ?tm) \<subseteq> set ?q"
      "length (delay_tasks_queue ?tm) \<le> task_timeout tm"
    using assms by (auto simp: adjust_task_queue_def timer_inv_def Let_def
        split: prod.splits if_splits dest: in_set_butlastD)
  have "set (batch_tasks (delay_tasks_queue ?tm)) \<subseteq> set (batch_tasks ?q)"
    using qset(1) by (auto simp: batch_tasks_def)
  then have proc: "\<forall>t \<in> set (batch_tasks (delay_tasks_queue ?tm)). task_seq T t \<le> processed_seq tm"
    using assms by (auto simp: timer_inv_def batch_tasks_Cons)
  have due_le: "\<forall>t \<in> set (due tm). task_seq T t \<le> processed_seq tm"
    using assms batch_tasks_last [of ?q] by (auto simp: timer_inv_def due_def batch_tasks_Cons split: if_splits)
  note adjust_min_delay [OF assms]
  then have "(\<forall>t \<in> set (timeline ?tm). min_delay_seq ?tm < task_seq T t) \<and> min_delay_seq ?tm \<le> processed_seq tm"
    using assms due_le unfolding timer_inv_def split
    by (auto simp: sorted_wrt_append dest: hd_in_set)
  moreover have "\<forall>b \<in> set (delay_tasks_queue ?tm). keyed T b"
    using assms qset(1) unfolding timer_inv_def by auto
  moreover have "\<forall>t \<in> set (pending_tasks tm). processed_seq tm < task_seq T t"
    using assms by (simp add: timer_inv_def)
  ultimately show ?thesis
    using sorted sent qset(2) proc unfolding timer_inv_def by (simp add: keyed_def)
qed

section \<open>Runs of the timer\<close>

text \<open>
  The sender registers tasks, the receiver polls, takes tasks as responses arrive and
  ticks every second, in any order. A label carries what the operation returned or reported.
\<close>

datatype 't timer_event =
    EvReg 't
  | EvPoll
  | EvTake u64 "'t option poll"
  | EvTick "'t list"
  | EvStop

inductive timer_step ::
  "('c, 't) ClientTask \<Rightarrow> 't ClientTaskTimer \<Rightarrow> 't timer_event \<Rightarrow> 't ClientTaskTimer \<Rightarrow> bool"
  for T where
  step_reg: "newest T tm < task_seq T t \<Longrightarrow> reg_task t tm = Some tm' \<Longrightarrow> timer_step T tm (EvReg t) tm'"
| step_poll: "poll_sent_task T tm = (tm', got) \<Longrightarrow> timer_step T tm EvPoll tm'"
| step_take: "take_task T seq tm = (tm', r) \<Longrightarrow> timer_step T tm (EvTake seq r) tm'"
| step_tick: "adjust_task_queue T tm = (tm', out) \<Longrightarrow> timer_step T tm (EvTick out) tm'"
| step_stop: "timer_step T tm EvStop (stop_reg_task tm)"

inductive timer_run ::
  "('c, 't) ClientTask \<Rightarrow> 't ClientTaskTimer \<Rightarrow> 't timer_event list \<Rightarrow> 't ClientTaskTimer \<Rightarrow> bool"
  for T where
  run_nil: "timer_run T tm [] tm"
| run_cons: "timer_step T tm e tm' \<Longrightarrow> timer_run T tm' es tm'' \<Longrightarrow> timer_run T tm (e # es) tm''"

inductive_cases step_regE: "timer_step T tm (EvReg t) tm'"
inductive_cases step_pollE: "timer_step T tm EvPoll tm'"
inductive_cases step_takeE: "timer_step T tm (EvTake seq r) tm'"
inductive_cases step_tickE: "timer_step T tm (EvTick out) tm'"
inductive_cases step_stopE: "timer_step T tm EvStop tm'"

primrec registered :: "'t timer_event list \<Rightarrow> 't list" where
  "registered [] = []"
| "registered (e # es) = (case e of EvReg t \<Rightarrow> t # registered es | _ \<Rightarrow> registered es)"

primrec taken :: "'t timer_event list \<Rightarrow> 't list" where
  "taken [] = []"
| "taken (e # es) = (case e of EvTake _ (Ready (Some t)) \<Rightarrow> t # taken es | _ \<Rightarrow> taken es)"

primrec reported :: "'t timer_event list \<Rightarrow> 't list" where
  "reported [] = []"
| "reported (e # es) = (case e of EvTick out \<Rightarrow> out @ reported es | _ \<Rightarrow> reported es)"

primrec ticks :: "'t timer_event list \<Rightarrow> nat" where
  "ticks [] = 0"
| "ticks (e # es) = (case e of EvTick _ \<Rightarrow> Suc (ticks es) | _ \<Rightarrow> ticks es)"

lemma timer_new_inv: "timer_inv T (timer_new timeout thresholds)"
  by (simp add: timer_new_def Let_def timer_inv_def timeline_def batch_tasks_def keyed_def)

lemma timeline_new: "timeline (timer_new timeout thresholds) = []"
  by (simp add: timer_new_def Let_def timeline_def batch_tasks_def)

lemma take_task_spec:
  assumes inv: "timer_inv T tm" and t: "take_task T seq tm = (tm', r)"
  shows "timer_inv T tm' \<and> (case r of
      Ready (Some t) \<Rightarrow> task_with T seq (timeline tm) = Some t \<and> timeline tm' = without T seq (timeline tm)
    | _ \<Rightarrow> timeline tm' = timeline tm)"
proof (cases "reg_stopped_flag tm \<and> processed_seq tm < seq")
  case True
  then have "tm' = tm" "r = Ready None" using take_task_stopped [OF inv] t by simp_all
  then show ?thesis using inv by simp
next
  case False
  then have "reg_stopped_flag tm \<longrightarrow> seq \<le> processed_seq tm" by auto
  from take_task_core [OF inv this] show ?thesis
    by (cases "task_with T seq (timeline tm)") (auto simp: t without_absent)
qed

lemma mset_without:
  assumes "distinct (map (task_seq T) xs)" "task_with T k xs = Some t"
  shows "mset xs = add_mset t (mset (without T k xs))"
  using assms
proof (induction xs)
  case (Cons x xs)
  show ?case
  proof (cases "task_seq T x = k")
    case True
    then have "k \<notin> task_seq T ` set xs" using Cons.prems(1) by auto
    then have "without T k xs = xs" by (auto simp: filter_id_conv)
    with True Cons.prems show ?thesis by simp
  next
    case False
    with Cons show ?thesis by simp
  qed
qed simp

lemma recv_all_timeout [simp]: "task_timeout (recv_all T ts tm) = task_timeout tm"
  by (induction T ts tm rule: recv_all.induct) (simp_all add: got_pending_task_def)

lemma find_task_timeout [simp]: "task_timeout (fst (find_task seq tm)) = task_timeout tm"
  by (auto simp: find_task_def split: prod.splits option.splits)

lemma take_task_timeout [simp]: "task_timeout (fst (take_task T seq tm)) = task_timeout tm"
proof -
  have "task_timeout (fst (wait_reg_poll T seq tm)) = task_timeout tm"
    by (auto simp: wait_reg_poll_def poll_sent_task_def Let_def)
  then have "task_timeout (fst (take_task_resume T seq tm)) = task_timeout tm"
    by (auto simp: take_task_resume_def dest: arg_cong [where f = "task_timeout \<circ> fst"]
        split: prod.splits poll.splits result.splits)
  then show ?thesis
    by (auto simp: take_task_def dest: arg_cong [where f = "task_timeout \<circ> fst"] split: prod.splits)
qed

lemma adjust_timeout [simp]: "task_timeout (fst (adjust_task_queue T tm)) = task_timeout tm"
  by (auto simp: adjust_task_queue_def Let_def split: prod.splits)

lemma timer_step_timeout: "timer_step T tm e tm' \<Longrightarrow> task_timeout tm' = task_timeout tm"
proof (induction rule: timer_step.induct)
  case (step_take seq tm tm' r)
  then show ?case using take_task_timeout [of T seq tm] by simp
next
  case (step_tick tm tm' out)
  then show ?case using adjust_timeout [of T tm] by simp
qed (auto simp: reg_task_def poll_sent_task_def stop_reg_task_def split: if_splits)

text \<open>Every step keeps the invariant and only moves tasks between the books.\<close>

lemma timer_step_timeline:
  assumes "timer_step T tm e tm'" "timer_inv T tm"
  shows "timer_inv T tm'
    \<and> (\<exists>gone. reported [e] = map (set_rpc_error T Timeout) gone
        \<and> mset (timeline tm) + mset (registered [e])
          = mset (taken [e]) + mset gone + mset (timeline tm'))"
  using assms(1)
proof cases
  case (step_reg t)
  then show ?thesis using reg_task_spec [OF assms(2)] by simp
next
  case (step_poll got)
  then show ?thesis using poll_sent_task_spec [OF assms(2)] by simp
next
  case (step_take seq r)
  show ?thesis
  proof (cases "\<exists>t. r = Ready (Some t)")
    case True
    then show ?thesis
      using take_task_spec [OF assms(2) step_take(2)] step_take
        mset_without [OF timer_inv_distinct [OF assms(2)]] by auto
  next
    case False
    then show ?thesis using take_task_spec [OF assms(2) step_take(2)] step_take
      by (cases r; cases "case r of Ready x \<Rightarrow> x | _ \<Rightarrow> None") (auto split: option.splits)
  qed
next
  case (step_tick out)
  have "timer_inv T tm'" "timeline tm = due tm @ timeline tm'"
    "out = map (set_rpc_error T Timeout) (due tm)"
    using adjust_timer_inv [OF assms(2)] adjust_timeline [of tm T] adjust_due [of T tm] step_tick
    by simp_all
  then show ?thesis using step_tick by auto
next
  case step_stop
  then show ?thesis using assms(2)
    by (auto simp: stop_reg_task_def timer_inv_def timeline_def)
qed

lemma books_Cons:
  "registered (e # es) = registered [e] @ registered es" "taken (e # es) = taken [e] @ taken es"
  "reported (e # es) = reported [e] @ reported es"
  by (auto split: timer_event.splits poll.splits option.splits)

lemma timer_run_books:
  assumes "timer_run T tm es tm'" "timer_inv T tm"
  shows "timer_inv T tm' \<and> (\<exists>gone. reported es = map (set_rpc_error T Timeout) gone
    \<and> mset (timeline tm) + mset (registered es) = mset (taken es) + mset gone + mset (timeline tm'))"
  using assms
proof (induction rule: timer_run.induct)
  case (run_cons tm e tm1 es tm2)
  obtain g where g: "timer_inv T tm1" "reported [e] = map (set_rpc_error T Timeout) g"
      "mset (timeline tm) + mset (registered [e]) = mset (taken [e]) + mset g + mset (timeline tm1)"
    using timer_step_timeline [OF run_cons.hyps(1) run_cons.prems] by blast
  obtain g' where g': "timer_inv T tm2" "reported es = map (set_rpc_error T Timeout) g'"
      "mset (timeline tm1) + mset (registered es) = mset (taken es) + mset g' + mset (timeline tm2)"
    using run_cons.IH [OF g(1)] by blast
  have "mset (timeline tm) + mset (registered (e # es))
      = mset (taken (e # es)) + mset (g @ g') + mset (timeline tm2)"
    unfolding books_Cons [of e es] using g(3) g'(3) by (simp add: ac_simps)
  moreover have "reported (e # es) = map (set_rpc_error T Timeout) (g @ g')"
    unfolding books_Cons [of e es] using g g' by simp
  ultimately show ?case using g'(1) by blast
qed simp

section \<open>Lemmas: the age of a waiting task\<close>

text \<open>A task the receiver has seen is in the batch of as many seconds ago as it has waited ticks.\<close>

definition age_is :: "'t \<Rightarrow> nat \<Rightarrow> 't ClientTaskTimer \<Rightarrow> bool" where
  "age_is t i tm \<longleftrightarrow> i < Suc (length (delay_tasks_queue tm))
     \<and> t \<in> snd ` set ((sent_tasks tm # delay_tasks_queue tm) ! i)"

lemma age_timeline: "age_is t i tm \<Longrightarrow> t \<in> set (timeline tm)"
  by (cases i) (auto simp: age_is_def timeline_def batch_tasks_def dest!: nth_mem)

lemma bt_remove_other: "(k', t) \<in> set m \<Longrightarrow> k \<noteq> k' \<Longrightarrow> (k', t) \<in> set (fst (bt_remove k m))"
  by (induction k m rule: bt_remove.induct) (auto split: prod.splits)

lemma bt_remove_keeps:
  assumes "keyed T m" "t \<in> snd ` set m" "task_seq T t \<noteq> k"
  shows "t \<in> snd ` set (fst (bt_remove k m))"
proof -
  have "(task_seq T t, t) \<in> set m" using assms(1,2) by (auto simp: keyed_def)
  then show ?thesis using bt_remove_other [of "task_seq T t" t m k] assms(3) by force
qed

lemma remove_from_batches_keeps:
  assumes "\<forall>b \<in> set q. keyed T b" "i < length q" "t \<in> snd ` set (q ! i)" "task_seq T t \<noteq> k"
  shows "i < length (fst (remove_from_batches k q)) \<and> t \<in> snd ` set (fst (remove_from_batches k q) ! i)"
  using assms
proof (induction q arbitrary: i)
  case (Cons b q)
  show ?case
  proof (cases i)
    case 0
    then show ?thesis using Cons.prems bt_remove_keeps [of T b t k]
      by (auto split: prod.splits option.splits)
  next
    case (Suc j)
    then show ?thesis using Cons.prems Cons.IH [of j]
      by (auto split: prod.splits option.splits)
  qed
qed simp

lemma find_task_age:
  assumes "timer_inv T tm" "age_is t i tm" "task_seq T t \<noteq> seq"
  shows "age_is t i (fst (find_task seq tm))"
proof -
  have k: "keyed T (sent_tasks tm)" "\<forall>b \<in> set (delay_tasks_queue tm). keyed T b"
    using assms(1) by (auto simp: timer_inv_def)
  show ?thesis
  proof (cases i)
    case 0
    then show ?thesis using assms(2,3) bt_remove_keeps [OF k(1), of t seq]
      by (auto simp: age_is_def find_task_def split: prod.splits option.splits)
  next
    case (Suc j)
    then show ?thesis using assms(2,3) remove_from_batches_keeps [OF k(2), of j t seq]
      by (auto simp: age_is_def find_task_def split: prod.splits option.splits)
  qed
qed

lemma recv_all_age: "timer_inv T tm \<Longrightarrow> age_is t i tm \<Longrightarrow> age_is t i (recv_all T (pending_tasks tm) tm)"
  by (cases i) (auto simp: age_is_def recv_all_facts)

lemma take_task_age:
  assumes "timer_inv T tm" "age_is t i tm" "task_seq T t \<noteq> seq"
  shows "age_is t i (fst (take_task T seq tm))"
proof -
  let ?tm = "recv_all T (pending_tasks tm) tm"
  have "timer_inv T ?tm" "age_is t i ?tm"
    using recv_all_facts [OF assms(1)] recv_all_age [OF assms(1,2)] by simp_all
  then have "age_is t i (fst (find_task seq ?tm))" using assms(3) by (rule find_task_age)
  moreover have "age_is t i (fst (find_task seq tm))" using assms by (rule find_task_age)
  ultimately show ?thesis
    using assms(2) \<open>age_is t i ?tm\<close> wait_reg_poll_cases [OF assms(1), of seq]
    by (auto simp: take_task_def take_task_resume_def split: prod.splits)
qed

lemma adjust_age:
  assumes "timer_inv T tm" "age_is t i tm"
  shows "if i < task_timeout tm then age_is t (Suc i) (fst (adjust_task_queue T tm)) else t \<in> set (due tm)"
proof -
  let ?q = "sent_tasks tm # delay_tasks_queue tm"
  have len: "length (delay_tasks_queue tm) \<le> task_timeout tm" using assms(1) by (simp add: timer_inv_def)
  have q: "delay_tasks_queue (fst (adjust_task_queue T tm))
      = (if length ?q > task_timeout tm then butlast ?q else ?q)"
    by (auto simp: adjust_task_queue_def Let_def split: prod.splits)
  show ?thesis
  proof (cases "i < task_timeout tm")
    case True
    then show ?thesis using assms(2) len q by (auto simp: age_is_def nth_butlast less_Suc_eq_le simp del: butlast.simps)
  next
    case False
    then have "i = length ?q - 1" "length (delay_tasks_queue tm) = task_timeout tm"
      using assms(2) len by (auto simp: age_is_def)
    then have "last ?q = ?q ! i" by (metis last_conv_nth list.distinct(1))
    then have "t \<in> snd ` set (last ?q)" using assms(2) by (simp add: age_is_def del: last.simps)
    with False \<open>length (delay_tasks_queue tm) = task_timeout tm\<close> show ?thesis by (simp add: due_def)
  qed
qed

lemma timer_step_age:
  assumes "timer_step T tm e tm'" "timer_inv T tm" "age_is t i tm"
    and "\<forall>r. e \<noteq> EvTake (task_seq T t) r"
  shows "if \<exists>out. e = EvTick out
    then (if i < task_timeout tm then age_is t (Suc i) tm'
          else set_rpc_error T Timeout t \<in> set (reported [e]))
    else age_is t i tm'"
  using assms(1)
proof cases
  case (step_reg u)
  then show ?thesis using assms(3) by (auto simp: reg_task_def age_is_def split: if_splits)
next
  case (step_poll got)
  then show ?thesis using recv_all_age [OF assms(2,3)] by (simp add: poll_sent_task_def)
next
  case (step_take seq r)
  then have "task_seq T t \<noteq> seq" using assms(4) by auto
  from take_task_age [OF assms(2,3) this] step_take show ?thesis by simp
next
  case (step_tick out)
  have "out = map (set_rpc_error T Timeout) (due tm)" using adjust_due [of T tm] step_tick by simp
  then show ?thesis using adjust_age [OF assms(2,3)] step_tick by auto
next
  case step_stop
  then show ?thesis using assms(3) by (simp add: stop_reg_task_def age_is_def)
qed

lemma timer_run_age:
  assumes "timer_run T tm es tm'" "timer_inv T tm" "age_is t i tm"
    and "\<forall>r. EvTake (task_seq T t) r \<notin> set es"
  shows "if i + ticks es \<le> task_timeout tm then age_is t (i + ticks es) tm'
    else set_rpc_error T Timeout t \<in> set (reported es)"
  using assms
proof (induction arbitrary: i rule: timer_run.induct)
  case (run_cons tm e tm1 es tm2)
  have inv: "timer_inv T tm1" and tmo: "task_timeout tm1 = task_timeout tm"
    using timer_step_timeline [OF run_cons.hyps(1) run_cons.prems(1)]
      timer_step_timeout [OF run_cons.hyps(1)] by simp_all
  have st: "if \<exists>out. e = EvTick out then (if i < task_timeout tm then age_is t (Suc i) tm1
          else set_rpc_error T Timeout t \<in> set (reported [e])) else age_is t i tm1"
    using run_cons.prems(3) by (intro timer_step_age [OF run_cons.hyps(1) run_cons.prems(1,2)]) auto
  have IH: "age_is t j tm1 \<Longrightarrow> if j + ticks es \<le> task_timeout tm then age_is t (j + ticks es) tm2
      else set_rpc_error T Timeout t \<in> set (reported es)" for j
    using run_cons.IH [OF inv] run_cons.prems(3) tmo by auto
  show ?case
  proof (cases "\<exists>out. e = EvTick out")
    case True
    then show ?thesis using st IH [of "Suc i"] by (auto split: if_splits)
  next
    case False
    then show ?thesis using st IH [of i] by (cases e) (auto split: if_splits)
  qed
qed (auto simp: age_is_def timer_inv_def)

section \<open>Properties\<close>


text \<open>
  C13: timeouts are exact. A task the receiver has seen that gets no response still waits
  after up to \<open>task_timeout\<close> ticks, and by the next tick it has been reported with
  \<open>Timeout\<close>, whatever is registered, polled or answered in between.
\<close>

theorem timeout_is_exact:
  assumes "timer_inv T tm" and "t \<in> snd ` set (sent_tasks tm)"
    and "timer_run T tm es tm'" and "\<forall>r. EvTake (task_seq T t) r \<notin> set es"
  shows "if ticks es \<le> task_timeout tm then t \<in> set (timeline tm')
    else set_rpc_error T Timeout t \<in> set (reported es)"
proof -
  have "age_is t 0 tm" using assms(2) by (simp add: age_is_def)
  from timer_run_age [OF assms(3,1) this assms(4)] show ?thesis
    by (auto dest: age_timeline split: if_splits)
qed

section \<open>Witnesses\<close>

text \<open>A run of two ticks with a timeout of one second: the task is registered, seen and given up.\<close>

definition demo_run :: "(u64 \<times> RpcIntErr option) timer_event list" where
  "demo_run = [EvReg (1, None), EvPoll, EvTick [], EvTick [(1, Some Timeout)]]"

definition demo_sent :: "(u64 \<times> RpcIntErr option) ClientTaskTimer" where
  "demo_sent = (timer_new 1 4)\<lparr>pending_task_count := - 1, processed_seq := 1, sent_tasks := [(1, (1, None))]\<rparr>"

lemmas demo_simps = timer_new_def Let_def probe_task_def newest_def reg_task_def poll_sent_task_def
  got_pending_task_def adjust_task_queue_def timer_inv_def timeline_def batch_tasks_def keyed_def
  demo_sent_def

lemma demo_tail: "timer_run probe_task demo_sent [EvTick [], EvTick [(1, Some Timeout)]]
  (demo_sent\<lparr>sent_tasks := [], delay_tasks_queue := [[]], min_delay_seq := 1\<rparr>)"
proof (rule run_cons)
  show "timer_step probe_task demo_sent (EvTick [])
      (demo_sent\<lparr>sent_tasks := [], delay_tasks_queue := [[(1, (1, None))]]\<rparr>)"
    by (rule step_tick) (simp add: demo_simps)
  show "timer_run probe_task (demo_sent\<lparr>sent_tasks := [], delay_tasks_queue := [[(1, (1, None))]]\<rparr>)
      [EvTick [(1, Some Timeout)]] (demo_sent\<lparr>sent_tasks := [], delay_tasks_queue := [[]], min_delay_seq := 1\<rparr>)"
    by (rule run_cons [OF step_tick run_nil]) (simp add: demo_simps)
qed

lemma demo_run_ok: "timer_run probe_task (timer_new 1 4) demo_run
  (demo_sent\<lparr>sent_tasks := [], delay_tasks_queue := [[]], min_delay_seq := 1\<rparr>)"
  unfolding demo_run_def
proof (rule run_cons)
  let ?tm = "(timer_new 1 4)\<lparr>pending_tasks := [(1, None)]\<rparr> :: (u64 \<times> RpcIntErr option) ClientTaskTimer"
  show "timer_step probe_task (timer_new 1 4) (EvReg (1, None)) ?tm"
    by (rule step_reg) (simp_all add: demo_simps)
  have "poll_sent_task probe_task ?tm = (demo_sent, True)" by (simp add: demo_simps)
  then show "timer_run probe_task ?tm [EvPoll, EvTick [], EvTick [(1, Some Timeout)]]
      (demo_sent\<lparr>sent_tasks := [], delay_tasks_queue := [[]], min_delay_seq := 1\<rparr>)"
    by (intro run_cons [OF step_poll demo_tail])
qed

theorem take_task_refines_witness:
  "snd (take_task probe_task 1 demo_sent) = Ready (Some (1, None))"
proof -
  have inv: "timer_inv probe_task demo_sent" by (simp add: demo_simps)
  have "\<not> reg_stopped_flag demo_sent" "timeline demo_sent = [(1, None)]" by (simp_all add: demo_simps)
  with take_task_refines [OF inv, of 1] show ?thesis by (simp add: probe_task_def)
qed


theorem timeout_is_exact_witness:
  "set_rpc_error probe_task Timeout (1, None) \<in> set (reported [EvTick [], EvTick [(1, Some Timeout)]])"
proof -
  have inv: "timer_inv probe_task demo_sent" by (simp add: demo_simps)
  have "(1, None) \<in> snd ` set (sent_tasks demo_sent)" "task_timeout demo_sent = 1"
    by (simp_all add: demo_simps)
  with timeout_is_exact [OF inv _ demo_tail] show ?thesis by fastforce
qed

end
