(* ===== verification/Throttler.thy ===== *)
theory Throttler
  imports Prelude
begin

text \<open>
  \<open>Throttler\<close> of \<open>src/stream/src/client/throttler.rs\<close>: a wait group counting the
  guards of the tasks in flight, and a threshold. The wait group is third-party: its
  counter is modelled, and when a waiter is released (\<open>wg_ready left threshold\<close>) is an
  argument.
\<close>

record Throttler =
  wg_left :: nat
  wg_threshold :: nat
  thresholds :: nat

definition throttler_new :: "nat \<Rightarrow> Throttler" where
  "throttler_new n = \<lparr>wg_left = 0, wg_threshold = n, thresholds = n\<rparr>"

definition nearly_full :: "Throttler \<Rightarrow> bool" where
  "nearly_full th \<longleftrightarrow> wg_left th + 1 > thresholds th"

definition is_full :: "Throttler \<Rightarrow> bool" where
  "is_full th \<longleftrightarrow> wg_left th \<ge> thresholds th"

text \<open>Whether \<open>throttle\<close> lets its caller go on.\<close>

definition throttle :: "(nat \<Rightarrow> nat \<Rightarrow> bool) \<Rightarrow> Throttler \<Rightarrow> bool" where
  "throttle wg_ready th \<longleftrightarrow>
    (let target = thresholds th
     in if target > 0 then wg_ready (wg_left th) (wg_threshold th) else True)"

definition add_task :: "Throttler \<Rightarrow> Throttler" where
  "add_task th = th\<lparr>wg_left := wg_left th + 1\<rparr>"

definition set_thresholds :: "nat \<Rightarrow> Throttler \<Rightarrow> Throttler" where
  "set_thresholds n th = th\<lparr>thresholds := n, wg_threshold := n\<rparr>"

definition get_inflight_count :: "Throttler \<Rightarrow> nat" where
  "get_inflight_count th = wg_left th"

text \<open>Dropping \<open>n\<close> guards.\<close>

definition release :: "nat \<Rightarrow> Throttler \<Rightarrow> Throttler" where
  "release n th = th\<lparr>wg_left := wg_left th - n\<rparr>"

lemmas throttler_simps = throttler_new_def add_task_def release_def get_inflight_count_def

text \<open>The two fullness tests agree: the warning comes when the throttler is full, not before.\<close>

lemma nearly_full_is_full: "nearly_full th = is_full th"
  by (auto simp: nearly_full_def is_full_def)

end
