(* ===== verification/Client_Stream.thy ===== *)
theory Client_Stream
  imports Proto Task_Timer Throttler
begin

text \<open>
  \<open>ClientStream\<close> of \<open>src/stream/src/client/stream.rs\<close>: one client connection with its
  sender, which numbers, encodes, writes and registers tasks, and its receiver coroutine,
  which reads responses, ticks the timer every second and cleans up at the end. The
  transport is the record of the methods of \<open>ClientTransport\<close> (\<open>client/mod.rs\<close>), with
  the connection state threaded through. An asynchronous operation is modelled by what one
  poll of it does.

  A task leaves the framework through \<open>facts.error_handle\<close> or \<open>done\<close>: these calls are
  the output of the operations, as a list of \<open>fact\<close>s (\<open>Rpc_Task\<close>).
\<close>

section \<open>Interfaces\<close>

text \<open>
  \<open>read_resp\<close> takes the close channel if there is one (\<open>Some True\<close> once the sender has
  gone), and the timer; its result is \<open>Ok False\<close> when it was aborted by the close channel.
\<close>

record ('c, 't, 'n) ClientTransport =
  close_conn :: "'n \<Rightarrow> 'n"
  tp_flush_req :: "'n \<Rightarrow> 'n \<times> (unit, unit) result"
  write_req :: "bytes \<Rightarrow> bytes option \<Rightarrow> bool \<Rightarrow> 'n \<Rightarrow> 'n \<times> (unit, unit) result"
  read_resp :: "'c \<Rightarrow> bool option \<Rightarrow> 't ClientTaskTimer \<Rightarrow> 'n
    \<Rightarrow> ('t ClientTaskTimer \<times> 'n \<times> 't fact list \<times> (bool, RpcIntErr) result poll) panics"

record ClientConfig =
  cfg_task_timeout :: nat
  cfg_read_timeout :: nat
  cfg_write_timeout :: nat
  cfg_idle_timeout :: nat
  cfg_connect_timeout :: nat
  cfg_thresholds :: nat
  cfg_stream_buf_size :: nat

definition ClientConfig_default :: ClientConfig where
  "ClientConfig_default = \<lparr>cfg_task_timeout = 20, cfg_read_timeout = 5, cfg_write_timeout = 5,
     cfg_idle_timeout = 120, cfg_connect_timeout = 10, cfg_thresholds = 128, cfg_stream_buf_size = 0\<rparr>"

section \<open>State\<close>

text \<open>
  The fields of \<open>ClientStream\<close> and \<open>ClientStreamInner\<close>, and where the coroutines stand:
  the send in progress, the task whose registration waits for room in the channel, the read
  a receiver is waiting in, and the stage of the receive loop.
\<close>

datatype 't sender = Idle | Sending 't bool

datatype receiver = Running | Cleaning | Exited

record ('t, 'n) ClientStream =
  client_id :: u64
  conn :: 'n
  cs_seq :: u64
  close_tx_dropped :: bool
  closed :: bool
  timer :: "'t ClientTaskTimer"
  has_err :: bool
  throttler :: Throttler
  last_resp_ts :: "u64 option"
  encode_buf :: bytes
  sender :: "'t sender"
  reg_wait :: "'t option"
  rx_read :: "bool option"
  rx :: receiver

definition stream_new ::
  "ClientConfig \<Rightarrow> 'n \<Rightarrow> u64 \<Rightarrow> u64 option \<Rightarrow> ('t, 'n) ClientStream" where
  "stream_new config cn cid ts =
    (let thr = (if cfg_thresholds config = 0 then 128 else cfg_thresholds config)
     in \<lparr>client_id = cid, conn = cn, cs_seq = 1, close_tx_dropped = False, closed = False,
         timer = timer_new (cfg_task_timeout config) thr, has_err = False,
         throttler = throttler_new thr, last_resp_ts = ts, encode_buf = [], sender = Idle, reg_wait = None,
         rx_read = None, rx = Running\<rparr>)"

text \<open>The threshold in force: 128 when none is configured.\<close>

definition effective_threshold :: "ClientConfig \<Rightarrow> nat" where
  "effective_threshold config = (if cfg_thresholds config = 0 then 128 else cfg_thresholds config)"

text \<open>\<open>connect\<close>: the transport's own connect, then the stream with its receiver started.\<close>

definition stream_connect ::
  "(rstr \<Rightarrow> ClientConfig \<Rightarrow> ('n, RpcIntErr) result) \<Rightarrow> ClientConfig \<Rightarrow> u64 \<Rightarrow> rstr \<Rightarrow> u64 option
   \<Rightarrow> (('t, 'n) ClientStream, RpcIntErr) result" where
  "stream_connect tp_connect config cid addr ts = (case tp_connect addr config of
     Err e \<Rightarrow> Err e
   | Ok cn \<Rightarrow> Ok (stream_new config cn cid ts))"

section \<open>The sender\<close>

definition seq_update :: "('t, 'n) ClientStream \<Rightarrow> ('t, 'n) ClientStream \<times> u64" where
  "seq_update s = (s\<lparr>cs_seq := cs_seq s + 1\<rparr>, cs_seq s)"

text \<open>The 32 bytes \<open>set_len\<close> exposes: old contents, then memory never written.\<close>

definition head_room :: "('t, 'n) ClientStream \<Rightarrow> bytes" where
  "head_room s = take RPC_REQ_HEADER_LEN (encode_buf s @ replicate RPC_REQ_HEADER_LEN 0)"

definition flush_req ::
  "('c, 't, 'n) ClientTransport \<Rightarrow> ('t, 'n) ClientStream
   \<Rightarrow> ('t, 'n) ClientStream \<times> (unit, RpcIntErr) result" where
  "flush_req P s = (case tp_flush_req P (conn s) of
     (cn, Err _) \<Rightarrow> (s\<lparr>conn := cn, closed := True, has_err := True,
                      timer := stop_reg_task (timer s)\<rparr>, Err IO)
   | (cn, Ok _) \<Rightarrow> (s\<lparr>conn := cn\<rparr>, Ok ()))"

definition send_request ::
  "('c, 't) ClientTask \<Rightarrow> ('c, 't, 'n) ClientTransport \<Rightarrow> 'c \<Rightarrow> 't \<Rightarrow> bool \<Rightarrow> ('t, 'n) ClientStream
   \<Rightarrow> (('t, 'n) ClientStream \<times> 't fact list \<times> (unit, RpcIntErr) result) panics" where
  "send_request T P codec task need_flush s =
    (let (s1, seq) = seq_update s;
         task1 = set_seq T seq task
     in case req_encode T codec (head_room s1) (client_id s1) task1 of
          Panic \<Rightarrow> Panic
        | Returns (buf, Err _) \<Rightarrow> Returns (s1\<lparr>encode_buf := buf\<rparr>, [], Err Encode)
        | Returns (buf, Ok blob_buf) \<Rightarrow>
            (case write_req P buf blob_buf need_flush (conn s1) of
               (cn, Err _) \<Rightarrow>
                 (let tm = timer s1;
                      tm' = stop_reg_task (tm\<lparr>pending_task_count := pending_task_count tm - 1\<rparr>)
                  in Returns (s1\<lparr>encode_buf := buf, conn := cn, closed := True, has_err := True,
                                timer := tm'\<rparr>, [Error_Handle (set_rpc_error T IO task1)], Err IO))
             | (cn, Ok _) \<Rightarrow>
                 (let s2 = s1\<lparr>encode_buf := buf, conn := cn, throttler := add_task (throttler s1)\<rparr>
                  in case reg_task task1 (timer s2) of
                       Some tm' \<Rightarrow> Returns (s2\<lparr>timer := tm'\<rparr>, [], Ok ())
                     | None \<Rightarrow> Returns (s2\<lparr>reg_wait := Some task1\<rparr>, [], Ok ()))))"

text \<open>
  \<open>send_task\<close> in its two atomic parts, between which the receiver may run: counting the
  task and looking at \<open>closed\<close>, and sending the request. \<open>None\<close>: the stream is open and
  the request is to be sent. Waiting in the throttler is the guard of the next call
  (\<open>may_send\<close>), as sends do not overlap.
\<close>

definition send_begin ::
  "('c, 't) ClientTask \<Rightarrow> 't \<Rightarrow> bool \<Rightarrow> ('t, 'n) ClientStream
   \<Rightarrow> ('t, 'n) ClientStream \<times> ('t fact list \<times> (unit, RpcIntErr) result) option" where
  "send_begin T task need_flush s =
    (let need_flush' = (if nearly_full (throttler s) then True else need_flush);
         tm = timer s;
         s1 = s\<lparr>timer := tm\<lparr>pending_task_count := pending_task_count tm + 1\<rparr>\<rparr>
     in if closed s1 then
          (s1\<lparr>timer := (timer s1)\<lparr>pending_task_count := pending_task_count (timer s1) - 1\<rparr>\<rparr>,
           Some ([Error_Handle (set_rpc_error T IO task)], Err IO))
        else (s1\<lparr>sender := Sending task need_flush'\<rparr>, None))"

definition send_finish ::
  "('c, 't) ClientTask \<Rightarrow> ('c, 't, 'n) ClientTransport \<Rightarrow> 'c \<Rightarrow> 't \<Rightarrow> bool \<Rightarrow> ('t, 'n) ClientStream
   \<Rightarrow> (('t, 'n) ClientStream \<times> 't fact list \<times> (unit, RpcIntErr) result) panics" where
  "send_finish T P codec task need_flush s =
    (case send_request T P codec task need_flush (s\<lparr>sender := Idle\<rparr>) of
       Panic \<Rightarrow> Panic
     | Returns (s2, out, Err _) \<Rightarrow> Returns (s2\<lparr>closed := True, has_err := True\<rparr>, out, Err IO)
     | Returns (s2, out, Ok _) \<Rightarrow> Returns (s2, out, Ok ()))"

definition send_task ::
  "('c, 't) ClientTask \<Rightarrow> ('c, 't, 'n) ClientTransport \<Rightarrow> 'c \<Rightarrow> 't \<Rightarrow> bool \<Rightarrow> ('t, 'n) ClientStream
   \<Rightarrow> (('t, 'n) ClientStream \<times> 't fact list \<times> (unit, RpcIntErr) result) panics" where
  "send_task T P codec task need_flush s =
    (case send_begin T task need_flush s of
       (s1, Some (out, r)) \<Rightarrow> Returns (s1, out, r)
     | (s1, None) \<Rightarrow> (case sender s1 of
          Sending t fl \<Rightarrow> send_finish T P codec t fl s1
        | Idle \<Rightarrow> Panic))"

definition may_send :: "(nat \<Rightarrow> nat \<Rightarrow> bool) \<Rightarrow> ('t, 'n) ClientStream \<Rightarrow> bool" where
  "may_send wg_ready s \<longleftrightarrow> sender s = Idle \<and> reg_wait s = None \<and> throttle wg_ready (throttler s)"

definition send_ping_req ::
  "('c, 't, 'n) ClientTransport \<Rightarrow> ('t, 'n) ClientStream
   \<Rightarrow> (('t, 'n) ClientStream \<times> (unit, RpcIntErr) result) panics" where
  "send_ping_req P s =
    (if closed s then Returns (s, Err IO)
     else (let (s1, seq) = seq_update s
           in case encode_ping (head_room s1) (client_id s1) seq of
                Panic \<Rightarrow> Panic
              | Returns buf \<Rightarrow> (case write_req P buf None True (conn s1) of
                   (cn, Err _) \<Rightarrow> Returns (s1\<lparr>encode_buf := buf, conn := cn, closed := True\<rparr>, Err IO)
                 | (cn, Ok _) \<Rightarrow> Returns (s1\<lparr>encode_buf := buf, conn := cn\<rparr>, Ok ()))))"

definition set_error_and_exit ::
  "('c, 't, 'n) ClientTransport \<Rightarrow> ('t, 'n) ClientStream \<Rightarrow> ('t, 'n) ClientStream" where
  "set_error_and_exit P s = s\<lparr>has_err := True, conn := close_conn P (conn s)\<rparr>"

definition will_block :: "('t, 'n) ClientStream \<Rightarrow> bool" where
  "will_block s \<longleftrightarrow> nearly_full (throttler s)"

definition get_last_resp_ts :: "('t, 'n) ClientStream \<Rightarrow> u64" where
  "get_last_resp_ts s = (case last_resp_ts s of Some ts \<Rightarrow> ts | None \<Rightarrow> 0)"

definition stream_drop :: "('t, 'n) ClientStream \<Rightarrow> ('t, 'n) ClientStream" where
  "stream_drop s = s\<lparr>close_tx_dropped := True, timer := stop_reg_task (timer s), closed := True\<rparr>"

section \<open>The receiver\<close>

text \<open>
  One turn of the loop of \<open>recv_one_resp\<close>: it goes on, returns an error, or the read is
  pending, and then the next poll resumes that read. \<open>with_close\<close> tells the two calls of
  \<open>read_resp\<close> apart. The guards of the tasks handed over are dropped.
\<close>

datatype iter = Continue | Return_Err RpcIntErr | Wait

definition read_turn ::
  "('c, 't, 'n) ClientTransport \<Rightarrow> 'c \<Rightarrow> bool \<Rightarrow> ('t, 'n) ClientStream
   \<Rightarrow> (('t, 'n) ClientStream \<times> 't fact list \<times> iter) panics" where
  "read_turn P codec with_close s =
    (case read_resp P codec (if with_close then Some (close_tx_dropped s) else None) (timer s) (conn s) of
       Panic \<Rightarrow> Panic
     | Returns (tm', cn, out, r) \<Rightarrow>
         (let s2 = s\<lparr>timer := tm', conn := cn, throttler := release (length out) (throttler s),
                     rx_read := (case r of Pending \<Rightarrow> Some with_close | _ \<Rightarrow> None)\<rparr>
          in case r of
               Ready (Err _) \<Rightarrow> Returns (if with_close then s2 else s2\<lparr>closed := True\<rparr>, out, Return_Err IO)
             | Ready (Ok b) \<Rightarrow> Returns (if with_close \<and> \<not> b then s2\<lparr>closed := True\<rparr> else s2, out, Continue)
             | Pending \<Rightarrow> Returns (s2, out, Wait)))"

definition recv_iter ::
  "('c, 't) ClientTask \<Rightarrow> ('c, 't, 'n) ClientTransport \<Rightarrow> 'c \<Rightarrow> ('t, 'n) ClientStream
   \<Rightarrow> (('t, 'n) ClientStream \<times> 't fact list \<times> iter) panics" where
  "recv_iter T P codec s = (case rx_read s of
     Some with_close \<Rightarrow> read_turn P codec with_close s
   | None \<Rightarrow>
       if closed s then
         (let (tm, empty) = check_pending_tasks_empty T (timer s);
              s1 = s\<lparr>timer := tm\<rparr>
          in if empty \<or> has_err s1 then Returns (s1, [], Return_Err IO)
             else read_turn P codec False s1)
       else read_turn P codec True s)"

text \<open>
  A poll of \<open>recv_one_resp\<close> and of \<open>recv_some\<close>, which calls it up to twenty times; the
  fuel bounds the turns of the inner loop, \<open>None\<close> when it does not suffice. \<open>now\<close> is
  \<open>facts.get_timestamp\<close>.
\<close>

fun recv_one_resp ::
  "('c, 't) ClientTask \<Rightarrow> ('c, 't, 'n) ClientTransport \<Rightarrow> 'c \<Rightarrow> nat \<Rightarrow> ('t, 'n) ClientStream
   \<Rightarrow> (('t, 'n) ClientStream \<times> 't fact list \<times> (unit, RpcIntErr) result poll) panics option" where
  "recv_one_resp T P codec 0 s = None"
| "recv_one_resp T P codec (Suc n) s = (case recv_iter T P codec s of
     Panic \<Rightarrow> Some Panic
   | Returns (s', out, Return_Err e) \<Rightarrow> Some (Returns (s', out, Ready (Err e)))
   | Returns (s', out, Wait) \<Rightarrow> Some (Returns (s', out, Pending))
   | Returns (s', out, Continue) \<Rightarrow> (case recv_one_resp T P codec n s' of
        Some (Returns (s'', out', r)) \<Rightarrow> Some (Returns (s'', out @ out', r))
      | other \<Rightarrow> other))"

fun recv_some_from ::
  "('c, 't) ClientTask \<Rightarrow> ('c, 't, 'n) ClientTransport \<Rightarrow> 'c \<Rightarrow> u64 \<Rightarrow> nat \<Rightarrow> nat \<Rightarrow> ('t, 'n) ClientStream
   \<Rightarrow> (('t, 'n) ClientStream \<times> 't fact list \<times> (unit, RpcIntErr) result poll) panics option" where
  "recv_some_from T P codec now fuel 0 s = Some (Returns (s, [], Ready (Ok ())))"
| "recv_some_from T P codec now fuel (Suc i) s = (case recv_one_resp T P codec fuel s of
     Some (Returns (s', out, Ready (Ok _))) \<Rightarrow>
       (case recv_some_from T P codec now fuel i (s'\<lparr>last_resp_ts := map_option (\<lambda>_. now) (last_resp_ts s')\<rparr>) of
          Some (Returns (s'', out', r)) \<Rightarrow> Some (Returns (s'', out @ out', r))
        | other \<Rightarrow> other)
   | other \<Rightarrow> other)"

definition recv_some where
  "recv_some T P codec now fuel s = recv_some_from T P codec now fuel 20 s"

text \<open>The tasks a tick gives up release their guards.\<close>

definition time_reach ::
  "('c, 't) ClientTask \<Rightarrow> ('t, 'n) ClientStream \<Rightarrow> ('t, 'n) ClientStream \<times> 't fact list" where
  "time_reach T s = (let (tm, out) = adjust_task_queue T (timer s)
     in (s\<lparr>timer := tm, throttler := release (length out) (throttler s)\<rparr>, map Error_Handle out))"

fun time_reaches ::
  "('c, 't) ClientTask \<Rightarrow> nat \<Rightarrow> ('t, 'n) ClientStream \<Rightarrow> ('t, 'n) ClientStream \<times> 't fact list" where
  "time_reaches T 0 s = (s, [])"
| "time_reaches T (Suc n) s = (let (s', out) = time_reach T s; (s'', out') = time_reaches T n s'
     in (s'', out @ out'))"

text \<open>\<open>ReceiverTimerFuture::poll\<close>, when the interval has \<open>n\<close> ticks due.\<close>

definition receiver_poll ::
  "('c, 't) ClientTask \<Rightarrow> ('c, 't, 'n) ClientTransport \<Rightarrow> 'c \<Rightarrow> u64 \<Rightarrow> nat \<Rightarrow> nat \<Rightarrow> ('t, 'n) ClientStream
   \<Rightarrow> (('t, 'n) ClientStream \<times> 't fact list \<times> (unit, RpcIntErr) result poll) panics option" where
  "receiver_poll T P codec now n fuel s =
    (let (s1, out) = time_reaches T n s
     in if has_err s1 then Some (Returns (s1, out, Ready (Err IO)))
        else (let s2 = s1\<lparr>timer := fst (poll_sent_task T (timer s1))\<rparr>
              in case recv_some T P codec now fuel s2 of
                   Some (Returns (s3, out', r)) \<Rightarrow> Some (Returns (s3, out @ out', r))
                 | other \<Rightarrow> other))"

text \<open>
  The end of \<open>receive_loop\<close>: mark the stream closed, clean, and while the pending count is
  not zero clean again (\<open>cleanup_turn\<close>, once a second).
\<close>

definition clean_timer ::
  "('c, 't) ClientTask \<Rightarrow> ('t, 'n) ClientStream \<Rightarrow> (('t, 'n) ClientStream \<times> 't fact list) panics" where
  "clean_timer T s = (case clean_pending_tasks T (timer s) of
     Panic \<Rightarrow> Panic
   | Returns (tm, out) \<Rightarrow> Returns (s\<lparr>timer := tm, throttler := release (length out) (throttler s)\<rparr>,
                                  map Error_Handle out))"

definition cleanup_check :: "('t, 'n) ClientStream \<Rightarrow> ('t, 'n) ClientStream" where
  "cleanup_check s = s\<lparr>rx := if pending_task_count (timer s) > 0 then Cleaning else Exited\<rparr>"

definition receive_exit ::
  "('c, 't) ClientTask \<Rightarrow> ('t, 'n) ClientStream \<Rightarrow> (('t, 'n) ClientStream \<times> 't fact list) panics" where
  "receive_exit T s = (case clean_timer T (s\<lparr>closed := True\<rparr>) of
     Panic \<Rightarrow> Panic
   | Returns (s', out) \<Rightarrow> Returns (cleanup_check s', out))"

definition cleanup_turn ::
  "('c, 't) ClientTask \<Rightarrow> ('t, 'n) ClientStream \<Rightarrow> (('t, 'n) ClientStream \<times> 't fact list) panics" where
  "cleanup_turn T s = (case clean_timer T s of
     Panic \<Rightarrow> Panic
   | Returns (s', out) \<Rightarrow> Returns (cleanup_check s', out))"

text \<open>A turn of \<open>receive_loop\<close>: a poll of the receiver, and the exit when it returns an error.\<close>

definition receive_loop_turn ::
  "('c, 't) ClientTask \<Rightarrow> ('c, 't, 'n) ClientTransport \<Rightarrow> 'c \<Rightarrow> u64 \<Rightarrow> nat \<Rightarrow> nat \<Rightarrow> ('t, 'n) ClientStream
   \<Rightarrow> (('t, 'n) ClientStream \<times> 't fact list) panics option" where
  "receive_loop_turn T P codec now n fuel s = (case receiver_poll T P codec now n fuel s of
     None \<Rightarrow> None
   | Some Panic \<Rightarrow> Some Panic
   | Some (Returns (s', out, Ready (Err _))) \<Rightarrow> (case receive_exit T s' of
        Panic \<Rightarrow> Some Panic
      | Returns (s'', out') \<Rightarrow> Some (Returns (s'', out @ out')))
   | Some (Returns (s', out, _)) \<Rightarrow> Some (Returns (s', out)))"

text \<open>\<open>Drop for ClientStreamInner\<close> cleans once more.\<close>

definition inner_drop ::
  "('c, 't) ClientTask \<Rightarrow> ('t, 'n) ClientStream \<Rightarrow> (('t, 'n) ClientStream \<times> 't fact list) panics" where
  "inner_drop T s = clean_timer T s"

section \<open>What a step may do to the timer\<close>

abbreviation seqs :: "('c, 't) ClientTask \<Rightarrow> 't list \<Rightarrow> u64 multiset" where
  "seqs T ts \<equiv> mset (map (task_seq T) ts)"

fun taken_list :: "'t option poll \<Rightarrow> 't list" where
  "taken_list (Ready (Some t)) = [t]"
| "taken_list (Ready None) = []"
| "taken_list Pending = []"

text \<open>
  The receiver's operations move tasks out of the timer and drain the channel; nothing is
  lost, and the count follows the channel.
\<close>

definition timer_moves ::
  "('c, 't) ClientTask \<Rightarrow> 't ClientTaskTimer \<Rightarrow> 't list \<Rightarrow> 't ClientTaskTimer \<Rightarrow> bool" where
  "timer_moves T tm out tm' \<longleftrightarrow> timer_inv T tm' \<and> newest T tm' = newest T tm
     \<and> seqs T (timeline tm) = seqs T out + seqs T (timeline tm')
     \<and> length (pending_tasks tm') \<le> length (pending_tasks tm)
     \<and> pending_task_count tm' = pending_task_count tm
         - of_nat (length (pending_tasks tm) - length (pending_tasks tm'))
     \<and> pending_cap tm' = pending_cap tm"

lemma timer_moves_refl: "timer_inv T tm \<Longrightarrow> timer_moves T tm [] tm"
  by (simp add: timer_moves_def)

lemma timer_moves_trans:
  assumes "timer_moves T tm out tm1" "timer_moves T tm1 out' tm2"
  shows "timer_moves T tm (out @ out') tm2"
  using assms by (auto simp: timer_moves_def of_nat_diff)

lemma recv_all_moves:
  assumes "timer_inv T tm"
  shows "timer_moves T tm [] (recv_all T (pending_tasks tm) tm)"
  using recv_all_facts [OF assms] newest_recv_all [OF assms]
  by (auto simp: timer_moves_def newest_def)

lemma poll_sent_task_moves: "timer_inv T tm \<Longrightarrow> timer_moves T tm [] (fst (poll_sent_task T tm))"
  by (simp add: poll_sent_task_def recv_all_moves)

lemma check_empty_moves:
  "timer_inv T tm \<Longrightarrow> timer_moves T tm [] (fst (check_pending_tasks_empty T tm))"
  by (simp add: check_pending_tasks_empty_def Let_def recv_all_moves)

lemma check_empty_iff:
  assumes "timer_inv T tm"
  shows "snd (check_pending_tasks_empty T tm) \<longleftrightarrow> timeline tm = []"
  using recv_all_facts [OF assms]
  by (auto simp: check_pending_tasks_empty_def Let_def timeline_def batch_tasks_def list_all_iff)

lemma find_task_pending:
  "pending_tasks (fst (find_task seq tm)) = pending_tasks tm
   \<and> pending_task_count (fst (find_task seq tm)) = pending_task_count tm
   \<and> pending_cap (fst (find_task seq tm)) = pending_cap tm
   \<and> newest T (fst (find_task seq tm)) = newest T tm
   \<and> reg_stopped_flag (fst (find_task seq tm)) = reg_stopped_flag tm"
  by (auto simp: find_task_def newest_def split: prod.splits option.splits)

lemma find_task_moves:
  assumes "timer_inv T tm" "task_with T seq (pending_tasks tm) = None"
  shows "timer_moves T tm (taken_list (Ready (snd (find_task seq tm)))) (fst (find_task seq tm))"
proof -
  note f = find_task_spec [OF assms]
  have "seqs T (timeline tm) = seqs T (taken_list (Ready (task_with T seq (timeline tm))))
      + seqs T (without T seq (timeline tm))"
  proof (cases "task_with T seq (timeline tm)")
    case None
    then show ?thesis by (simp add: without_absent del: mset_map mset_filter)
  next
    case (Some t)
    from arg_cong [OF mset_without [OF timer_inv_distinct [OF assms(1)] this], of "image_mset (task_seq T)"]
    show ?thesis using Some by (simp del: mset_filter)
  qed
  then show ?thesis using f find_task_pending [of seq tm T] by (simp add: timer_moves_def)
qed

text \<open>Both ways of taking a task, the first poll and the polls after a wait.\<close>

definition takes ::
  "('c, 't) ClientTask \<Rightarrow> u64 \<Rightarrow> 't ClientTaskTimer \<Rightarrow> 't ClientTaskTimer \<times> 't option poll \<Rightarrow> bool" where
  "takes T seq tm r \<longleftrightarrow> r = take_task T seq tm \<or> r = take_task_resume T seq tm"

lemma find_here:
  assumes "timer_inv T tm" "seq \<le> processed_seq tm"
  shows "task_with T seq (pending_tasks tm) = None"
  using assms by (fastforce simp: timer_inv_def find_None_iff)

lemma take_resume_moves:
  assumes "timer_inv T tm"
  shows "timer_moves T tm (taken_list (snd (take_task_resume T seq tm))) (fst (take_task_resume T seq tm))"
proof (cases "processed_seq tm < seq")
  case False
  then have r: "take_task_resume T seq tm = (fst (find_task seq tm), Ready (snd (find_task seq tm)))"
    by (simp add: take_task_resume_def wait_reg_poll_def not_less split: prod.splits)
  show ?thesis using find_task_moves [OF assms find_here [OF assms, of seq]] False
    by (simp add: r not_less)
next
  case True
  let ?tm = "recv_all T (pending_tasks tm) tm"
  have m: "timer_moves T tm [] ?tm" by (rule recv_all_moves [OF assms])
  have i: "timer_inv T ?tm" "task_with T seq (pending_tasks ?tm) = None"
    using recv_all_facts [OF assms] by simp_all
  show ?thesis
    using timer_moves_refl [OF assms] m timer_moves_trans [OF m find_task_moves [OF i]]
      wait_reg_poll_cases [OF assms True]
    by (auto simp: take_task_resume_def split: prod.splits option.splits)
qed

lemma takes_moves:
  assumes "timer_inv T tm" "takes T seq tm (tm', r)"
  shows "timer_moves T tm (taken_list r) tm'"
proof -
  have "timer_moves T tm (taken_list (snd (take_task T seq tm))) (fst (take_task T seq tm))"
    using timer_moves_refl [OF assms(1)] take_resume_moves [OF assms(1), of seq]
      find_task_moves [OF assms(1) find_here [OF assms(1)], of seq]
    by (auto simp: take_task_def not_less split: prod.splits option.splits)
  then show ?thesis using assms(2) take_resume_moves [OF assms(1), of seq]
    unfolding takes_def by (metis fst_conv snd_conv)
qed

lemma adjust_moves:
  assumes laws: "client_task_laws T" and "timer_inv T tm"
  shows "timer_moves T tm (snd (adjust_task_queue T tm)) (fst (adjust_task_queue T tm))"
proof -
  have "map (task_seq T) (snd (adjust_task_queue T tm)) = map (task_seq T) (due tm)"
    by (simp add: adjust_due client_task_laws.seq_set_rpc_error [OF laws])
  then have "seqs T (timeline tm) = seqs T (snd (adjust_task_queue T tm))
      + seqs T (timeline (fst (adjust_task_queue T tm)))"
    by (subst adjust_timeline [of tm T]) (simp add: comp_def flip: mset_map)
  moreover have "pending_tasks (fst (adjust_task_queue T tm)) = pending_tasks tm
      \<and> newest T (fst (adjust_task_queue T tm)) = newest T tm
      \<and> pending_task_count (fst (adjust_task_queue T tm)) = pending_task_count tm
      \<and> pending_cap (fst (adjust_task_queue T tm)) = pending_cap tm"
    by (auto simp: adjust_task_queue_def newest_def Let_def split: prod.splits)
  ultimately show ?thesis using adjust_timer_inv [OF assms(2)] by (simp add: timer_moves_def)
qed

lemma clean_moves:
  assumes laws: "client_task_laws T" and inv: "timer_inv T tm"
  shows "\<exists>tm' out. clean_pending_tasks T tm = Returns (tm', out) \<and> timer_moves T tm out tm'
    \<and> timeline tm' = []"
proof -
  obtain tm' out where c: "clean_pending_tasks T tm = Returns (tm', map (set_rpc_error T IO) out)"
      "mset out = mset (timeline tm)" "timeline tm' = []" "timer_inv T tm'"
      "pending_task_count tm' = pending_task_count tm - of_nat (length (pending_tasks tm))"
      "pending_tasks tm' = []" "pending_cap tm' = pending_cap tm"
      "processed_seq tm' = processed_seq (recv_all T (pending_tasks tm) tm)"
    by (rule clean_spec [OF inv])
  have "newest T tm' = newest T tm"
    using c(6,8) newest_recv_all [OF inv] by (simp add: newest_def)
  moreover have "map (task_seq T) (map (set_rpc_error T IO) out) = map (task_seq T) out"
    by (simp add: client_task_laws.seq_set_rpc_error [OF laws])
  then have "seqs T (map (set_rpc_error T IO) out) = image_mset (task_seq T) (mset (timeline tm))"
    using c(2) by (metis mset_map)
  ultimately have "timer_moves T tm (map (set_rpc_error T IO) out) tm'"
    using c by (simp add: timer_moves_def del: map_map)
  with c show ?thesis by blast
qed

text \<open>
  Where the facts come from: no task enters the timer, and each fact settles a task that waited
  in it.
\<close>

definition facts_from ::
  "('c, 't) ClientTask \<Rightarrow> 't ClientTaskTimer \<Rightarrow> 't fact list \<Rightarrow> 't ClientTaskTimer \<Rightarrow> bool" where
  "facts_from T tm out tm' \<longleftrightarrow> set (timeline tm') \<subseteq> set (timeline tm)
     \<and> (\<forall>f \<in> set out. \<exists>t \<in> set (timeline tm). settles T t f)"

lemma facts_from_refl [simp]: "facts_from T tm [] tm"
  by (simp add: facts_from_def)

lemma facts_from_trans:
  "facts_from T tm out tm1 \<Longrightarrow> facts_from T tm1 out' tm2 \<Longrightarrow> facts_from T tm (out @ out') tm2"
  by (fastforce simp: facts_from_def)

lemma recv_all_facts_from: "timer_inv T tm \<Longrightarrow> facts_from T tm [] (recv_all T (pending_tasks tm) tm)"
  using recv_all_facts [of T tm] by (simp add: facts_from_def)

lemma poll_sent_facts_from: "timer_inv T tm \<Longrightarrow> facts_from T tm [] (fst (poll_sent_task T tm))"
  by (simp add: poll_sent_task_def recv_all_facts_from)

lemma check_empty_facts_from: "timer_inv T tm \<Longrightarrow> facts_from T tm [] (fst (check_pending_tasks_empty T tm))"
  by (simp add: check_pending_tasks_empty_def Let_def recv_all_facts_from)

lemma find_task_subset:
  assumes "timer_inv T tm" "task_with T seq (pending_tasks tm) = None"
  shows "set (timeline (fst (find_task seq tm))) \<subseteq> set (timeline tm)
    \<and> set (taken_list (Ready (snd (find_task seq tm)))) \<subseteq> set (timeline tm)"
  using find_task_spec [OF assms] by (cases "task_with T seq (timeline tm)") (auto simp: find_Some_iff)

lemma take_resume_subset:
  assumes "timer_inv T tm"
  shows "set (timeline (fst (take_task_resume T seq tm))) \<subseteq> set (timeline tm)
    \<and> set (taken_list (snd (take_task_resume T seq tm))) \<subseteq> set (timeline tm)"
proof (cases "processed_seq tm < seq")
  case False
  then show ?thesis using find_task_subset [OF assms find_here [OF assms, of seq]]
    by (cases "find_task seq tm") (simp add: take_task_resume_def wait_reg_poll_def not_less)
next
  case True
  let ?tm = "recv_all T (pending_tasks tm) tm"
  have i: "timer_inv T ?tm" "task_with T seq (pending_tasks ?tm) = None" "set (timeline ?tm) \<subseteq> set (timeline tm)"
    using recv_all_facts [OF assms] by simp_all
  show ?thesis using find_task_subset [OF i(1,2)] i(3) wait_reg_poll_cases [OF assms True]
    by (auto simp: take_task_resume_def split: prod.splits option.splits)
qed

lemma takes_subset:
  assumes "timer_inv T tm" "takes T seq tm (tm', r)"
  shows "set (timeline tm') \<subseteq> set (timeline tm) \<and> set (taken_list r) \<subseteq> set (timeline tm)"
proof -
  have "set (timeline (fst (take_task T seq tm))) \<subseteq> set (timeline tm)
      \<and> set (taken_list (snd (take_task T seq tm))) \<subseteq> set (timeline tm)"
    using take_resume_subset [OF assms(1), of seq] find_task_subset [OF assms(1) find_here [OF assms(1)], of seq]
    by (auto simp: take_task_def not_less split: prod.splits option.splits)
  then show ?thesis using assms(2) take_resume_subset [OF assms(1), of seq]
    unfolding takes_def by (metis fst_conv snd_conv)
qed

lemma adjust_facts_from:
  assumes "client_task_laws T"
  shows "facts_from T tm (map Error_Handle (snd (adjust_task_queue T tm))) (fst (adjust_task_queue T tm))"
  using arg_cong [OF adjust_timeline [of tm T], of set] client_task_laws.worked_settles(2) [OF assms worked_refl]
  by (auto simp: facts_from_def adjust_due)

lemma clean_facts_from:
  assumes "client_task_laws T" "timer_inv T tm" "clean_pending_tasks T tm = Returns (tm', out)"
  shows "facts_from T tm (map Error_Handle out) tm'"
proof -
  obtain tm1 out1 where "clean_pending_tasks T tm = Returns (tm1, map (set_rpc_error T IO) out1)"
      "mset out1 = mset (timeline tm)" "timeline tm1 = []"
    by (rule clean_spec [OF assms(2)])
  then show ?thesis using assms(3) client_task_laws.worked_settles(2) [OF assms(1) worked_refl]
    by (auto simp: facts_from_def dest: mset_eq_setD)
qed

section \<open>The contract of a transport\<close>

text \<open>
  What the stream relies on: a read touches the timer only by taking the task of the
  response it read, and hands over exactly the task it took, with a fact that settles it.
\<close>

locale client_transport = client_task_laws T for T :: "('c, 't) ClientTask" +
  fixes P :: "('c, 't, 'n) ClientTransport"
  assumes read_resp_timer:
    "read_resp P c close tm cn = Returns (tm', cn', out, r) \<Longrightarrow>
       (tm' = tm \<and> out = [])
     \<or> (\<exists>seq res. takes T seq tm (tm', res)
          \<and> list_all2 (settles T) (taken_list res) out)"
begin

lemma read_resp_moves:
  assumes "timer_inv T tm" "read_resp P c close tm cn = Returns (tm', cn', out, r)"
  shows "timer_moves T tm (map fact_task out) tm' \<and> facts_from T tm out tm'"
  using read_resp_timer [OF assms(2)]
proof
  assume "tm' = tm \<and> out = []"
  then show ?thesis using timer_moves_refl [OF assms(1)] by simp
next
  assume "\<exists>seq res. takes T seq tm (tm', res) \<and> list_all2 (settles T) (taken_list res) out"
  then obtain seq res where t: "takes T seq tm (tm', res)" "list_all2 (settles T) (taken_list res) out" by auto
  have "map (task_seq T) (map fact_task out) = map (task_seq T) (taken_list res)"
    using t(2) by (induction rule: list_all2_induct) (auto simp: settles_def)
  then have "timer_moves T tm (map fact_task out) tm'"
    using takes_moves [OF assms(1) t(1)] unfolding timer_moves_def by metis
  moreover have "facts_from T tm out tm'"
    using takes_subset [OF assms(1) t(1)] t(2)
    unfolding facts_from_def by (metis in_set_conv_nth list_all2_conv_all_nth subsetD)
  ultimately show ?thesis by simp
qed

end

section \<open>Lemmas: what the receiver does to the stream\<close>

definition recv_moves ::
  "('c, 't) ClientTask \<Rightarrow> ('t, 'n) ClientStream \<Rightarrow> 't fact list \<Rightarrow> ('t, 'n) ClientStream \<Rightarrow> bool" where
  "recv_moves T s out s' \<longleftrightarrow> timer_moves T (timer s) (map fact_task out) (timer s')
     \<and> facts_from T (timer s) out (timer s') \<and> throttler s' = release (length out) (throttler s)
     \<and> cs_seq s' = cs_seq s \<and> sender s' = sender s \<and> reg_wait s' = reg_wait s \<and> rx s' = rx s
     \<and> client_id s' = client_id s \<and> (closed s \<longrightarrow> closed s')"

lemma release_release [simp]: "release m (release n th) = release (n + m) th"
  by (simp add: release_def)

lemma release_0 [simp]: "release 0 th = th"
  by (simp add: release_def)

lemma recv_moves_refl: "timer_inv T (timer s) \<Longrightarrow> recv_moves T s [] s"
  by (simp add: recv_moves_def timer_moves_refl)

lemma recv_moves_trans:
  "recv_moves T s out s1 \<Longrightarrow> recv_moves T s1 out' s2 \<Longrightarrow> recv_moves T s (out @ out') s2"
  by (auto simp: recv_moves_def intro: timer_moves_trans facts_from_trans)

lemma recv_moves_inv: "recv_moves T s out s' \<Longrightarrow> timer_inv T (timer s')"
  by (simp add: recv_moves_def timer_moves_def)

text \<open>\<open>recv_one_resp\<close> never returns \<open>Ok\<close>, so \<open>recv_some\<close> makes a single call of it.\<close>

lemma recv_one_resp_never_ok:
  "recv_one_resp T P c n s = Some (Returns (s', out, r)) \<Longrightarrow> r \<noteq> Ready (Ok u)"
  by (induction T P c n s arbitrary: s' out rule: recv_one_resp.induct)
     (auto split: panics.splits prod.splits iter.splits option.splits)

lemma recv_some_eq: "recv_some T P c now fuel s = recv_one_resp T P c fuel s"
proof -
  have "recv_some_from T P c now fuel (Suc i) s = recv_one_resp T P c fuel s" for i
    using recv_one_resp_never_ok [of T P c fuel s]
    by (auto split: option.splits panics.splits prod.splits poll.splits result.splits)
  from this [of 19] show ?thesis by (simp add: recv_some_def del: recv_some_from.simps)
qed

lemma time_reach_moves:
  assumes "client_task_laws T" "timer_inv T (timer s)" "time_reach T s = (s', out)"
  shows "recv_moves T s out s'"
  using adjust_moves [OF assms(1,2)] adjust_facts_from [OF assms(1), of "timer s"] assms(3)
  by (auto simp: time_reach_def recv_moves_def comp_def split: prod.splits)

lemma time_reaches_moves:
  assumes "client_task_laws T" "timer_inv T (timer s)" "time_reaches T n s = (s', out)"
  shows "recv_moves T s out s'"
  using assms(2,3)
proof (induction n arbitrary: s out)
  case 0
  then show ?case by (simp add: recv_moves_refl)
next
  case (Suc n)
  obtain s1 o1 o2 where s1: "time_reach T s = (s1, o1)" and s2: "time_reaches T n s1 = (s', o2)"
      "out = o1 @ o2" using Suc.prems(2) by (auto split: prod.splits)
  have m: "recv_moves T s o1 s1" by (rule time_reach_moves [OF assms(1) Suc.prems(1) s1])
  from recv_moves_trans [OF m Suc.IH [OF recv_moves_inv [OF m] s2(1)]] s2(2) show ?case by simp
qed

lemma clean_timer_moves:
  assumes "client_task_laws T" "timer_inv T (timer s)"
  obtains s' out where "clean_timer T s = Returns (s', out)" "recv_moves T s out s'"
    "timeline (timer s') = []" "closed s' = closed s"
proof -
  obtain tm' out where c: "clean_pending_tasks T (timer s) = Returns (tm', out)"
      "timer_moves T (timer s) out tm'" "timeline tm' = []"
    using clean_moves [OF assms] by blast
  show thesis
    by (rule that [of "s\<lparr>timer := tm', throttler := release (length out) (throttler s)\<rparr>" "map Error_Handle out"])
       (use c clean_facts_from [OF assms c(1)] in \<open>simp_all add: clean_timer_def recv_moves_def comp_def\<close>)
qed

context client_transport
begin

lemma read_turn_moves:
  assumes "timer_inv T (timer s)" "read_turn P c w s = Returns (s', out, r)"
  shows "recv_moves T s out s'"
  using assms(2) read_resp_moves [OF assms(1)]
  by (auto simp: read_turn_def recv_moves_def Let_def
      split: panics.splits prod.splits poll.splits result.splits if_splits)

lemma recv_iter_moves:
  assumes "timer_inv T (timer s)" "recv_iter T P c s = Returns (s', out, r)"
  shows "recv_moves T s out s'"
proof -
  let ?s1 = "s\<lparr>timer := fst (check_pending_tasks_empty T (timer s))\<rparr>"
  have m: "recv_moves T s [] ?s1"
    using check_empty_moves [OF assms(1)] check_empty_facts_from [OF assms(1)] by (simp add: recv_moves_def)
  show ?thesis
    using assms read_turn_moves [of s] read_turn_moves [OF recv_moves_inv [OF m], of c False]
      m recv_moves_trans [OF m]
    by (auto simp: recv_iter_def Let_def split: option.splits prod.splits if_splits)
qed

lemma recv_one_resp_moves:
  assumes "timer_inv T (timer s)" "recv_one_resp T P c n s = Some (Returns (s', out, r))"
  shows "recv_moves T s out s'"
  using assms
proof (induction n arbitrary: s out)
  case (Suc n)
  show ?case
  proof (cases "\<exists>s1 o1. recv_iter T P c s = Returns (s1, o1, Continue)")
    case True
    then obtain s1 o1 where i: "recv_iter T P c s = Returns (s1, o1, Continue)" by blast
    then obtain o2 where o2: "recv_one_resp T P c n s1 = Some (Returns (s', o2, r))" "out = o1 @ o2"
      using Suc.prems(2) by (auto split: option.splits panics.splits prod.splits)
    have m: "recv_moves T s o1 s1" by (rule recv_iter_moves [OF Suc.prems(1) i])
    from recv_moves_trans [OF m Suc.IH [OF recv_moves_inv [OF m] o2(1)]] o2(2) show ?thesis by simp
  next
    case False
    then show ?thesis using Suc.prems recv_iter_moves [OF Suc.prems(1)]
      by (auto split: panics.splits prod.splits iter.splits)
  qed
qed simp

lemma receiver_poll_moves:
  assumes "timer_inv T (timer s)" "receiver_poll T P c now n fuel s = Some (Returns (s', out, r))"
  shows "recv_moves T s out s'"
proof -
  obtain s1 o1 where t: "time_reaches T n s = (s1, o1)" by force
  have m: "recv_moves T s o1 s1"
    by (rule time_reaches_moves [OF client_task_laws_axioms assms(1) t])
  let ?s2 = "s1\<lparr>timer := fst (poll_sent_task T (timer s1))\<rparr>"
  have m2: "recv_moves T s1 [] ?s2"
    using poll_sent_task_moves [OF recv_moves_inv [OF m]] poll_sent_facts_from [OF recv_moves_inv [OF m]]
    by (simp add: recv_moves_def)
  show ?thesis
  proof (cases "has_err s1")
    case True
    then show ?thesis using assms(2) m t by (auto simp: receiver_poll_def)
  next
    case False
    then obtain o2 where "recv_one_resp T P c fuel ?s2 = Some (Returns (s', o2, r))" "out = o1 @ o2"
      using assms(2) t
      by (auto simp: receiver_poll_def Let_def recv_some_eq split: option.splits panics.splits prod.splits)
    then show ?thesis
      using recv_moves_trans [OF m recv_moves_trans [OF m2 recv_one_resp_moves [OF recv_moves_inv [OF m2]]]]
      by auto
  qed
qed

end

section \<open>Runs of a stream\<close>

text \<open>
  The sender and the receiver interleave. A label tells which task was turned away, or which
  task was sent, its sequence number and whether the send lost it without reporting
  it, and which tasks were handed over. As in the code, sequence numbers are not expected
  to wrap.
\<close>

datatype 't cs_label =
    Rejected 't "'t fact list"
  | Sent 't u64 bool "'t fact list"
  | Received "'t fact list"
  | Silent

inductive stream_step ::
  "('c, 't) ClientTask \<Rightarrow> ('c, 't, 'n) ClientTransport \<Rightarrow> 'c \<Rightarrow> (nat \<Rightarrow> nat \<Rightarrow> bool)
   \<Rightarrow> ('t, 'n) ClientStream \<Rightarrow> 't cs_label \<Rightarrow> ('t, 'n) ClientStream \<Rightarrow> bool"
  for T P c wg_ready where
  st_reject: "may_send wg_ready s \<Longrightarrow> send_begin T t fl s = (s', Some (out, r))
    \<Longrightarrow> stream_step T P c wg_ready s (Rejected t out) s'"
| st_begin: "may_send wg_ready s \<Longrightarrow> send_begin T t fl s = (s', None)
    \<Longrightarrow> stream_step T P c wg_ready s Silent s'"
| st_finish: "sender s = Sending t fl \<Longrightarrow> cs_seq s \<noteq> - 1 \<Longrightarrow> send_finish T P c t fl s = Returns (s', out, r)
    \<Longrightarrow> stream_step T P c wg_ready s (Sent t (cs_seq s) (r \<noteq> Ok () \<and> out = []) out) s'"
| st_ping: "sender s = Idle \<Longrightarrow> cs_seq s \<noteq> - 1 \<Longrightarrow> send_ping_req P s = Returns (s', r)
    \<Longrightarrow> stream_step T P c wg_ready s Silent s'"
| st_flush: "sender s = Idle \<Longrightarrow> flush_req P s = (s', r) \<Longrightarrow> stream_step T P c wg_ready s Silent s'"
| st_set_error: "sender s = Idle \<Longrightarrow> stream_step T P c wg_ready s Silent (set_error_and_exit P s)"
| st_drop: "sender s = Idle \<Longrightarrow> stream_step T P c wg_ready s Silent (stream_drop s)"
| st_receive: "rx s = Running \<Longrightarrow> receive_loop_turn T P c now n fuel s = Some (Returns (s', out))
    \<Longrightarrow> stream_step T P c wg_ready s (Received out) s'"
| st_clean: "rx s = Cleaning \<Longrightarrow> cleanup_turn T s = Returns (s', out)
    \<Longrightarrow> stream_step T P c wg_ready s (Received out) s'"

inductive stream_run ::
  "('c, 't) ClientTask \<Rightarrow> ('c, 't, 'n) ClientTransport \<Rightarrow> 'c \<Rightarrow> (nat \<Rightarrow> nat \<Rightarrow> bool)
   \<Rightarrow> ('t, 'n) ClientStream \<Rightarrow> 't cs_label list \<Rightarrow> ('t, 'n) ClientStream \<Rightarrow> bool"
  for T P c wg_ready where
  sr_nil: "stream_run T P c wg_ready s [] s"
| sr_snoc: "stream_run T P c wg_ready s ls s' \<Longrightarrow> stream_step T P c wg_ready s' l s''
    \<Longrightarrow> stream_run T P c wg_ready s (ls @ [l]) s''"

text \<open>The books of a run: the numbers sent, those lost, and those handed over.\<close>

fun sent_seqs :: "'t cs_label list \<Rightarrow> u64 list" where
  "sent_seqs [] = []"
| "sent_seqs (Sent _ n _ _ # ls) = n # sent_seqs ls"
| "sent_seqs (_ # ls) = sent_seqs ls"

fun lost_seqs :: "'t cs_label list \<Rightarrow> u64 list" where
  "lost_seqs [] = []"
| "lost_seqs (Sent _ n b _ # ls) = (if b then [n] else []) @ lost_seqs ls"
| "lost_seqs (_ # ls) = lost_seqs ls"

fun settled :: "'t cs_label list \<Rightarrow> 't list" where
  "settled [] = []"
| "settled (Sent _ _ _ out # ls) = map fact_task out @ settled ls"
| "settled (Received out # ls) = map fact_task out @ settled ls"
| "settled (_ # ls) = settled ls"

lemma books_append [simp]:
  "sent_seqs (ls @ ls') = sent_seqs ls @ sent_seqs ls'" "lost_seqs (ls @ ls') = lost_seqs ls @ lost_seqs ls'"
  "settled (ls @ ls') = settled ls @ settled ls'"
  by (induction ls rule: settled.induct) simp_all

text \<open>
  The invariant, with the number of tasks lost so far: the timer is in order and everything
  registered is older than the next number; the pending count is that of the channel, the
  lost tasks and the send in progress; the throttler counts the waiting tasks and leaves
  room in the channel; and the receiver exits only when nothing is left.
\<close>

definition in_progress :: "('t, 'n) ClientStream \<Rightarrow> nat" where
  "in_progress s = (if sender s = Idle then 0 else 1)"

definition counts_ok :: "('c, 't) ClientTask \<Rightarrow> nat \<Rightarrow> ('t, 'n) ClientStream \<Rightarrow> bool" where
  "counts_ok T lost s \<longleftrightarrow> timer_inv T (timer s) \<and> newest T (timer s) < cs_seq s
     \<and> pending_task_count (timer s) = of_nat (length (pending_tasks (timer s)) + (lost + in_progress s))
     \<and> length (pending_tasks (timer s)) + lost + 1 \<le> unat (cs_seq s)"

definition room_ok :: "('t, 'n) ClientStream \<Rightarrow> bool" where
  "room_ok s \<longleftrightarrow> wg_left (throttler s) = length (timeline (timer s))
     \<and> pending_cap (timer s) = 2 * wg_threshold (throttler s)
     \<and> wg_threshold (throttler s) = thresholds (throttler s) \<and> 0 < thresholds (throttler s)
     \<and> reg_wait s = None
     \<and> (sender s \<noteq> Idle \<longrightarrow> wg_left (throttler s) \<le> wg_threshold (throttler s))"

definition modes_ok :: "nat \<Rightarrow> ('t, 'n) ClientStream \<Rightarrow> bool" where
  "modes_ok lost s \<longleftrightarrow> (rx s \<noteq> Running \<longrightarrow> closed s)
     \<and> (rx s = Exited \<longrightarrow> timeline (timer s) = [] \<and> sender s = Idle \<and> lost = 0)"

definition stream_inv :: "('c, 't) ClientTask \<Rightarrow> nat \<Rightarrow> ('t, 'n) ClientStream \<Rightarrow> bool" where
  "stream_inv T lost s \<longleftrightarrow> counts_ok T lost s \<and> room_ok s \<and> modes_ok lost s"

lemma stream_new_inv: "stream_inv T 0 (stream_new config cn cid ts)"
  using timer_new_inv [of T]
  by (simp add: stream_inv_def counts_ok_def room_ok_def modes_ok_def in_progress_def stream_new_def
      Let_def throttler_new_def timeline_new)
     (simp add: timer_new_def newest_def Let_def)

lemma size_moves:
  assumes "timer_moves T tm out tm'"
  shows "length (timeline tm) = length out + length (timeline tm')"
proof -
  have "size (seqs T (timeline tm)) = size (seqs T out + seqs T (timeline tm'))"
    using assms by (simp add: timer_moves_def)
  then show ?thesis by simp
qed

lemma count_after_move:
  fixes p p' k :: nat
  shows "p' \<le> p \<Longrightarrow> c = of_nat (p + k) \<Longrightarrow> c - of_nat (p - p') = (of_nat (p' + k) :: u64)"
  by (simp add: of_nat_diff)

lemma stream_inv_recv_moves:
  assumes inv: "stream_inv T k s" and "recv_moves T s out s'" "rx s \<noteq> Exited"
  shows "stream_inv T k s'"
proof -
  have m: "timer_moves T (timer s) (map fact_task out) (timer s')"
    and e: "throttler s' = release (length out) (throttler s)" "cs_seq s' = cs_seq s"
      "sender s' = sender s" "reg_wait s' = reg_wait s" "rx s' = rx s" "closed s \<longrightarrow> closed s'"
    using assms(2) by (auto simp: recv_moves_def)
  have "pending_task_count (timer s')
      = of_nat (length (pending_tasks (timer s')) + (k + in_progress s))"
    using inv m count_after_move [of "length (pending_tasks (timer s'))" "length (pending_tasks (timer s))"
        "pending_task_count (timer s)" "k + in_progress s"]
    by (simp add: timer_moves_def stream_inv_def counts_ok_def)
  moreover have "timer_inv T (timer s')" "newest T (timer s') = newest T (timer s)"
      "length (pending_tasks (timer s')) \<le> length (pending_tasks (timer s))"
    using m by (simp_all add: timer_moves_def)
  ultimately have "counts_ok T k s'"
    using inv e(2,3) by (simp add: stream_inv_def counts_ok_def in_progress_def)
  moreover have "room_ok s'"
    using inv e(1,3,4) size_moves [OF m] m
    by (auto simp: timer_moves_def stream_inv_def room_ok_def release_def)
  moreover have "modes_ok k s'" using inv e assms(3) by (auto simp: stream_inv_def modes_ok_def)
  ultimately show ?thesis by (simp add: stream_inv_def)
qed

lemma mode_irrelevant [simp]:
  "counts_ok T k (s\<lparr>closed := b\<rparr>) = counts_ok T k s" "room_ok (s\<lparr>closed := b\<rparr>) = room_ok s"
  "counts_ok T k (cleanup_check s) = counts_ok T k s" "room_ok (cleanup_check s) = room_ok s"
  by (simp_all add: counts_ok_def room_ok_def in_progress_def cleanup_check_def)

lemma cleanup_check_rx:
  assumes "stream_inv T k s" "timeline (timer s) = []"
  shows "rx (cleanup_check s) = (if sender s = Idle \<and> k = 0 then Exited else Cleaning)"
proof -
  let ?n = "k + in_progress s"
  have p: "pending_tasks (timer s) = []" using assms(2) by (simp add: timeline_def)
  have c: "pending_task_count (timer s) = of_nat ?n" and "?n \<le> unat (cs_seq s)"
    using p assms(1) by (auto simp: stream_inv_def counts_ok_def in_progress_def)
  moreover have "unat (cs_seq s) < 2 ^ LENGTH(64)" by (rule unsigned_less)
  ultimately have "?n < 2 ^ LENGTH(64)" by simp
  then have "unat (pending_task_count (timer s)) = ?n"
    unfolding c by (simp add: unat_of_nat del: of_nat_add)
  then have "pending_task_count (timer s) > 0 \<longleftrightarrow> ?n \<noteq> 0" by (metis unat_0_iff word_gt_0)
  then show ?thesis by (simp add: cleanup_check_def in_progress_def)
qed

lemma cleanup_check_inv:
  assumes "stream_inv T k s" "timeline (timer s) = []" "closed s"
  shows "stream_inv T k (cleanup_check s)"
proof -
  have "modes_ok k (cleanup_check s)"
    using cleanup_check_rx [OF assms(1,2)] assms(2,3) unfolding modes_ok_def
    by (simp add: cleanup_check_def split: if_splits)
  then show ?thesis using assms(1) by (simp add: stream_inv_def)
qed

section \<open>Lemmas: the sender's steps\<close>

lemma length_head_room [simp]: "length (head_room s) = RPC_REQ_HEADER_LEN"
  by (simp add: head_room_def)

text \<open>What a send comes to, with the task numbered.\<close>

lemma send_request_cases:
  assumes "client_task_laws T" "send_request T P c t fl s = Returns (s', out, r)"
  shows "(\<exists>buf. s' = s\<lparr>cs_seq := cs_seq s + 1, encode_buf := buf\<rparr> \<and> out = [] \<and> r = Err Encode)
   \<or> (\<exists>buf cn. s' = s\<lparr>cs_seq := cs_seq s + 1, encode_buf := buf, conn := cn, closed := True, has_err := True,
          timer := stop_reg_task ((timer s)\<lparr>pending_task_count := pending_task_count (timer s) - 1\<rparr>)\<rparr>
        \<and> out = [Error_Handle (set_rpc_error T IO (set_seq T (cs_seq s) t))] \<and> r = Err IO)
   \<or> (\<exists>buf cn tm. reg_task (set_seq T (cs_seq s) t) (timer s) = Some tm
        \<and> s' = s\<lparr>cs_seq := cs_seq s + 1, encode_buf := buf, conn := cn,
               throttler := add_task (throttler s), timer := tm\<rparr> \<and> out = [] \<and> r = Ok ())
   \<or> reg_task (set_seq T (cs_seq s) t) (timer s) = None"
  using assms(2)
  by (auto simp: send_request_def seq_update_def Let_def
      split: panics.splits prod.splits result.splits option.splits)

lemma unat_Suc_seq:
  assumes "(n :: u64) \<noteq> - 1"
  shows "unat (n + 1) = unat n + 1"
proof -
  have "n < - 1" using assms word_order.not_eq_extremum by blast
  then have "unat n < unat (- 1 :: u64)" by (simp only: word_less_nat_alt)
  then have "unat n + 1 < 2 ^ 64" by (simp add: unsigned_minus_1_eq_mask mask_eq_exp_minus_1)
  then show ?thesis by (simp add: unat_word_ariths)
qed

lemma seq_less_Suc: "(n :: u64) \<noteq> - 1 \<Longrightarrow> n < n + 1"
  by (simp add: word_less_nat_alt unat_Suc_seq)

lemma timer_count_irrelevant [simp]:
  "timer_inv T (tm\<lparr>pending_task_count := n\<rparr>) = timer_inv T tm"
  "timeline (tm\<lparr>pending_task_count := n\<rparr>) = timeline tm"
  "newest T (tm\<lparr>pending_task_count := n\<rparr>) = newest T tm"
  by (simp_all add: timer_inv_def timeline_def newest_def)

lemma stop_reg_irrelevant [simp]:
  "timer_inv T (stop_reg_task tm) = timer_inv T tm" "timeline (stop_reg_task tm) = timeline tm"
  "newest T (stop_reg_task tm) = newest T tm" "pending_tasks (stop_reg_task tm) = pending_tasks tm"
  "pending_task_count (stop_reg_task tm) = pending_task_count tm"
  "pending_cap (stop_reg_task tm) = pending_cap tm"
  by (simp_all add: stop_reg_task_def timer_inv_def timeline_def newest_def)

lemma send_begin_inv:
  assumes inv: "stream_inv T k s" and may: "may_send wg_ready s"
    and wg: "\<forall>l n. wg_ready l n \<longrightarrow> l \<le> n" and b: "send_begin T t fl s = (s', res)"
  shows "stream_inv T k s' \<and> timeline (timer s') = timeline (timer s) \<and> cs_seq s' = cs_seq s"
proof (cases "closed s")
  case True
  then have "timer s' = timer s" "s' = s\<lparr>timer := timer s\<rparr>" using b by (auto simp: send_begin_def Let_def)
  then show ?thesis using inv by simp
next
  case False
  have s': "\<exists>fl'. s' = s\<lparr>timer := (timer s)\<lparr>pending_task_count := pending_task_count (timer s) + 1\<rparr>,
      sender := Sending t fl'\<rparr>"
    using b False by (auto simp: send_begin_def Let_def)
  have "wg_left (throttler s) \<le> wg_threshold (throttler s)" "sender s = Idle"
    using may wg inv by (auto simp: may_send_def throttle_def Let_def stream_inv_def room_ok_def)
  then show ?thesis using s' inv False
    by (auto simp: stream_inv_def counts_ok_def room_ok_def modes_ok_def in_progress_def)
qed

lemma reg_task_fields:
  "reg_task t tm = Some tm' \<Longrightarrow> pending_tasks tm' = pending_tasks tm @ [t]
     \<and> pending_task_count tm' = pending_task_count tm \<and> pending_cap tm' = pending_cap tm"
  by (auto simp: reg_task_def split: if_splits)

text \<open>The throttler leaves room in the channel: registering a sent task never waits.\<close>

lemma reg_task_has_room:
  assumes "room_ok s" "sender s \<noteq> Idle"
  shows "\<exists>tm. reg_task t (timer s) = Some tm"
proof -
  have "length (pending_tasks (timer s)) \<le> wg_left (throttler s)"
    using assms(1) by (simp add: room_ok_def timeline_def)
  with assms show ?thesis by (auto simp: reg_task_def room_ok_def)
qed

text \<open>What finishing a send does to the invariant and the books.\<close>

lemma send_finish_step:
  assumes laws: "client_task_laws T" and inv: "stream_inv T k s" and snd: "sender s = Sending t fl"
    and nowrap: "cs_seq s \<noteq> - 1" and f: "send_finish T P c t fl s = Returns (s', out, r)"
  shows "stream_inv T (if r \<noteq> Ok () \<and> out = [] then Suc k else k) s' \<and> cs_seq s' = cs_seq s + 1
    \<and> add_mset (cs_seq s) (seqs T (timeline (timer s)))
        = seqs T (map fact_task out) + (if r \<noteq> Ok () \<and> out = [] then {#cs_seq s#} else {#})
          + seqs T (timeline (timer s'))"
proof -
  let ?s = "s\<lparr>sender := Idle\<rparr>" and ?t = "set_seq T (cs_seq s) t"
  have seq: "task_seq T ?t = cs_seq s" "task_seq T (set_rpc_error T e ?t) = cs_seq s" for e
    using laws by (simp_all add: client_task_laws.seq_set_seq client_task_laws.seq_set_rpc_error)
  have lt: "newest T (timer s) < cs_seq s" "timer_inv T (timer s)"
    using inv by (simp_all add: stream_inv_def counts_ok_def)
  have le: "newest T (timer s) < cs_seq s + 1" using lt seq_less_Suc [OF nowrap] by simp
  have alive: "rx s \<noteq> Exited" using inv snd by (auto simp: stream_inv_def modes_ok_def)
  obtain tm where tm: "reg_task ?t (timer s) = Some tm"
    using reg_task_has_room [of s] inv snd by (auto simp: stream_inv_def)
  obtain s2 r2 where s2: "send_request T P c t fl ?s = Returns (s2, out, r2)"
    and s': "s' = (if r2 = Ok () then s2 else s2\<lparr>closed := True, has_err := True\<rparr>)"
      "r = (if r2 = Ok () then Ok () else Err IO)"
    using f by (auto simp: send_finish_def split: panics.splits prod.splits result.splits)
  note fields = stream_inv_def counts_ok_def room_ok_def modes_ok_def in_progress_def
  from send_request_cases [OF laws s2] tm consider
      (enc) buf where "s2 = ?s\<lparr>cs_seq := cs_seq s + 1, encode_buf := buf\<rparr>" "out = []" "r2 = Err Encode"
    | (wr) buf cn where "s2 = ?s\<lparr>cs_seq := cs_seq s + 1, encode_buf := buf, conn := cn, closed := True,
          has_err := True, timer := stop_reg_task ((timer s)\<lparr>pending_task_count := pending_task_count (timer s) - 1\<rparr>)\<rparr>"
        "out = [Error_Handle (set_rpc_error T IO ?t)]" "r2 = Err IO"
    | (ok) buf cn where "s2 = ?s\<lparr>cs_seq := cs_seq s + 1, encode_buf := buf, conn := cn,
          throttler := add_task (throttler s), timer := tm\<rparr>" "out = []" "r2 = Ok ()"
    by auto
  then show ?thesis
  proof cases
    case enc
    then show ?thesis using inv snd alive le unat_Suc_seq [OF nowrap]
      by (simp add: s' fields)
  next
    case wr
    then show ?thesis using inv snd alive le unat_Suc_seq [OF nowrap] seq
      by (simp add: s' fields)
  next
    case ok
    have reg: "timer_inv T tm \<and> timeline tm = timeline (timer s) @ [?t] \<and> newest T tm = cs_seq s"
      using reg_task_spec [OF lt(2) _ tm] lt(1) seq(1) by simp
    then show ?thesis using ok inv snd alive unat_Suc_seq [OF nowrap] seq_less_Suc [OF nowrap] seq
        reg_task_fields [OF tm]
      by (simp add: s' fields add_task_def)
  qed
qed

lemma receive_exit_moves:
  assumes laws: "client_task_laws T" and inv: "stream_inv T k s" "rx s \<noteq> Exited" "closed s"
    and "clean_timer T s = Returns (s1, out)"
  shows "stream_inv T k (cleanup_check s1) \<and> cs_seq s1 = cs_seq s \<and> timeline (timer s1) = []
    \<and> seqs T (timeline (timer s)) = seqs T (map fact_task out)"
proof -
  have "timer_inv T (timer s)" using inv(1) by (simp add: stream_inv_def counts_ok_def)
  then obtain s' out' where "clean_timer T s = Returns (s', out')" "recv_moves T s out' s'"
      "timeline (timer s') = []" "closed s' = closed s"
    by (rule clean_timer_moves [OF laws])
  with assms(5) have m: "recv_moves T s out s1" and t: "timeline (timer s1) = []" "closed s1"
    using inv(3) by simp_all
  have "stream_inv T k s1" by (rule stream_inv_recv_moves [OF inv(1) m inv(2)])
  from cleanup_check_inv [OF this t] show ?thesis
    using m t by (simp add: recv_moves_def timer_moves_def)
qed

text \<open>The summary of a step: the invariant, the books, and fresh growing numbers.\<close>

definition step_ok ::
  "('c, 't) ClientTask \<Rightarrow> nat \<Rightarrow> ('t, 'n) ClientStream \<Rightarrow> 't cs_label \<Rightarrow> ('t, 'n) ClientStream \<Rightarrow> bool" where
  "step_ok T k s l s' \<longleftrightarrow> stream_inv T (k + length (lost_seqs [l])) s' \<and> cs_seq s \<le> cs_seq s'
     \<and> (\<forall>n \<in> set (sent_seqs [l]). cs_seq s \<le> n \<and> n < cs_seq s')
     \<and> mset (sent_seqs [l]) + seqs T (timeline (timer s))
        = seqs T (settled [l]) + mset (lost_seqs [l]) + seqs T (timeline (timer s'))"

lemma send_ping_ok:
  assumes "stream_inv T k s" "sender s = Idle" "cs_seq s \<noteq> - 1" "send_ping_req P s = Returns (s', r)"
  shows "step_ok T k s Silent s'"
proof -
  have "newest T (timer s) < cs_seq s + 1"
    using assms(1) order.strict_trans [OF _ seq_less_Suc [OF assms(3)]]
    by (simp add: stream_inv_def counts_ok_def)
  moreover have "\<exists>s1. s' = s \<or> (s' = s1 \<and> timer s1 = timer s \<and> throttler s1 = throttler s
      \<and> sender s1 = sender s \<and> reg_wait s1 = reg_wait s \<and> rx s1 = rx s \<and> cs_seq s1 = cs_seq s + 1
      \<and> (closed s \<longrightarrow> closed s1))"
    using assms(4) by (auto simp: send_ping_req_def seq_update_def Let_def
        split: if_splits panics.splits prod.splits result.splits)
  ultimately show ?thesis using assms(1) unat_Suc_seq [OF assms(3)] seq_less_Suc [OF assms(3)]
    by (auto simp: step_ok_def stream_inv_def counts_ok_def room_ok_def modes_ok_def in_progress_def)
qed

lemma silent_same_timer:
  assumes "stream_inv T k s" "timer s' = timer s \<or> timer s' = stop_reg_task (timer s)"
    "throttler s' = throttler s" "sender s' = sender s" "reg_wait s' = reg_wait s" "rx s' = rx s"
    "cs_seq s' = cs_seq s" "closed s \<longrightarrow> closed s'"
  shows "step_ok T k s Silent s'"
  using assms by (auto simp: step_ok_def stream_inv_def counts_ok_def room_ok_def modes_ok_def in_progress_def)

context client_transport
begin

lemma receive_turn_ok:
  assumes inv: "stream_inv T k s" and run: "rx s = Running"
    and r: "receive_loop_turn T P c now n fuel s = Some (Returns (s', out))"
  shows "step_ok T k s (Received out) s'"
proof -
  obtain s1 o1 res where p: "receiver_poll T P c now n fuel s = Some (Returns (s1, o1, res))"
    using r by (auto simp: receive_loop_turn_def split: option.splits panics.splits prod.splits)
  have ti: "timer_inv T (timer s)" using inv by (simp add: stream_inv_def counts_ok_def)
  have m: "recv_moves T s o1 s1" by (rule receiver_poll_moves [OF ti p])
  have i1: "stream_inv T k s1" by (rule stream_inv_recv_moves [OF inv m]) (simp add: run)
  have b1: "seqs T (timeline (timer s)) = seqs T (map fact_task o1) + seqs T (timeline (timer s1))"
      "cs_seq s1 = cs_seq s" "rx s1 = Running"
    using m run by (simp_all add: recv_moves_def timer_moves_def)
  show ?thesis
  proof (cases "\<exists>e. res = Ready (Err e)")
    case True
    let ?s1 = "s1\<lparr>closed := True\<rparr>"
    have i2: "stream_inv T k ?s1" "rx ?s1 \<noteq> Exited" "closed ?s1"
      using i1 b1(3) by (simp_all add: stream_inv_def modes_ok_def)
    obtain s2 o2 where c: "clean_timer T ?s1 = Returns (s2, o2)" "s' = cleanup_check s2" "out = o1 @ o2"
      using r p True by (auto simp: receive_loop_turn_def receive_exit_def split: panics.splits prod.splits)
    from receive_exit_moves [OF client_task_laws_axioms i2 c(1)] b1 c(2,3) show ?thesis
      by (simp add: step_ok_def cleanup_check_def)
  next
    case False
    then have "s' = s1" "out = o1"
      using r p by (auto simp: receive_loop_turn_def split: poll.splits result.splits)
    then show ?thesis using i1 b1 by (simp add: step_ok_def)
  qed
qed

lemma stream_step_ok:
  assumes "stream_step T P c wg_ready s l s'" and inv: "stream_inv T k s"
    and wg: "\<forall>l n. wg_ready l n \<longrightarrow> l \<le> n"
  shows "step_ok T k s l s'"
  using assms(1)
proof cases
  case (st_reject t fl out r)
  with send_begin_inv [OF inv st_reject(2) wg st_reject(3)] show ?thesis by (simp add: step_ok_def)
next
  case (st_begin t fl)
  with send_begin_inv [OF inv st_begin(2) wg st_begin(3)] show ?thesis by (simp add: step_ok_def)
next
  case (st_finish t fl out r)
  from send_finish_step [OF client_task_laws_axioms inv st_finish(2-4)] st_finish(1)
    seq_less_Suc [OF st_finish(3)]
  show ?thesis by (auto simp: step_ok_def)
next
  case (st_ping r)
  with send_ping_ok [OF inv] show ?thesis by simp
next
  case (st_flush r)
  have "step_ok T k s Silent s'"
    by (rule silent_same_timer [OF inv])
       (use st_flush(3) in \<open>auto simp: flush_req_def split: prod.splits result.splits\<close>)
  with st_flush show ?thesis by simp
next
  case st_set_error
  have "step_ok T k s Silent s'"
    by (rule silent_same_timer [OF inv]) (simp_all add: st_set_error set_error_and_exit_def)
  with st_set_error show ?thesis by simp
next
  case st_drop
  have "step_ok T k s Silent s'"
    by (rule silent_same_timer [OF inv]) (simp_all add: st_drop stream_drop_def)
  with st_drop show ?thesis by simp
next
  case (st_receive now n fuel out)
  with receive_turn_ok [OF inv] show ?thesis by simp
next
  case (st_clean out)
  then have cl: "rx s \<noteq> Exited" "closed s" using inv by (auto simp: stream_inv_def modes_ok_def)
  obtain s2 where c: "clean_timer T s = Returns (s2, out)" "s' = cleanup_check s2"
    using st_clean(3) by (auto simp: cleanup_turn_def split: panics.splits prod.splits)
  from receive_exit_moves [OF client_task_laws_axioms inv cl c(1)] c(2) st_clean show ?thesis
    by (simp add: step_ok_def cleanup_check_def)
qed

text \<open>The summary of a run that starts with nothing registered.\<close>

lemma stream_run_ok:
  assumes "stream_run T P c wg_ready s0 ls s" and "stream_inv T 0 s0" "timeline (timer s0) = []"
    and wg: "\<forall>l n. wg_ready l n \<longrightarrow> l \<le> n"
  shows "stream_inv T (length (lost_seqs ls)) s \<and> distinct (sent_seqs ls)
    \<and> (\<forall>n \<in> set (sent_seqs ls). n < cs_seq s)
    \<and> mset (sent_seqs ls) = seqs T (settled ls) + mset (lost_seqs ls) + seqs T (timeline (timer s))"
  using assms(1-3)
proof (induction rule: stream_run.induct)
  case (sr_snoc s0 ls s' l s'')
  let ?k = "length (lost_seqs ls)"
  have IH: "stream_inv T ?k s'" "distinct (sent_seqs ls)" "\<forall>n \<in> set (sent_seqs ls). n < cs_seq s'"
      "mset (sent_seqs ls) = seqs T (settled ls) + mset (lost_seqs ls) + seqs T (timeline (timer s'))"
    using sr_snoc by auto
  have ok: "stream_inv T (?k + length (lost_seqs [l])) s''" "cs_seq s' \<le> cs_seq s''"
      "\<forall>n \<in> set (sent_seqs [l]). cs_seq s' \<le> n \<and> n < cs_seq s''"
      "mset (sent_seqs [l]) + seqs T (timeline (timer s'))
        = seqs T (settled [l]) + mset (lost_seqs [l]) + seqs T (timeline (timer s''))"
    using stream_step_ok [OF sr_snoc.hyps(2) IH(1) wg] by (simp_all add: step_ok_def)
  have "distinct (sent_seqs [l])" by (cases l) simp_all
  then have "distinct (sent_seqs (ls @ [l]))" using IH(2,3) ok(3) by fastforce
  moreover have "\<forall>n \<in> set (sent_seqs (ls @ [l])). n < cs_seq s''" using IH(3) ok(2,3) by fastforce
  moreover have "mset (sent_seqs (ls @ [l])) = seqs T (settled (ls @ [l])) + mset (lost_seqs (ls @ [l]))
      + seqs T (timeline (timer s''))"
    using IH(4) ok(4) by (simp add: ac_simps)
  ultimately show ?case using ok(1) by simp
qed simp

end

section \<open>Tasks in flight\<close>

text \<open>The threshold of the throttler and the client's id never change.\<close>

definition same_setup :: "('t, 'n) ClientStream \<Rightarrow> ('t, 'n) ClientStream \<Rightarrow> bool" where
  "same_setup s s' \<longleftrightarrow> thresholds (throttler s') = thresholds (throttler s) \<and> client_id s' = client_id s"

lemma recv_moves_setup: "recv_moves T s out s' \<Longrightarrow> same_setup s s'"
  by (auto simp: same_setup_def recv_moves_def release_def)

lemma clean_timer_setup:
  assumes "client_task_laws T" "timer_inv T (timer s)" "clean_timer T s = Returns (s1, out)"
  shows "same_setup s (cleanup_check s1)"
proof -
  obtain s' out' where "clean_timer T s = Returns (s', out')" "recv_moves T s out' s'"
    by (rule clean_timer_moves [OF assms(1,2)])
  then show ?thesis using assms(3) recv_moves_setup by (auto simp: cleanup_check_def same_setup_def)
qed

context client_transport
begin

lemma receive_turn_setup:
  assumes ti: "timer_inv T (timer s)" and r: "receive_loop_turn T P c now n fuel s = Some (Returns (s', out))"
  shows "same_setup s s'"
proof -
  obtain s1 o1 res where p: "receiver_poll T P c now n fuel s = Some (Returns (s1, o1, res))"
    using r by (auto simp: receive_loop_turn_def split: option.splits panics.splits prod.splits)
  have m: "recv_moves T s o1 s1" by (rule receiver_poll_moves [OF ti p])
  have ti1: "timer_inv T (timer (s1\<lparr>closed := True\<rparr>))" using recv_moves_inv [OF m] by simp
  show ?thesis
    using r p recv_moves_setup [OF m] clean_timer_setup [OF client_task_laws_axioms ti1]
    by (auto simp: receive_loop_turn_def receive_exit_def same_setup_def split: panics.splits prod.splits poll.splits result.splits)
qed

lemma step_setup:
  assumes "stream_step T P c wg_ready s l s'" and "stream_inv T lost s"
  shows "same_setup s s'"
proof -
  have ti: "timer_inv T (timer s)" using assms(2) by (simp add: stream_inv_def counts_ok_def)
  from assms(1) show ?thesis
  proof cases
    case (st_receive now n fuel out)
    then show ?thesis using receive_turn_setup [OF ti] by blast
  next
    case (st_clean out)
    then show ?thesis using clean_timer_setup [OF client_task_laws_axioms ti]
      by (auto simp: cleanup_turn_def split: panics.splits prod.splits)
  qed (auto simp: send_begin_def send_finish_def send_request_def seq_update_def send_ping_req_def flush_req_def
     set_error_and_exit_def stream_drop_def add_task_def same_setup_def Let_def
     split: if_splits result.splits panics.splits prod.splits option.splits)
qed

text \<open>The number of tasks in flight: only the end of a send raises it, and a send starts under the threshold.\<close>

lemma step_inflight:
  assumes st: "stream_step T P c wg_ready s l s'" and inv: "stream_inv T k s"
    and wg: "\<forall>l n. wg_ready l n \<longrightarrow> l \<le> n" and le: "wg_left (throttler s) \<le> thresholds (throttler s) + 1"
  shows "wg_left (throttler s') \<le> thresholds (throttler s') + 1"
proof -
  have ok: "stream_inv T (k + length (lost_seqs [l])) s'" 
      "mset (sent_seqs [l]) + seqs T (timeline (timer s))
        = seqs T (settled [l]) + mset (lost_seqs [l]) + seqs T (timeline (timer s'))"
    using stream_step_ok [OF st inv wg] by (simp_all add: step_ok_def)
  have "size (mset (sent_seqs [l]) + seqs T (timeline (timer s))) \<ge> size (seqs T (timeline (timer s')))"
    unfolding ok(2) by simp
  then have n: "wg_left (throttler s') \<le> wg_left (throttler s) + length (sent_seqs [l])"
    using ok(1) inv by (simp add: stream_inv_def room_ok_def)
  have "wg_left (throttler s) + length (sent_seqs [l]) \<le> thresholds (throttler s) + 1"
  proof (cases "sent_seqs [l] = []")
    case False
    from st have "sender s \<noteq> Idle" by cases (use False in auto)
    moreover have "length (sent_seqs [l]) \<le> 1" by (cases l) simp_all
    ultimately show ?thesis using inv by (auto simp: stream_inv_def room_ok_def)
  qed (use le in simp)
  then show ?thesis using n step_setup [OF st inv] by (simp add: same_setup_def)
qed

lemma run_inflight:
  assumes "stream_run T P c wg_ready s0 ls s" "stream_inv T 0 s0" "timeline (timer s0) = []"
    and wg: "\<forall>l n. wg_ready l n \<longrightarrow> l \<le> n"
  shows "wg_left (throttler s) \<le> thresholds (throttler s) + 1 \<and> same_setup s0 s"
  using assms(1-3)
proof (induction rule: stream_run.induct)
  case (sr_nil s)
  then show ?case by (simp add: stream_inv_def room_ok_def same_setup_def)
next
  case (sr_snoc s0 ls s' l s'')
  then have "stream_inv T (length (lost_seqs ls)) s'" using stream_run_ok [OF _ _ _ wg] by blast
  then show ?case using sr_snoc step_inflight [OF sr_snoc.hyps(2) _ wg] step_setup [OF sr_snoc.hyps(2)]
    by (auto simp: same_setup_def)
qed

end

section \<open>Properties\<close>

lemma timeline_stream_new: "timeline (timer (stream_new config cn cid ts)) = []"
  by (simp add: stream_new_def Let_def timeline_new)

lemma stream_new_run_ok:
  assumes "client_transport T P" "\<forall>l n. wg_ready l n \<longrightarrow> l \<le> n"
    and "stream_run T P c wg_ready (stream_new config cn cid ts) ls s"
  shows "stream_inv T (length (lost_seqs ls)) s \<and> distinct (sent_seqs ls)
    \<and> (\<forall>n \<in> set (sent_seqs ls). n < cs_seq s)
    \<and> mset (sent_seqs ls) = seqs T (settled ls) + mset (lost_seqs ls) + seqs T (timeline (timer s))"
  by (rule client_transport.stream_run_ok [OF assms(1,3) stream_new_inv timeline_stream_new assms(2)])



lemma stream_new_threshold: "thresholds (throttler (stream_new config cn cid ts)) = effective_threshold config"
  by (simp add: stream_new_def throttler_new_def effective_threshold_def Let_def)

text \<open>
  C16: the number of tasks in flight on a connection is bounded. Whatever the interleaving, at
  most one task more than the configured threshold (128 when none is configured) waits for its
  answer, the registration channel holds no more than its capacity, and a send in progress
  has at most the threshold in flight before it.
\<close>

theorem inflight_is_bounded:
  assumes "client_transport T P" "\<forall>l n. wg_ready l n \<longrightarrow> l \<le> n"
    and "stream_run T P c wg_ready (stream_new config cn cid ts) ls s"
  shows "get_inflight_count (throttler s) \<le> effective_threshold config + 1
    \<and> length (pending_tasks (timer s)) \<le> pending_cap (timer s) \<and> pending_cap (timer s) = 2 * effective_threshold config
    \<and> (sender s \<noteq> Idle \<longrightarrow> get_inflight_count (throttler s) \<le> effective_threshold config)"
proof -
  have inv: "stream_inv T (length (lost_seqs ls)) s" using stream_new_run_ok [OF assms] by simp
  note client_transport.run_inflight [OF assms(1,3) stream_new_inv timeline_stream_new assms(2)]
  moreover have "length (pending_tasks (timer s)) \<le> length (timeline (timer s))" by (simp add: timeline_def)
  moreover have "0 < effective_threshold config" by (simp add: effective_threshold_def)
  ultimately show ?thesis using inv by (auto simp: stream_inv_def room_ok_def get_inflight_count_def same_setup_def stream_new_threshold)
qed


section \<open>Witnesses\<close>

text \<open>A transport on which writes succeed and no response arrives.\<close>

definition quiet_transport :: "(unit, u64 \<times> RpcIntErr option, unit) ClientTransport" where
  "quiet_transport = \<lparr>close_conn = \<lambda>n. n, tp_flush_req = \<lambda>n. (n, Ok ()),
     write_req = \<lambda>_ _ _ n. (n, Ok ()), read_resp = \<lambda>_ _ tm n. Returns (tm, n, [], Pending)\<rparr>"

lemma quiet_transport_laws: "client_transport probe_task quiet_transport"
  by (intro client_transport.intro client_transport_axioms.intro probe_task_laws)
     (simp add: quiet_transport_def)

definition demo_stream :: "(u64 \<times> RpcIntErr option, unit) ClientStream" where
  "demo_stream = stream_new ClientConfig_default () 9 None"

definition demo_open :: "(u64 \<times> RpcIntErr option, unit) ClientStream" where
  "demo_open = fst (send_begin probe_task (0, None) False demo_stream)"

definition demo_sent_stream :: "(u64 \<times> RpcIntErr option, unit) ClientStream" where
  "demo_sent_stream = (case send_finish probe_task quiet_transport () (0, None) False demo_open of
     Returns (s, _) \<Rightarrow> s | Panic \<Rightarrow> demo_open)"

lemmas demo_stream_simps = demo_stream_def demo_open_def demo_sent_stream_def stream_new_def
  ClientConfig_default_def Let_def throttler_new_def timer_new_def send_begin_def nearly_full_def
  send_finish_def send_request_def seq_update_def quiet_transport_def probe_task_def req_encode_def
  default_get_req_blob_def req_write_head_def head_room_def RPC_REQ_HEADER_LEN_def
  reg_task_def add_task_def u32_max_def i32_max_def

lemma demo_stream_run:
  "stream_run probe_task quiet_transport () (\<le>) demo_stream [Silent, Sent (0, None) 1 False []] demo_sent_stream"
proof -
  have b: "stream_step probe_task quiet_transport () (\<le>) demo_stream Silent demo_open"
    by (rule st_begin [where t = "(0, None)" and fl = False])
       (simp_all add: demo_stream_simps may_send_def throttle_def)
  have f: "send_finish probe_task quiet_transport () (0, None) False demo_open
      = Returns (demo_sent_stream, [], Ok ())"
    by (simp add: demo_stream_simps)
  have "stream_step probe_task quiet_transport () (\<le>) demo_open
      (Sent (0, None) (cs_seq demo_open) (Ok () \<noteq> (Ok () :: (unit, RpcIntErr) result) \<and> [] = ([] :: (u64 \<times> RpcIntErr option) fact list)) [])
      demo_sent_stream"
    by (rule st_finish [OF _ _ f]) (simp_all add: demo_stream_simps)
  moreover have "cs_seq demo_open = 1" by (simp add: demo_stream_simps)
  ultimately have "stream_step probe_task quiet_transport () (\<le>) demo_open (Sent (0, None) 1 False []) demo_sent_stream"
    by simp
  from sr_snoc [OF sr_snoc [OF sr_nil b] this] show ?thesis by simp
qed

lemma demo_throttle_law: "\<forall>l n :: nat. l \<le> n \<longrightarrow> l \<le> n" by simp



theorem inflight_is_bounded_witness:
  "get_inflight_count (throttler demo_sent_stream) \<le> 129 \<and> pending_cap (timer demo_sent_stream) = 256"
  using inflight_is_bounded [OF quiet_transport_laws demo_throttle_law demo_stream_run [unfolded demo_stream_def]]
  by (simp add: effective_threshold_def ClientConfig_default_def)


end
