(* ===== verification/Alloc_Buf.thy ===== *)
theory Alloc_Buf
  imports Prelude
begin

text \<open>
  The trait \<open>AllocateBuf\<close> of \<open>src/stream/src/buffer.rs\<close>: reserving the space a
  response blob is read into. A \<open>Vec<u8>\<close> is its capacity and its contents, with the
  standard library's \<open>reserve\<close>, \<open>with_capacity\<close> and the unsafe \<open>set_len\<close>, whose
  precondition is checked here. \<open>io_buffer::Buffer\<close> is third-party and enters as
  functions.
\<close>

section \<open>Vectors\<close>

record vec =
  vec_cap :: nat
  vec_data :: bytes

text \<open>
  A call either returns, breaks the precondition of an unsafe operation, or panics
  (capacity overflow).
\<close>

datatype 'a memres = Done 'a | Undefined_Behaviour | Aborts

fun bind_mem :: "'a memres \<Rightarrow> ('a \<Rightarrow> 'b memres) \<Rightarrow> 'b memres" where
  "bind_mem (Done x) f = f x"
| "bind_mem Undefined_Behaviour f = Undefined_Behaviour"
| "bind_mem Aborts f = Aborts"

definition isize_max :: nat where "isize_max = 2 ^ 63 - 1"

text \<open>\<open>blob_len as usize\<close> for an \<open>i32\<close>: sign extension to 64 bits.\<close>

definition usize_of_i32 :: "i32 \<Rightarrow> nat" where
  "usize_of_i32 n = nat (sint n mod 2 ^ 64)"

text \<open>
  \<open>Vec::reserve(additional)\<close> makes room for \<open>additional\<close> elements beyond the current
  length: it does nothing when the spare capacity suffices, and otherwise grows to at
  least \<open>len + additional\<close> (doubling, at least 8).
\<close>

definition vec_reserve :: "nat \<Rightarrow> vec \<Rightarrow> vec memres" where
  "vec_reserve additional v =
    (if additional \<le> vec_cap v - length (vec_data v) then Done v
     else if length (vec_data v) + additional > isize_max then Aborts
     else Done (v\<lparr>vec_cap := max (max (2 * vec_cap v) (length (vec_data v) + additional)) 8\<rparr>))"

text \<open>
  \<open>set_len(n)\<close> requires \<open>n \<le> capacity\<close>. Elements it uncovers hold whatever the memory
  held, here \<open>mem\<close>.
\<close>

definition vec_set_len :: "(nat \<Rightarrow> u8) \<Rightarrow> nat \<Rightarrow> vec \<Rightarrow> vec memres" where
  "vec_set_len mem n v =
    (if n \<le> vec_cap v
     then Done (v\<lparr>vec_data := map (\<lambda>i. if i < length (vec_data v) then vec_data v ! i else mem i) [0..<n]\<rparr>)
     else Undefined_Behaviour)"

definition vec_with_capacity :: "nat \<Rightarrow> vec memres" where
  "vec_with_capacity n = (if n > isize_max then Aborts else Done \<lparr>vec_cap = n, vec_data = []\<rparr>)"

definition vec_wf :: "vec \<Rightarrow> bool" where
  "vec_wf v \<longleftrightarrow> length (vec_data v) \<le> vec_cap v \<and> vec_cap v \<le> isize_max"

section \<open>AllocateBuf::reserve\<close>

text \<open>For \<open>Vec<u8>\<close>: always lends the whole vector.\<close>

definition reserve_vec :: "(nat \<Rightarrow> u8) \<Rightarrow> i32 \<Rightarrow> vec \<Rightarrow> vec memres" where
  "reserve_vec mem blob_len v =
    (let n = usize_of_i32 blob_len
     in if length (vec_data v) \<noteq> n then
          bind_mem (if vec_cap v < n then vec_reserve (n - vec_cap v) v else Done v)
            (vec_set_len mem n)
        else Done v)"

text \<open>For \<open>Option<Vec<u8>>\<close>: as above, or a new vector of the right size.\<close>

definition reserve_opt_vec :: "(nat \<Rightarrow> u8) \<Rightarrow> i32 \<Rightarrow> vec option \<Rightarrow> vec memres" where
  "reserve_opt_vec mem blob_len ov =
    (let n = usize_of_i32 blob_len
     in case ov of
          Some v \<Rightarrow>
            if length (vec_data v) \<noteq> n then
              bind_mem (if vec_cap v < n then vec_reserve (n - vec_cap v) v else Done v)
                (vec_set_len mem n)
            else Done v
        | None \<Rightarrow> bind_mem (vec_with_capacity n) (vec_set_len mem n))"

text \<open>
  For \<open>io_buffer::Buffer\<close>, given its \<open>len\<close>, \<open>capacity\<close> and \<open>set_len\<close>: refuses
  (\<open>None\<close>) what does not fit the capacity.
\<close>

definition reserve_iobuf ::
  "('b \<Rightarrow> nat) \<Rightarrow> ('b \<Rightarrow> nat) \<Rightarrow> (nat \<Rightarrow> 'b \<Rightarrow> 'b) \<Rightarrow> i32 \<Rightarrow> 'b \<Rightarrow> 'b option" where
  "reserve_iobuf blen bcap bset_len blob_len buf =
    (let n = usize_of_i32 blob_len
     in if blen buf \<noteq> n then (if bcap buf < n then None else Some (bset_len n buf))
        else Some buf)"

definition reserve_opt_iobuf ::
  "('b \<Rightarrow> nat) \<Rightarrow> ('b \<Rightarrow> nat) \<Rightarrow> (nat \<Rightarrow> 'b \<Rightarrow> 'b) \<Rightarrow> (i32 \<Rightarrow> ('b, unit) result) \<Rightarrow> i32
   \<Rightarrow> 'b option \<Rightarrow> 'b option" where
  "reserve_opt_iobuf blen bcap bset_len balloc blob_len ob =
    (case ob of
       Some buf \<Rightarrow>
         (let n = usize_of_i32 blob_len
          in if blen buf \<noteq> n then (if bcap buf < n then None else Some (bset_len n buf))
             else Some buf)
     | None \<Rightarrow> (case balloc blob_len of Ok v \<Rightarrow> Some v | Err _ \<Rightarrow> None))"

section \<open>Lemmas\<close>

lemma usize_of_i32_nonneg: "0 \<le> sint n \<Longrightarrow> usize_of_i32 n = nat (sint n)"
proof -
  have "sint n < 2 ^ 31" using sint_lt [of n] by simp
  then show "0 \<le> sint n \<Longrightarrow> usize_of_i32 n = nat (sint n)"
    by (simp add: usize_of_i32_def mod_pos_pos_trivial)
qed

lemma usize_of_i32_bound: "0 \<le> sint n \<Longrightarrow> usize_of_i32 n \<le> isize_max"
  using sint_lt [of n] by (simp add: usize_of_i32_nonneg isize_max_def nat_le_iff)

lemma vec_set_len_fits:
  "n \<le> vec_cap v \<Longrightarrow> \<exists>v'. vec_set_len mem n v = Done v' \<and> length (vec_data v') = n
     \<and> vec_cap v' = vec_cap v
     \<and> take (min n (length (vec_data v))) (vec_data v') = take n (vec_data v)"
  by (auto simp: vec_set_len_def take_map intro!: nth_equalityI)

lemma vec_reserve_full:
  assumes "length (vec_data v) = vec_cap v" and "vec_cap v < n" and "n \<le> isize_max"
  shows "\<exists>v'. vec_reserve (n - vec_cap v) v = Done v' \<and> n \<le> vec_cap v' \<and> vec_data v' = vec_data v"
  using assms by (simp add: vec_reserve_def)

lemma vec_reserve_spare:
  assumes "additional \<le> vec_cap v - length (vec_data v)"
  shows "vec_reserve additional v = Done v"
  using assms by (simp add: vec_reserve_def)



text \<open>
  A task whose response blob is an empty \<open>Option<Vec<u8>>\<close> always gets a vector of
  exactly the announced length, and a pre-allocated \<open>io_buffer::Buffer\<close> is lent only if
  the blob fits its capacity.
\<close>

lemma reserve_fresh_and_bounded:
  assumes "0 \<le> sint blob_len"
    and "\<forall>n b. n \<le> bcap b \<longrightarrow> blen (bset_len n b) = n \<and> bcap (bset_len n b) = bcap b"
    and "\<forall>b. blen b \<le> bcap b"
  shows "(\<exists>v. reserve_opt_vec mem blob_len None = Done v
        \<and> length (vec_data v) = nat (sint blob_len))
    \<and> (reserve_iobuf blen bcap bset_len blob_len buf = None \<longleftrightarrow> bcap buf < nat (sint blob_len))
    \<and> (\<forall>b. reserve_iobuf blen bcap bset_len blob_len buf = Some b \<longrightarrow>
          blen b = nat (sint blob_len) \<and> bcap b = bcap buf)"
proof -
  have n: "usize_of_i32 blob_len = nat (sint blob_len)" using assms(1) by (rule usize_of_i32_nonneg)
  then have "nat (sint blob_len) \<le> isize_max" using usize_of_i32_bound [OF assms(1)] by simp
  then have "\<exists>v. reserve_opt_vec mem blob_len None = Done v
      \<and> length (vec_data v) = nat (sint blob_len)"
    by (simp add: reserve_opt_vec_def Let_def n vec_with_capacity_def vec_set_len_def)
  moreover have "blen buf \<le> bcap buf" using assms(3) by blast
  ultimately show ?thesis
    using assms(2) by (auto simp: reserve_iobuf_def n Let_def)
qed

text \<open>A buffer of four bytes, as its length and spare capacity, refuses a blob of five.\<close>

end
