(* ===== verification/Tcp_Client.thy ===== *)
theory Tcp_Client
  imports Client_Stream Alloc_Buf
begin

text \<open>
  \<open>TcpClient\<close> of \<open>src/transport/tcp/src/client.rs\<close>: the client side of the TCP
  transport. The buffered socket and its timeouts are third-party: the record \<open>Io\<close> holds
  their operations, with the socket state threaded through, and \<open>byte_stream\<close> states
  what is relied on when bytes have arrived. A read of a body is one operation that
  completes (with data, an error or a timeout); the two points where the coroutine really
  waits, the next header and the registration of a task, are \<open>Pending\<close> results after
  which the next poll resumes.
\<close>

section \<open>Sockets\<close>

text \<open>
  \<open>io_with_timeout!\<close>: a timeout of zero waits for the operation alone, which may never end
  (\<open>None\<close>); otherwise the runtime's \<open>timeout\<close> answers, with the operation's result or \<open>Err\<close> when
  the time is over.
\<close>

datatype io_kind = TimedOut | Io_Failed

definition io_with_timeout ::
  "(nat \<Rightarrow> 'f \<Rightarrow> (('a, io_kind) result, unit) result) \<Rightarrow> ('f \<Rightarrow> ('a, io_kind) result option) \<Rightarrow> nat \<Rightarrow> 'f
   \<Rightarrow> ('a, io_kind) result option" where
  "io_with_timeout rt_timeout await timeout f = (if timeout = 0 then await f
     else Some (case rt_timeout timeout f of Ok (Ok r) \<Rightarrow> Ok r | Ok (Err e) \<Rightarrow> Err e | Err _ \<Rightarrow> Err TimedOut))"

text \<open>With a timeout every operation ends; without one it ends exactly when the peer lets it.\<close>

lemma io_with_timeout_ends:
  "io_with_timeout rt_timeout await timeout f = None \<longleftrightarrow> timeout = 0 \<and> await f = None"
  by (simp add: io_with_timeout_def)

lemma io_with_timeout_Ok:
  "0 < timeout \<Longrightarrow> io_with_timeout rt_timeout await timeout f = Some (Ok r) \<longleftrightarrow> rt_timeout timeout f = Ok (Ok r)"
  by (auto simp: io_with_timeout_def split: result.splits)

text \<open>
  \<open>read_exact\<close> as it is polled for a header, and under \<open>io_with_timeout\<close>; when it fails,
  \<open>Err\<close> holds what the buffer has then. \<open>alloc\<close> tells whether \<open>Buffer::alloc\<close> succeeds.
\<close>

record 's Io =
  poll_read_exact :: "nat \<Rightarrow> 's \<Rightarrow> 's \<times> (bytes, unit) result poll"
  read_exact :: "nat \<Rightarrow> 's \<Rightarrow> 's \<times> (bytes, bytes) result"
  write_all :: "bytes \<Rightarrow> 's \<Rightarrow> 's \<times> (unit, unit) result"
  io_flush :: "'s \<Rightarrow> 's \<times> (unit, unit) result"
  shutdown_write :: "'s \<Rightarrow> 's"
  alloc :: "i32 \<Rightarrow> bool"

text \<open>
  The socket delivers bytes in order: what has arrived is read without waiting or failing,
  and reading consumes exactly what it returns. Allocating a positive size succeeds.
\<close>

definition byte_stream :: "'s Io \<Rightarrow> ('s \<Rightarrow> bytes) \<Rightarrow> bool" where
  "byte_stream io arrived \<longleftrightarrow>
     (\<forall>n s. n \<le> length (arrived s) \<longrightarrow>
        snd (poll_read_exact io n s) = Ready (Ok (take n (arrived s)))
      \<and> arrived (fst (poll_read_exact io n s)) = drop n (arrived s)
      \<and> snd (read_exact io n s) = Ok (take n (arrived s))
      \<and> arrived (fst (read_exact io n s)) = drop n (arrived s))
   \<and> (\<forall>n. 0 < sint n \<longrightarrow> alloc io n)"

section \<open>State and operations\<close>

record 's TcpClient =
  stream :: 's
  resp_buf :: bytes
  waiting_reg :: "RespHead option"

definition CLIENT_DEFAULT_BUF_SIZE :: nat where "CLIENT_DEFAULT_BUF_SIZE = 8 * 1024"

text \<open>\<open>connect\<close>; \<open>open_socket\<close> is the connect of the socket library with the buffer size.\<close>

definition tcp_connect ::
  "(rstr \<Rightarrow> nat \<Rightarrow> nat \<Rightarrow> ('s, unit) result) \<Rightarrow> rstr \<Rightarrow> ClientConfig \<Rightarrow> ('s TcpClient, RpcIntErr) result" where
  "tcp_connect open_socket addr config =
    (let buf_size = (if cfg_stream_buf_size config = 0 then CLIENT_DEFAULT_BUF_SIZE
                     else cfg_stream_buf_size config)
     in case open_socket addr (cfg_connect_timeout config) buf_size of
          Err _ \<Rightarrow> Err Unreachable
        | Ok s \<Rightarrow> Ok \<lparr>stream = s, resp_buf = [], waiting_reg = None\<rparr>)"

text \<open>Resizing the response buffer; more than the address space panics.\<close>

definition get_resp_buf :: "nat \<Rightarrow> 's TcpClient \<Rightarrow> 's TcpClient panics" where
  "get_resp_buf len cl = (if len > isize_max then Panic
     else Returns (cl\<lparr>resp_buf := take len (resp_buf cl @ replicate len 0)\<rparr>))"

definition recv_and_dump :: "'s Io \<Rightarrow> nat \<Rightarrow> 's TcpClient \<Rightarrow> 's TcpClient \<times> (unit, unit) result" where
  "recv_and_dump io l cl =
    (let n = (of_nat l :: i32)
     in if \<not> alloc io n then (cl, Err ())
        else (case read_exact io (nat (sint n)) (stream cl) of
                (s, Err _) \<Rightarrow> (cl\<lparr>stream := s\<rparr>, Err ())
              | (s, Ok _) \<Rightarrow> (cl\<lparr>stream := s\<rparr>, Ok ())))"

text \<open>The body of an error response; other flags reach \<open>unreachable!\<close>.\<close>

definition recv_error ::
  "('c, 't) ClientTask \<Rightarrow> 's Io \<Rightarrow> 'c \<Rightarrow> RespHead \<Rightarrow> 't \<Rightarrow> 's TcpClient
   \<Rightarrow> ('s TcpClient \<times> 't fact list \<times> (unit, unit) result) panics" where
  "recv_error T io codec head task cl =
    (if rs_flag head = 1 then
       Returns (cl, [Error_Handle (set_custom_error T codec (ENum (rs_msg_len head)) 0 0 task)], Ok ())
     else if rs_flag head = 2 then
       (let len = usize_of_i32 (rs_blob_len head)
        in case get_resp_buf len cl of
             Panic \<Rightarrow> Panic
           | Returns cl1 \<Rightarrow> (case read_exact io len (stream cl1) of
                (s, Err b) \<Rightarrow> Returns (cl1\<lparr>stream := s, resp_buf := b\<rparr>,
                                     [Error_Handle (set_rpc_error T IO task)], Err ())
              | (s, Ok buf) \<Rightarrow>
                  Returns (cl1\<lparr>stream := s, resp_buf := buf\<rparr>,
                    [Error_Handle
                       (case (if starts_with RPC_ERR_PREFIX buf
                              then (case from_utf8 buf of Ok txt \<Rightarrow> from_str txt | Err _ \<Rightarrow> Err ())
                              else Err ()) of
                          Ok e \<Rightarrow> set_rpc_error T e task
                        | Err _ \<Rightarrow> set_custom_error T codec (EBuf buf) 0 0 task)], Ok ())))
     else Panic)"

text \<open>
  The body of a success response for a task that was found: the message, the blob into the
  space the task lends, then decoding.
\<close>

definition recv_finish ::
  "('c, 't) ClientTask \<Rightarrow> 'c \<Rightarrow> RespHead \<Rightarrow> 't \<Rightarrow> 's TcpClient
   \<Rightarrow> 's TcpClient \<times> 't fact list \<times> (unit, unit) result" where
  "recv_finish T codec head task cl =
    (if rs_msg_len head > 0 then
       (case decode_resp T codec (resp_buf cl) task of
          (task', Err _) \<Rightarrow> (cl, [Error_Handle (set_rpc_error T Decode task')], Ok ())
        | (task', Ok _) \<Rightarrow> (cl, [Task_Done (set_ok T task')], Ok ()))
     else (cl, [Task_Done (set_ok T task)], Ok ()))"

definition recv_blob ::
  "('c, 't) ClientTask \<Rightarrow> 's Io \<Rightarrow> 'c \<Rightarrow> RespHead \<Rightarrow> 't \<Rightarrow> 's TcpClient
   \<Rightarrow> 's TcpClient \<times> 't fact list \<times> (unit, unit) result" where
  "recv_blob T io codec head task cl =
    (if 0 < sint (rs_blob_len head) then
       (case reserve_resp_blob T (rs_blob_len head) task of
          None \<Rightarrow>
            (let (cl', r) = recv_and_dump io (usize_of_i32 (rs_blob_len head)) cl
             in (cl', [Error_Handle (set_rpc_error T Decode task)], r))
        | Some (len, fill) \<Rightarrow> (case read_exact io len (stream cl) of
             (s, Err b) \<Rightarrow> (cl\<lparr>stream := s\<rparr>, [Error_Handle (set_rpc_error T IO (fill b))], Err ())
           | (s, Ok b) \<Rightarrow> recv_finish T codec head (fill b) (cl\<lparr>stream := s\<rparr>)))
     else recv_finish T codec head task cl)"

definition recv_ok ::
  "('c, 't) ClientTask \<Rightarrow> 's Io \<Rightarrow> 'c \<Rightarrow> RespHead \<Rightarrow> 't \<Rightarrow> 's TcpClient
   \<Rightarrow> 's TcpClient \<times> 't fact list \<times> (unit, unit) result" where
  "recv_ok T io codec head task cl =
    (if rs_msg_len head > 0 then
       (case read_exact io (length (resp_buf cl)) (stream cl) of
          (s, Err b) \<Rightarrow> (cl\<lparr>stream := s, resp_buf := b\<rparr>,
                        [Error_Handle (set_rpc_error T IO task)], Err ())
        | (s, Ok b) \<Rightarrow> recv_blob T io codec head task (cl\<lparr>stream := s, resp_buf := b\<rparr>))
     else recv_blob T io codec head task cl)"

text \<open>The body of a response nobody waits for: its bytes are skipped (\<open>u32\<close> addition wraps).\<close>

definition skip_len :: "RespHead \<Rightarrow> u32" where
  "skip_len head = (if rs_flag head = 0 then rs_msg_len head + rs_blob_len head
     else if rs_flag head = RESP_FLAG_HAS_ERR_STRING then rs_blob_len head else 0)"

definition recv_skip :: "'s Io \<Rightarrow> RespHead \<Rightarrow> 's TcpClient \<Rightarrow> 's TcpClient \<times> (unit, unit) result" where
  "recv_skip io head cl = (if skip_len head > 0 then recv_and_dump io (unat (skip_len head)) cl
     else (cl, Ok ()))"

text \<open>\<open>_recv_resp_body\<close> once the timer has answered, and as a whole.\<close>

definition recv_body_taken ::
  "('c, 't) ClientTask \<Rightarrow> 's Io \<Rightarrow> 'c \<Rightarrow> RespHead \<Rightarrow> 't ClientTaskTimer \<times> 't option poll \<Rightarrow> 's TcpClient
   \<Rightarrow> ('t ClientTaskTimer \<times> 's TcpClient \<times> 't fact list \<times> (unit, unit) result poll) panics" where
  "recv_body_taken T io codec head r cl = (case r of
     (tm, Pending) \<Rightarrow> Returns (tm, cl\<lparr>waiting_reg := Some head\<rparr>, [], Pending)
   | (tm, Ready (Some task)) \<Rightarrow>
       if rs_flag head > 0 then
         (case recv_error T io codec head task cl of
            Panic \<Rightarrow> Panic
          | Returns (cl', out, res) \<Rightarrow> Returns (tm, cl', out, Ready res))
       else (let (cl', out, res) = recv_ok T io codec head task cl in Returns (tm, cl', out, Ready res))
   | (tm, Ready None) \<Rightarrow> (let (cl', res) = recv_skip io head cl in Returns (tm, cl', [], Ready res)))"

definition recv_resp_body ::
  "('c, 't) ClientTask \<Rightarrow> 's Io \<Rightarrow> 'c \<Rightarrow> RespHead \<Rightarrow> 't ClientTaskTimer \<Rightarrow> 's TcpClient
   \<Rightarrow> ('t ClientTaskTimer \<times> 's TcpClient \<times> 't fact list \<times> (unit, unit) result poll) panics" where
  "recv_resp_body T io codec head tm cl =
    (case get_resp_buf (unat (rs_msg_len head)) cl of
       Panic \<Rightarrow> Panic
     | Returns cl1 \<Rightarrow> recv_body_taken T io codec head (take_task T (rs_seq head) tm) cl1)"

definition resp_result :: "(unit, unit) result poll \<Rightarrow> (bool, RpcIntErr) result poll" where
  "resp_result r = (case r of
     Pending \<Rightarrow> Pending | Ready (Err _) \<Rightarrow> Ready (Err IO) | Ready (Ok _) \<Rightarrow> Ready (Ok True))"

text \<open>\<open>read_resp\<close>: waiting for a header (unless the sender has gone), or resuming.\<close>

definition read_head ::
  "'s Io \<Rightarrow> bool option \<Rightarrow> 's TcpClient \<Rightarrow> 's TcpClient \<times> (bytes option, unit) result poll" where
  "read_head io close cl = (case close of
     Some gone \<Rightarrow> (case poll_read_exact io RPC_RESP_HEADER_LEN (stream cl) of
        (s, Ready (Ok b)) \<Rightarrow> (cl\<lparr>stream := s\<rparr>, Ready (Ok (Some b)))
      | (s, Ready (Err _)) \<Rightarrow> (cl\<lparr>stream := s\<rparr>, Ready (Err ()))
      | (s, Pending) \<Rightarrow> (cl\<lparr>stream := s\<rparr>, if gone then Ready (Ok None) else Pending))
   | None \<Rightarrow> (case read_exact io RPC_RESP_HEADER_LEN (stream cl) of
        (s, Ok b) \<Rightarrow> (cl\<lparr>stream := s\<rparr>, Ready (Ok (Some b)))
      | (s, Err _) \<Rightarrow> (cl\<lparr>stream := s\<rparr>, Ready (Err ()))))"

definition tcp_read_resp ::
  "('c, 't) ClientTask \<Rightarrow> 's Io \<Rightarrow> 'c \<Rightarrow> bool option \<Rightarrow> 't ClientTaskTimer \<Rightarrow> 's TcpClient
   \<Rightarrow> ('t ClientTaskTimer \<times> 's TcpClient \<times> 't fact list \<times> (bool, RpcIntErr) result poll) panics" where
  "tcp_read_resp T io codec close tm cl =
    (case waiting_reg cl of
       Some head \<Rightarrow>
         (case recv_body_taken T io codec head (take_task_resume T (rs_seq head) tm) (cl\<lparr>waiting_reg := None\<rparr>) of
            Panic \<Rightarrow> Panic
          | Returns (tm', cl', out, r) \<Rightarrow> Returns (tm', cl', out, resp_result r))
     | None \<Rightarrow>
         (case read_head io close cl of
            (cl1, Pending) \<Rightarrow> Returns (tm, cl1, [], Pending)
          | (cl1, Ready (Err _)) \<Rightarrow> Returns (tm, cl1, [], Ready (Err IO))
          | (cl1, Ready (Ok None)) \<Rightarrow> Returns (tm, cl1, [], Ready (Ok False))
          | (cl1, Ready (Ok (Some head_buf))) \<Rightarrow> (case resp_decode_head head_buf of
               Panic \<Rightarrow> Panic
             | Returns (Err e) \<Rightarrow> Returns (tm, cl1, [], Ready (Err e))
             | Returns (Ok head) \<Rightarrow> (case recv_resp_body T io codec head tm cl1 of
                  Panic \<Rightarrow> Panic
                | Returns (tm', cl', out, r) \<Rightarrow> Returns (tm', cl', out, resp_result r)))))"

definition tcp_flush_req :: "'s Io \<Rightarrow> 's TcpClient \<Rightarrow> 's TcpClient \<times> (unit, unit) result" where
  "tcp_flush_req io cl = (let (s, r) = io_flush io (stream cl) in (cl\<lparr>stream := s\<rparr>, r))"

definition tcp_write_req ::
  "'s Io \<Rightarrow> bytes \<Rightarrow> bytes option \<Rightarrow> bool \<Rightarrow> 's TcpClient \<Rightarrow> 's TcpClient \<times> (unit, unit) result" where
  "tcp_write_req io buf blob need_flush cl = (case write_all io buf (stream cl) of
     (s, Err e) \<Rightarrow> (cl\<lparr>stream := s\<rparr>, Err e)
   | (s, Ok _) \<Rightarrow>
       (case (case blob of None \<Rightarrow> (s, Ok ()) | Some b \<Rightarrow> write_all io b s) of
          (s', Err e) \<Rightarrow> (cl\<lparr>stream := s'\<rparr>, Err e)
        | (s', Ok _) \<Rightarrow> if need_flush then tcp_flush_req io (cl\<lparr>stream := s'\<rparr>)
                        else (cl\<lparr>stream := s'\<rparr>, Ok ())))"

definition tcp_close_conn :: "'s Io \<Rightarrow> 's TcpClient \<Rightarrow> 's TcpClient" where
  "tcp_close_conn io cl = (case tcp_flush_req io cl of
     (cl', Ok _) \<Rightarrow> cl'\<lparr>stream := shutdown_write io (stream cl')\<rparr>
   | (cl', Err _) \<Rightarrow> cl')"

definition tcp_transport :: "('c, 't) ClientTask \<Rightarrow> 's Io \<Rightarrow> ('c, 't, 's TcpClient) ClientTransport" where
  "tcp_transport T io = \<lparr>close_conn = tcp_close_conn io, tp_flush_req = tcp_flush_req io,
     write_req = tcp_write_req io, read_resp = tcp_read_resp T io\<rparr>"

section \<open>The transport meets the stream's contract\<close>

context client_task_laws
begin

lemma recv_error_facts:
  "recv_error T io c head t cl = Returns (cl', out, r) \<Longrightarrow> list_all2 (settles T) [t] out"
  by (auto simp: recv_error_def Let_def split: if_splits panics.splits prod.splits result.splits)

lemma recv_finish_facts:
  "worked T t t' \<Longrightarrow> recv_finish T c head t' cl = (cl', out, r) \<Longrightarrow> list_all2 (settles T) [t] out"
  by (auto simp: recv_finish_def Let_def dest: worked_msg
      split: if_splits prod.splits result.splits option.splits)

lemma recv_ok_facts:
  "recv_ok T io c head t cl = (cl', out, r) \<Longrightarrow> list_all2 (settles T) [t] out"
  by (auto simp: recv_ok_def recv_blob_def Let_def dest!: recv_finish_facts [of t, rotated] intro: worked_blob
      split: if_splits prod.splits result.splits option.splits)

lemma recv_body_taken_facts:
  assumes "recv_body_taken T io c head (tm, res) cl = Returns (tm', cl', out, r)"
  shows "tm' = tm \<and> list_all2 (settles T) (taken_list res) out"
proof (cases res)
  case Pending
  then show ?thesis using assms by (simp add: recv_body_taken_def)
next
  case (Ready x)
  then show ?thesis using assms recv_error_facts recv_ok_facts
    by (cases x) (fastforce simp: recv_body_taken_def split: if_splits panics.splits prod.splits)+
qed

lemma tcp_read_resp_timer:
  assumes "tcp_read_resp T io c close tm cn = Returns (tm', cn', out, r)"
  shows "(tm' = tm \<and> out = [])
     \<or> (\<exists>seq res. takes T seq tm (tm', res) \<and> list_all2 (settles T) (taken_list res) out)"
proof -
  have body: "\<exists>seq res. takes T seq tm (tm', res) \<and> list_all2 (settles T) (taken_list res) out"
    if "recv_body_taken T io c head q cl = Returns (tm', cn', out, r')"
      "q = take_task T (rs_seq head) tm \<or> q = take_task_resume T (rs_seq head) tm" for head q cl r'
    using that recv_body_taken_facts [of io c head "fst q" "snd q" cl tm' cn' out r']
    unfolding takes_def by (metis prod.collapse)
  show ?thesis
    using assms
    by (auto simp: tcp_read_resp_def recv_resp_body_def intro: body
        split: option.splits panics.splits prod.splits poll.splits result.splits)
qed

end

sublocale client_task_laws \<subseteq> tcp: client_transport T "tcp_transport T io" for io
  by unfold_locales (simp add: tcp_transport_def tcp_read_resp_timer)

section \<open>What a task is told\<close>

text \<open>
  The abstract specification of receiving: what a waiting task is told for an answer of the
  server, when its response blob, if any, gets the space it needs.
\<close>

definition deliver_err :: "('c, 't) ClientTask \<Rightarrow> 'c \<Rightarrow> EncodedErr \<Rightarrow> 't \<Rightarrow> 't fact" where
  "deliver_err T c e t = Error_Handle (case received_err e of
     ERpc i \<Rightarrow> set_rpc_error T i t | e' \<Rightarrow> set_custom_error T c e' 0 0 t)"

definition deliver_msg :: "('c, 't) ClientTask \<Rightarrow> 'c \<Rightarrow> bytes \<Rightarrow> 't \<Rightarrow> 't fact" where
  "deliver_msg T c msg t = (if msg = [] then Task_Done (set_ok T t) else
     (case decode_resp T c msg t of
        (t', Ok _) \<Rightarrow> Task_Done (set_ok T t')
      | (t', Err _) \<Rightarrow> Error_Handle (set_rpc_error T Decode t')))"

definition deliver ::
  "('c, 't) ClientTask \<Rightarrow> 'c \<Rightarrow> (bytes \<times> bytes option, EncodedErr) result \<Rightarrow> 't \<Rightarrow> 't fact" where
  "deliver T c ans t = (case ans of
     Err e \<Rightarrow> deliver_err T c e t
   | Ok (msg, blob) \<Rightarrow>
       if opt_bytes blob = [] then deliver_msg T c msg t
       else (case reserve_resp_blob T (of_nat (length (opt_bytes blob))) t of
               None \<Rightarrow> Error_Handle (set_rpc_error T Decode t)
             | Some (_, fill) \<Rightarrow> deliver_msg T c msg (fill (opt_bytes blob))))"

text \<open>The payload of an answer, and that all its lengths fit the header.\<close>

fun answer_body :: "(bytes \<times> bytes option, EncodedErr) result \<Rightarrow> bytes" where
  "answer_body (Ok (msg, blob)) = msg @ opt_bytes blob"
| "answer_body (Err (ENum n)) = []"
| "answer_body (Err (ERpc e)) = as_bytes e"
| "answer_body (Err (EStatic b)) = b"
| "answer_body (Err (EBuf b)) = b"

fun sendable :: "(bytes \<times> bytes option, EncodedErr) result \<Rightarrow> bool" where
  "sendable (Ok (msg, blob)) \<longleftrightarrow> length msg \<le> u32_max \<and> length (opt_bytes blob) \<le> i32_max"
| "sendable (Err e) \<longleftrightarrow> length (answer_body (Err e)) \<le> i32_max"

section \<open>Lemmas: reading frames\<close>

lemma sint_of_nat_i32: "n \<le> i32_max \<Longrightarrow> sint (of_nat n :: i32) = int n"
  by (simp add: i32_max_def signed_of_nat signed_take_bit_int_eq_self)

lemma unat_of_nat_u32: "n \<le> u32_max \<Longrightarrow> unat (of_nat n :: u32) = n"
  by (simp add: u32_max_def unat_of_nat)

lemma of_nat_u32_pos: "n \<le> u32_max \<Longrightarrow> 0 < (of_nat n :: u32) \<longleftrightarrow> 0 < n"
  by (metis unat_of_nat_u32 word_gt_0 unat_0_iff gr0I less_irrefl)

lemma usize_of_nat_i32: "n \<le> i32_max \<Longrightarrow> usize_of_i32 (of_nat n) = n"
  by (simp add: usize_of_i32_nonneg sint_of_nat_i32)

lemma read_exact_prefix:
  assumes "byte_stream io arrived" "arrived s = a @ w"
  obtains s' where "read_exact io (length a) s = (s', Ok a)" "arrived s' = w"
proof -
  have "length a \<le> length (arrived s)" by (simp add: assms(2))
  then have "snd (read_exact io (length a) s) = Ok a" "arrived (fst (read_exact io (length a) s)) = w"
    using assms unfolding byte_stream_def by auto
  then show thesis using that [of "fst (read_exact io (length a) s)"] by (metis prod.collapse)
qed

lemma poll_read_prefix:
  assumes "byte_stream io arrived" "arrived s = a @ w"
  obtains s' where "poll_read_exact io (length a) s = (s', Ready (Ok a))" "arrived s' = w"
proof -
  have "length a \<le> length (arrived s)" by (simp add: assms(2))
  then have "snd (poll_read_exact io (length a) s) = Ready (Ok a)"
      "arrived (fst (poll_read_exact io (length a) s)) = w"
    using assms unfolding byte_stream_def by auto
  then show thesis using that [of "fst (poll_read_exact io (length a) s)"] by (metis prod.collapse)
qed

lemma read_head_frame:
  assumes bs: "byte_stream io arrived" and a: "arrived (stream cl) = resp_head_bytes h @ w"
  obtains s where "read_head io close cl = (cl\<lparr>stream := s\<rparr>, Ready (Ok (Some (resp_head_bytes h))))"
    "arrived s = w"
proof (cases close)
  case None
  obtain s where "read_exact io RPC_RESP_HEADER_LEN (stream cl) = (s, Ok (resp_head_bytes h))" "arrived s = w"
    using read_exact_prefix [OF bs a] by auto
  then show thesis using None by (intro that) (simp_all add: read_head_def)
next
  case (Some b)
  obtain s where "poll_read_exact io RPC_RESP_HEADER_LEN (stream cl) = (s, Ready (Ok (resp_head_bytes h)))"
      "arrived s = w"
    using poll_read_prefix [OF bs a] by auto
  then show thesis using Some by (intro that) (simp_all add: read_head_def)
qed

lemma recv_and_dump_skips:
  assumes "byte_stream io arrived" "arrived (stream cl) = body @ w" "0 < length body" "length body \<le> i32_max"
  obtains cl' where "recv_and_dump io (length body) cl = (cl', Ok ())" "arrived (stream cl') = w"
proof -
  have "alloc io (of_nat (length body))"
    using assms sint_of_nat_i32 [OF assms(4)] by (simp add: byte_stream_def)
  moreover obtain s where "read_exact io (length body) (stream cl) = (s, Ok body)" "arrived s = w"
    by (rule read_exact_prefix [OF assms(1,2)])
  ultimately show thesis using sint_of_nat_i32 [OF assms(4)]
    by (intro that [of "cl\<lparr>stream := s\<rparr>"]) (simp_all add: recv_and_dump_def)
qed

lemma i32_le_isize: "n \<le> i32_max \<Longrightarrow> n \<le> isize_max" and u32_le_isize: "n \<le> u32_max \<Longrightarrow> n \<le> isize_max"
  by (simp_all add: i32_max_def u32_max_def isize_max_def)

text \<open>The header that announces an answer, and the frame split into header and payload.\<close>

fun answer_head :: "u64 \<Rightarrow> (bytes \<times> bytes option, EncodedErr) result \<Rightarrow> RespHead" where
  "answer_head seq (Ok (msg, blob)) =
     resp_head 0 seq (of_nat (length msg)) (of_nat (length (opt_bytes blob)))"
| "answer_head seq (Err (ENum n)) = resp_head RESP_FLAG_HAS_ERRNO seq n 0"
| "answer_head seq (Err e) =
     resp_head RESP_FLAG_HAS_ERR_STRING seq 0 (of_nat (length (answer_body (Err e))))"

lemma answer_frame_split: "answer_frame seq ans = resp_head_bytes (answer_head seq ans) @ answer_body ans"
  by (cases "(seq, ans)" rule: answer_head.cases) (simp_all add: ok_frame_def)

lemma answer_head_seq [simp]: "rs_seq (answer_head seq ans) = seq"
  by (cases "(seq, ans)" rule: answer_head.cases) (simp_all add: resp_head_def)

lemma recv_error_text:
  assumes bs: "byte_stream io arrived" and "arrived (stream cl) = b @ w" "length b \<le> i32_max"
    and h: "head = resp_head RESP_FLAG_HAS_ERR_STRING seq 0 (of_nat (length b))"
  obtains cl' where "recv_error T io c head t cl = Returns (cl', [deliver_err T c (EBuf b) t], Ok ())"
    "arrived (stream cl') = w"
proof -
  define cl1 where "cl1 = cl\<lparr>resp_buf := take (length b) (resp_buf cl @ replicate (length b) 0)\<rparr>"
  have "arrived (stream cl1) = b @ w" by (simp add: cl1_def assms(2))
  then obtain s where s: "read_exact io (length b) (stream cl1) = (s, Ok b)" "arrived s = w"
    by (rule read_exact_prefix [OF bs])
  have "get_resp_buf (length b) cl = Returns cl1"
    using i32_le_isize [OF assms(3)] by (simp add: get_resp_buf_def cl1_def)
  then show thesis using s
    by (intro that [of "cl1\<lparr>stream := s, resp_buf := b\<rparr>"])
       (auto simp: recv_error_def h resp_head_def RESP_FLAG_HAS_ERR_STRING_def usize_of_nat_i32 [OF assms(3)]
          deliver_err_def text_err_def from_utf8_def split: result.splits)
qed

lemma recv_error_answer:
  assumes "byte_stream io arrived" "arrived (stream cl) = answer_body (Err e) @ w" "sendable (Err e)"
  obtains cl' where "recv_error T io c (answer_head seq (Err e)) t cl
      = Returns (cl', [deliver_err T c e t], Ok ())" "arrived (stream cl') = w"
proof (cases e)
  case (ENum n)
  then show thesis using assms that [of cl]
    by (simp add: recv_error_def resp_head_def RESP_FLAG_HAS_ERRNO_def deliver_err_def)
next
  case (ERpc i)
  then have a: "arrived (stream cl) = as_bytes i @ w" "length (as_bytes i) \<le> i32_max"
      "answer_head seq (Err e) = resp_head RESP_FLAG_HAS_ERR_STRING seq 0 (of_nat (length (as_bytes i)))"
    using assms by simp_all
  show thesis
    by (rule recv_error_text [OF assms(1) a, of T c t]) (rule that, simp_all add: ERpc deliver_err_def)
next
  case (EStatic b)
  then have a: "arrived (stream cl) = b @ w" "length (b) \<le> i32_max"
      "answer_head seq (Err e) = resp_head RESP_FLAG_HAS_ERR_STRING seq 0 (of_nat (length (b)))"
    using assms by simp_all
  show thesis
    by (rule recv_error_text [OF assms(1) a, of T c t]) (rule that, simp_all add: EStatic deliver_err_def)
next
  case (EBuf b)
  then have a: "arrived (stream cl) = b @ w" "length (b) \<le> i32_max"
      "answer_head seq (Err e) = resp_head RESP_FLAG_HAS_ERR_STRING seq 0 (of_nat (length (b)))"
    using assms by simp_all
  show thesis
    by (rule recv_error_text [OF assms(1) a, of T c t]) (rule that, simp_all add: EBuf deliver_err_def)
qed

text \<open>Space for a response blob is reserved exactly as large as announced.\<close>

definition reserves_exactly :: "('c, 't) ClientTask \<Rightarrow> bool" where
  "reserves_exactly T \<longleftrightarrow> (\<forall>sz t len fill.
     reserve_resp_blob T sz t = Some (len, fill) \<longrightarrow> 0 < sint sz \<longrightarrow> len = nat (sint sz))"

lemma recv_finish_msg:
  assumes "resp_buf cl = msg" "0 < rs_msg_len h \<longleftrightarrow> msg \<noteq> []"
  shows "recv_finish T c h t cl = (cl, [deliver_msg T c msg t], Ok ())"
  using assms by (auto simp: recv_finish_def deliver_msg_def split: prod.splits result.splits)

lemma recv_blob_answer:
  assumes bs: "byte_stream io arrived" and res: "reserves_exactly T"
    and a: "arrived (stream cl) = b @ w" and lb: "length b \<le> i32_max"
    and h: "rs_blob_len h = of_nat (length b)" "0 < rs_msg_len h \<longleftrightarrow> resp_buf cl \<noteq> []"
  obtains cl' where "recv_blob T io c h t cl = (cl', [deliver T c (Ok (resp_buf cl, Some b)) t], Ok ())"
    "arrived (stream cl') = w"
proof -
  have sb: "sint (rs_blob_len h) = int (length b)" and ub: "usize_of_i32 (rs_blob_len h) = length b"
    using h lb by (simp_all add: sint_of_nat_i32 usize_of_nat_i32)
  consider (none) "b = []" | (refused) "b \<noteq> []" "reserve_resp_blob T (rs_blob_len h) t = None"
    | (lent) len fill where "b \<noteq> []" "reserve_resp_blob T (rs_blob_len h) t = Some (len, fill)"
    by (cases "reserve_resp_blob T (rs_blob_len h) t") auto
  then show thesis
  proof cases
    case none
    then show thesis using a recv_finish_msg [OF refl h(2)] sb
      by (intro that [of cl]) (simp_all add: recv_blob_def deliver_def opt_bytes_def)
  next
    case refused
    obtain cl2 where "recv_and_dump io (length b) cl = (cl2, Ok ())" "arrived (stream cl2) = w"
      using recv_and_dump_skips [OF bs a] refused(1) lb by auto
    then show thesis using refused sb ub h
      by (intro that [of cl2]) (simp_all add: recv_blob_def deliver_def opt_bytes_def)
  next
    case lent
    have len: "len = length b" using res lent sb by (fastforce simp: reserves_exactly_def)
    obtain s where s: "read_exact io (length b) (stream cl) = (s, Ok b)" "arrived s = w"
      using a by (rule read_exact_prefix [OF bs])
    have "recv_finish T c h (fill b) (cl\<lparr>stream := s\<rparr>)
        = (cl\<lparr>stream := s\<rparr>, [deliver_msg T c (resp_buf cl) (fill b)], Ok ())"
      using h(2) by (intro recv_finish_msg) simp_all
    then show thesis using lent sb s len h(1)
      by (intro that [of "cl\<lparr>stream := s\<rparr>"]) (simp_all add: recv_blob_def deliver_def opt_bytes_def)
  qed
qed

lemma opt_bytes_Some [simp]: "opt_bytes (Some b) = b"
  by (simp add: opt_bytes_def)

lemma deliver_opt_bytes: "deliver T c (Ok (msg, Some (opt_bytes blob))) t = deliver T c (Ok (msg, blob)) t"
  by (simp add: deliver_def split: option.splits)

lemma recv_ok_answer:
  assumes bs: "byte_stream io arrived" and res: "reserves_exactly T"
    and a: "arrived (stream cl) = msg @ opt_bytes blob @ w" and fits: "sendable (Ok (msg, blob))"
    and buf: "length (resp_buf cl) = length msg"
  obtains cl' where "recv_ok T io c (answer_head seq (Ok (msg, blob))) t cl
      = (cl', [deliver T c (Ok (msg, blob)) t], Ok ())" "arrived (stream cl') = w"
proof -
  let ?b = "opt_bytes blob" and ?h = "answer_head seq (Ok (msg, blob))"
  have m: "0 < rs_msg_len ?h \<longleftrightarrow> msg \<noteq> []" and hb: "rs_blob_len ?h = of_nat (length ?b)"
    and lb: "length ?b \<le> i32_max"
    using fits by (simp_all add: resp_head_def of_nat_u32_pos)
  obtain cl1 where c1: "arrived (stream cl1) = ?b @ w" "resp_buf cl1 = msg"
    and r1: "recv_ok T io c ?h t cl = recv_blob T io c ?h t cl1"
  proof (cases "msg = []")
    case True
    then show thesis using a buf m by (intro that [of cl]) (simp_all add: recv_ok_def)
  next
    case False
    obtain s where "read_exact io (length msg) (stream cl) = (s, Ok msg)" "arrived s = ?b @ w"
      using a by (rule read_exact_prefix [OF bs])
    with False buf m show thesis
      by (intro that [of "cl\<lparr>stream := s, resp_buf := msg\<rparr>"]) (simp_all add: recv_ok_def)
  qed
  have m1: "0 < rs_msg_len ?h \<longleftrightarrow> resp_buf cl1 \<noteq> []" using m c1(2) by simp
  show thesis
    by (rule recv_blob_answer [OF bs res c1(1) lb hb m1, of c t])
       (rule that, simp_all only: r1 c1(2) deliver_opt_bytes)
qed

section \<open>Lemmas: reading a response\<close>

lemma waiting_kept:
  "get_resp_buf n cl = Returns cl1 \<Longrightarrow> waiting_reg cl1 = waiting_reg cl"
  "recv_error T io c h t cl = Returns (cl2, out, r) \<Longrightarrow> waiting_reg cl2 = waiting_reg cl"
  "recv_and_dump io n cl = (cl3, r) \<Longrightarrow> waiting_reg cl3 = waiting_reg cl"
  by (auto simp: get_resp_buf_def recv_error_def recv_and_dump_def Let_def
      split: if_splits panics.splits prod.splits result.splits)

lemma waiting_kept_ok: "recv_ok T io c h t cl = (cl', out, r) \<Longrightarrow> waiting_reg cl' = waiting_reg cl"
  by (auto simp: recv_ok_def recv_blob_def recv_finish_def Let_def dest: waiting_kept(3)
      split: if_splits prod.splits result.splits option.splits)

lemma waiting_kept_skip: "recv_skip io h cl = (cl', r) \<Longrightarrow> waiting_reg cl' = waiting_reg cl"
  by (auto simp: recv_skip_def dest: waiting_kept(3) split: if_splits)

text \<open>The response buffer is made ready for the message of an answer.\<close>

lemma get_resp_buf_answer:
  assumes "sendable ans"
  obtains cl1 where "get_resp_buf (unat (rs_msg_len (answer_head seq ans))) cl = Returns cl1"
    "stream cl1 = stream cl" "\<forall>msg blob. ans = Ok (msg, blob) \<longrightarrow> length (resp_buf cl1) = length msg"
proof -
  let ?n = "unat (rs_msg_len (answer_head seq ans))"
  have "?n < 2 ^ 32" using unsigned_less [of "rs_msg_len (answer_head seq ans)"] by simp
  then have g: "get_resp_buf ?n cl = Returns (cl\<lparr>resp_buf := take ?n (resp_buf cl @ replicate ?n 0)\<rparr>)"
    by (simp add: get_resp_buf_def isize_max_def)
  have m: "\<forall>msg blob. ans = Ok (msg, blob) \<longrightarrow> ?n = length msg"
    using assms by (auto simp: resp_head_def unat_of_nat_u32)
  have len: "length (resp_buf (cl\<lparr>resp_buf := take ?n (resp_buf cl @ replicate ?n 0)\<rparr>)) = ?n" by simp
  show thesis
  proof (rule that [OF g])
    show "\<forall>msg blob. ans = Ok (msg, blob) \<longrightarrow>
        length (resp_buf (cl\<lparr>resp_buf := take ?n (resp_buf cl @ replicate ?n 0)\<rparr>)) = length msg"
      unfolding len by (rule m)
  qed simp
qed

lemma decode_answer_head: "resp_decode_head (resp_head_bytes (answer_head seq ans)) = Returns (Ok (answer_head seq ans))"
  by (cases "(seq, ans)" rule: answer_head.cases) simp_all

lemma read_resp_answer:
  assumes bs: "byte_stream io arrived" and w: "waiting_reg cl = None"
    and a: "arrived (stream cl) = answer_frame seq ans @ rest" and fits: "sendable ans"
  obtains cl1 where "arrived (stream cl1) = answer_body ans @ rest" "waiting_reg cl1 = None"
    "\<forall>msg blob. ans = Ok (msg, blob) \<longrightarrow> length (resp_buf cl1) = length msg"
    "tcp_read_resp T io c close tm cl =
       (case recv_body_taken T io c (answer_head seq ans) (take_task T seq tm) cl1 of
          Panic \<Rightarrow> Panic | Returns (tm', cl', out, r) \<Rightarrow> Returns (tm', cl', out, resp_result r))"
proof -
  let ?h = "answer_head seq ans"
  have a': "arrived (stream cl) = resp_head_bytes ?h @ answer_body ans @ rest"
    using a by (simp add: answer_frame_split)
  obtain s where s: "read_head io close cl = (cl\<lparr>stream := s\<rparr>, Ready (Ok (Some (resp_head_bytes ?h))))"
      "arrived s = answer_body ans @ rest"
    by (rule read_head_frame [OF bs a'])
  obtain cl1 where cl1: "get_resp_buf (unat (rs_msg_len ?h)) (cl\<lparr>stream := s\<rparr>) = Returns cl1"
      "stream cl1 = s" "\<forall>msg blob. ans = Ok (msg, blob) \<longrightarrow> length (resp_buf cl1) = length msg"
    by (rule get_resp_buf_answer [OF fits, of seq "cl\<lparr>stream := s\<rparr>"]) auto
  have "waiting_reg cl1 = None" using waiting_kept(1) [OF cl1(1)] w by simp
  then show thesis using s cl1 w
    by (intro that [of cl1]) (simp_all add: tcp_read_resp_def recv_resp_body_def decode_answer_head)
qed

lemma answer_head_flag: "rs_flag (answer_head seq ans) > 0 \<longleftrightarrow> (\<exists>e. ans = Err e)"
  by (cases "(seq, ans)" rule: answer_head.cases)
     (simp_all add: resp_head_def RESP_FLAG_HAS_ERRNO_def RESP_FLAG_HAS_ERR_STRING_def)

lemma skip_len_answer: "skip_len (answer_head seq ans) = of_nat (length (answer_body ans))"
  by (cases "(seq, ans)" rule: answer_head.cases)
     (simp_all add: skip_len_def resp_head_def RESP_FLAG_HAS_ERRNO_def RESP_FLAG_HAS_ERR_STRING_def)

lemma recv_taken_answer:
  assumes bs: "byte_stream io arrived" and res: "reserves_exactly T" and fits: "sendable ans"
    and a: "arrived (stream cl) = answer_body ans @ rest" and w: "waiting_reg cl = None"
    and buf: "\<forall>msg blob. ans = Ok (msg, blob) \<longrightarrow> length (resp_buf cl) = length msg"
  obtains cl' where "recv_body_taken T io c (answer_head seq ans) (tm, Ready (Some t)) cl
      = Returns (tm, cl', [deliver T c ans t], Ready (Ok ()))"
    "arrived (stream cl') = rest" "waiting_reg cl' = None"
proof (cases ans)
  case (Err e)
  obtain cl' where r: "recv_error T io c (answer_head seq (Err e)) t cl = Returns (cl', [deliver_err T c e t], Ok ())"
      "arrived (stream cl') = rest"
    using recv_error_answer [OF bs] a fits Err by metis
  then show thesis using w waiting_kept(2) [OF r(1)] Err answer_head_flag [of seq ans]
    by (intro that [of cl']) (simp_all add: recv_body_taken_def deliver_def)
next
  case (Ok p)
  obtain msg blob where p: "p = (msg, blob)" by force
  have "arrived (stream cl) = msg @ opt_bytes blob @ rest" "sendable (Ok (msg, blob))"
      "length (resp_buf cl) = length msg"
    using a fits buf Ok p by auto
  then obtain cl' where r: "recv_ok T io c (answer_head seq (Ok (msg, blob))) t cl
      = (cl', [deliver T c (Ok (msg, blob)) t], Ok ())" "arrived (stream cl') = rest"
    by (rule recv_ok_answer [OF bs res])
  have "\<not> rs_flag (answer_head seq ans) > 0" using answer_head_flag [of seq ans] Ok by simp
  then show thesis using w waiting_kept_ok [OF r(1)] r Ok p
    by (intro that [of cl']) (simp_all add: recv_body_taken_def)
qed

section \<open>Properties\<close>

lemma read_resp_delivers:
  assumes "byte_stream io arrived" and "reserves_exactly T" and "timer_inv T tm"
    and "task_with T seq (timeline tm) = Some t" and "reg_stopped_flag tm \<longrightarrow> seq \<le> processed_seq tm"
    and "waiting_reg cl = None" and "arrived (stream cl) = answer_frame seq ans @ rest" and "sendable ans"
  shows "\<exists>tm' cl'. tcp_read_resp T io c close tm cl
      = Returns (tm', cl', [deliver T c ans t], Ready (Ok True))
    \<and> arrived (stream cl') = rest \<and> waiting_reg cl' = None
    \<and> timeline tm' = without T seq (timeline tm) \<and> timer_inv T tm'"
proof -
  obtain cl1 where c: "arrived (stream cl1) = answer_body ans @ rest" "waiting_reg cl1 = None"
      "\<forall>msg blob. ans = Ok (msg, blob) \<longrightarrow> length (resp_buf cl1) = length msg"
      "tcp_read_resp T io c close tm cl =
       (case recv_body_taken T io c (answer_head seq ans) (take_task T seq tm) cl1 of
          Panic \<Rightarrow> Panic | Returns (tm', cl', out, r) \<Rightarrow> Returns (tm', cl', out, resp_result r))"
    by (rule read_resp_answer [OF assms(1,6-8)])
  note tk = take_task_core [OF assms(3,5)]
  obtain tm' where t: "take_task T seq tm = (tm', Ready (Some t))"
    using tk assms(4) by (metis option.simps(5) prod.collapse)
  obtain cl' where "recv_body_taken T io c (answer_head seq ans) (tm', Ready (Some t)) cl1
      = Returns (tm', cl', [deliver T c ans t], Ready (Ok ()))"
    "arrived (stream cl') = rest" "waiting_reg cl' = None"
    by (rule recv_taken_answer [OF assms(1,2,8) c(1-3)])
  then show ?thesis using c(4) t tk by (simp add: resp_result_def)
qed

text \<open>
  C9: the client delivers what the server answered. When the frame of an answer has arrived
  and its task waits, in whichever stage of the timer, one read of a response hands exactly
  that task over with exactly what the answer says: the decoded message and blob, the user's
  error or the internal error; it consumes exactly the frame and removes exactly the task.
\<close>

theorem tcp_delivers_answer:
  assumes "byte_stream io arrived" and "reserves_exactly T" and "timer_inv T tm"
    and "task_with T seq (timeline tm) = Some t" and "reg_stopped_flag tm \<longrightarrow> seq \<le> processed_seq tm"
    and "waiting_reg cl = None" and "arrived (stream cl) = answer_frame seq ans @ rest" and "sendable ans"
  shows "\<exists>tm' cl'. tcp_read_resp T io c close tm cl
      = Returns (tm', cl', [deliver T c ans t], Ready (Ok True))
    \<and> arrived (stream cl') = rest \<and> waiting_reg cl' = None
    \<and> timeline tm' = without T seq (timeline tm) \<and> timer_inv T tm'"
  by (rule read_resp_delivers [OF assms])

text \<open>
  A response nobody waits for any more, because its task timed out, is skipped exactly:
  the next read starts at the next frame, nothing is handed over and no task is touched.
\<close>

lemma tcp_skips_unclaimed:
  assumes "byte_stream io arrived" and "timer_inv T tm"
    and "task_with T seq (timeline tm) = None" and "seq \<le> processed_seq tm"
    and "waiting_reg cl = None" and "arrived (stream cl) = answer_frame seq ans @ rest" and "sendable ans"
    and "length (answer_body ans) \<le> i32_max"
  shows "\<exists>tm' cl'. tcp_read_resp T io c close tm cl = Returns (tm', cl', [], Ready (Ok True))
    \<and> arrived (stream cl') = rest \<and> waiting_reg cl' = None \<and> timeline tm' = timeline tm"
proof -
  let ?h = "answer_head seq ans" and ?n = "length (answer_body ans)"
  obtain cl1 where c: "arrived (stream cl1) = answer_body ans @ rest" "waiting_reg cl1 = None"
      "tcp_read_resp T io c close tm cl =
       (case recv_body_taken T io c ?h (take_task T seq tm) cl1 of
          Panic \<Rightarrow> Panic | Returns (tm', cl', out, r) \<Rightarrow> Returns (tm', cl', out, resp_result r))"
    by (rule read_resp_answer [OF assms(1,5-7)])
  have tk: "snd (take_task T seq tm) = Ready None" "timeline (fst (take_task T seq tm)) = timeline tm"
    using take_task_core [OF assms(2), of seq] assms(3,4) processed_le_newest [OF assms(2)]
    by (auto simp: without_absent)
  have n: "unat (skip_len ?h) = ?n" "0 < skip_len ?h \<longleftrightarrow> 0 < ?n"
    using assms(8) by (simp_all add: skip_len_answer unat_of_nat_u32 of_nat_u32_pos i32_max_def u32_max_def)
  obtain cl' where k: "recv_skip io ?h cl1 = (cl', Ok ())" "arrived (stream cl') = rest"
  proof (cases "?n = 0")
    case True
    then show thesis using c(1) n by (intro that [of cl1]) (simp_all add: recv_skip_def)
  next
    case False
    then obtain cl' where "recv_and_dump io ?n cl1 = (cl', Ok ())" "arrived (stream cl') = rest"
      using recv_and_dump_skips [OF assms(1) c(1)] assms(8) by auto
    then show thesis using False n by (intro that [of cl']) (simp_all add: recv_skip_def)
  qed
  have "waiting_reg cl' = None" using waiting_kept_skip [OF k(1)] c(2) by simp
  then show ?thesis using c(3) tk k
    by (cases "take_task T seq tm") (simp add: recv_body_taken_def resp_result_def)
qed

text \<open>
  C30: the answer to a ping stops the reader. Its number is newer than every registered
  task, so the read waits for a registration; however often it is polled again, and
  whatever has arrived behind the ping's answer, nothing is read until a newer task is
  registered or registration stops.
\<close>

theorem tcp_ping_answer_stalls:
  assumes "byte_stream io arrived" and "timer_inv T tm" and "\<not> reg_stopped_flag tm"
    and "newest T tm < seq" and "waiting_reg cl = None"
    and "arrived (stream cl) = answer_frame seq (Ok ([], None)) @ rest"
  shows "\<exists>tm' cl'. tcp_read_resp T io c close tm cl = Returns (tm', cl', [], Pending)
    \<and> arrived (stream cl') = rest
    \<and> (\<forall>tm2 c2 close2. timer_inv T tm2 \<and> \<not> reg_stopped_flag tm2 \<and> newest T tm2 < seq \<longrightarrow>
        (\<exists>tm3. tcp_read_resp T io c2 close2 tm2 cl' = Returns (tm3, cl', [], Pending)
           \<and> timeline tm3 = timeline tm2))"
proof -
  let ?h = "answer_head seq (Ok ([], None))"
  have fits: "sendable (Ok ([], None))" by (simp add: opt_bytes_def)
  obtain cl1 where c: "arrived (stream cl1) = rest" "waiting_reg cl1 = None"
      "tcp_read_resp T io c close tm cl =
       (case recv_body_taken T io c ?h (take_task T seq tm) cl1 of
          Panic \<Rightarrow> Panic | Returns (tm', cl', out, r) \<Rightarrow> Returns (tm', cl', out, resp_result r))"
    by (rule read_resp_answer [OF assms(1,5,6) fits]) (simp_all add: opt_bytes_def)
  have "snd (take_task T seq tm) = Pending"
    using take_task_core [OF assms(2), of seq] assms(3,4) absent_beyond_newest [OF assms(2,4)] by simp
  then have first: "tcp_read_resp T io c close tm cl
      = Returns (fst (take_task T seq tm), cl1\<lparr>waiting_reg := Some ?h\<rparr>, [], Pending)"
    using c(3) by (cases "take_task T seq tm") (simp add: recv_body_taken_def resp_result_def)
  have again: "tcp_read_resp T io c2 close2 tm2 (cl1\<lparr>waiting_reg := Some ?h\<rparr>)
      = Returns (recv_all T (pending_tasks tm2) tm2, cl1\<lparr>waiting_reg := Some ?h\<rparr>, [], Pending)"
    if "timer_inv T tm2" "\<not> reg_stopped_flag tm2" "newest T tm2 < seq" for tm2 c2 close2
  proof -
    have "processed_seq tm2 < seq" using processed_le_newest [OF that(1)] that(3) by simp
    then have "take_task_resume T seq tm2 = (recv_all T (pending_tasks tm2) tm2, Pending)"
      using wait_reg_poll_cases [OF that(1)] that(2) not_le [of seq "newest T tm2"] that(3)
      by (simp add: take_task_resume_def)
    then show ?thesis
      by (simp add: tcp_read_resp_def recv_body_taken_def resp_result_def del: answer_head.simps)
  qed
  have same: "timeline (recv_all T (pending_tasks tm2) tm2) = timeline tm2" if "timer_inv T tm2" for tm2
    using recv_all_facts [OF that] by blast
  show ?thesis
    using first again same c(1)
    by (intro exI [of _ "fst (take_task T seq tm)"] exI [of _ "cl1\<lparr>waiting_reg := Some ?h\<rparr>"]) auto
qed

section \<open>Witnesses\<close>

text \<open>A socket whose state is the bytes that have arrived.\<close>

definition list_io :: "bytes Io" where
  "list_io = \<lparr>poll_read_exact = \<lambda>n s. if n \<le> length s then (drop n s, Ready (Ok (take n s))) else (s, Pending),
     read_exact = \<lambda>n s. if n \<le> length s then (drop n s, Ok (take n s)) else (s, Err []),
     write_all = \<lambda>b s. (s, Ok ()), io_flush = \<lambda>s. (s, Ok ()), shutdown_write = \<lambda>s. s,
     alloc = \<lambda>n. 0 < sint n\<rparr>"

lemma list_io_stream: "byte_stream list_io (\<lambda>s. s)"
  by (simp add: byte_stream_def list_io_def)

lemma probe_reserves: "reserves_exactly probe_task"
  by (simp add: reserves_exactly_def probe_task_def default_reserve_resp_blob_def)

definition demo_client :: "bytes \<Rightarrow> bytes TcpClient" where
  "demo_client b = \<lparr>stream = b, resp_buf = [], waiting_reg = None\<rparr>"

lemma demo_client_fields:
  "waiting_reg (demo_client b) = None" "stream (demo_client b) = b"
  by (simp_all add: demo_client_def)

lemma demo_timer_facts:
  "timer_inv probe_task demo_sent" "\<not> reg_stopped_flag demo_sent" "timeline demo_sent = [(1, None)]"
  "processed_seq demo_sent = 1" "newest probe_task demo_sent = 1"
  by (simp_all add: demo_simps)

theorem tcp_delivers_answer_witness:
  "\<exists>tm' cl'. tcp_read_resp probe_task list_io () None demo_sent
      (demo_client (answer_frame 1 (Err (ERpc Internal)) @ [7]))
    = Returns (tm', cl', [Error_Handle (1, Some Internal)], Ready (Ok True)) \<and> stream cl' = [7]"
proof -
  have w: "task_with probe_task 1 (timeline demo_sent) = Some (1, None)"
    by (simp add: demo_timer_facts(3) probe_task_def)
  have fits: "sendable (Err (ERpc Internal))"
    by (simp add: i32_max_def as_bytes_def)
  have d: "deliver probe_task () (Err (ERpc Internal)) (1, None) = Error_Handle (1, Some Internal)"
    by (simp add: deliver_def deliver_err_def) (simp add: probe_task_def)
  show ?thesis
    using tcp_delivers_answer [OF list_io_stream probe_reserves demo_timer_facts(1) w _
        demo_client_fields(1), where ans = "Err (ERpc Internal)" and rest = "[7]" and c = "()" and close = None]
      fits d demo_timer_facts(2) demo_client_fields(2) by fastforce
qed

theorem tcp_ping_answer_stalls_witness:
  "\<exists>tm' cl'. tcp_read_resp probe_task list_io () None demo_sent
      (demo_client (answer_frame 2 (Ok ([], None)) @ answer_frame 1 (Err (ENum 5))))
    = Returns (tm', cl', [], Pending) \<and> stream cl' = answer_frame 1 (Err (ENum 5))"
  using tcp_ping_answer_stalls [OF list_io_stream demo_timer_facts(1,2) _ demo_client_fields(1),
      where seq = 2 and rest = "answer_frame 1 (Err (ENum 5))" and c = "()" and close = None]
    demo_timer_facts(5) demo_client_fields(2) by fastforce

end
