(* ===== verification/Conn_Pool.thy ===== *)
theory Conn_Pool
  imports Rpc_Task "HOL-Library.Multiset"
begin

text \<open>
  \<open>ConnPool\<close> of \<open>src/stream/src/client/pool.rs\<close>: a bounded channel of tasks for one
  address and the worker coroutines that drain it. The worker with id 0 is the monitor: it
  pings the address, sends tasks itself while it is alone, and hands its role to a fresh
  worker when it gets busy. What the connection answers (connecting, pinging, sending,
  flushing, whether tasks are in flight) is an argument of each step; a task given to a
  stream is from then on in the care of \<open>Client_Stream\<close>.
\<close>

section \<open>State\<close>

text \<open>
  Where a worker waits: about to connect, at the top of the monitor loop, sleeping before a
  ping while others run, receiving as a lone monitor, in the outer and the inner loop of \<open>_run_worker\<close>, sleeping before
  the next attempt, or returned.
\<close>

datatype pool_pc = At_Connect | At_Monitor | At_Mon_Sleep | At_Mon_Recv | At_Recv | At_Drain | At_Backoff | At_End

record pool_worker =
  worker_id :: nat
  wpc :: pool_pc

record 't ConnPool =
  chan :: "'t list"
  chan_cap :: nat
  tx_alive :: bool
  is_ok :: bool
  worker_count :: nat
  connected_worker_count :: nat
  workers :: "pool_worker list"

text \<open>What leaves the pool: a task handed to a stream, or one reported as unreachable.\<close>

datatype 't pool_out = Handed 't | Reported 't

section \<open>Operations\<close>

definition channel_size_of :: "nat \<Rightarrow> nat \<Rightarrow> nat" where
  "channel_size_of thr sz =
    (if thr > 0 then (if sz < thr then thr else sz) else if sz = 0 then 128 else sz)"

text \<open>\<open>ConnPool::spawn\<close> counts the worker and takes the old count as its id.\<close>

definition pool_spawn :: "'t ConnPool \<Rightarrow> 't ConnPool" where
  "pool_spawn p = p\<lparr>worker_count := worker_count p + 1,
     workers := workers p @ [\<lparr>worker_id = worker_count p, wpc = At_Connect\<rparr>]\<rparr>"

definition pool_new :: "nat \<Rightarrow> nat \<Rightarrow> 't ConnPool" where
  "pool_new thr sz = pool_spawn \<lparr>chan = [], chan_cap = channel_size_of thr sz, tx_alive = True,
     is_ok = True, worker_count = 0, connected_worker_count = 0, workers = []\<rparr>"

text \<open>\<open>send_req\<close> and \<open>send_req_blocking\<close> wait (\<open>None\<close>) while the channel is full.\<close>

definition pool_send_req :: "'t \<Rightarrow> 't ConnPool \<Rightarrow> 't ConnPool option" where
  "pool_send_req t p = (if length (chan p) < chan_cap p then Some (p\<lparr>chan := chan p @ [t]\<rparr>) else None)"

definition is_healthy :: "'t ConnPool \<Rightarrow> bool" where
  "is_healthy p = is_ok p"

definition set_err :: "'t ConnPool \<Rightarrow> 't ConnPool" where
  "set_err p = p\<lparr>is_ok := False\<rparr>"

definition cleanup :: "('c, 't) ClientTask \<Rightarrow> 't ConnPool \<Rightarrow> 't ConnPool \<times> 't pool_out list" where
  "cleanup T p = (p\<lparr>chan := []\<rparr>, map (\<lambda>t. Reported (set_rpc_error T Unreachable t)) (chan p))"

text \<open>The end of the coroutine: \<open>run\<close> has returned and the worker is no longer counted.\<close>

definition worker_exit :: "'t ConnPool \<Rightarrow> pool_worker \<Rightarrow> 't ConnPool \<times> pool_worker" where
  "worker_exit p w = (p\<lparr>worker_count := worker_count p - 1\<rparr>, w\<lparr>wpc := At_End\<rparr>)"

text \<open>Entering \<open>run_worker\<close>, and leaving it with a result; both count up.\<close>

definition run_worker_enter :: "'t ConnPool \<Rightarrow> pool_worker \<Rightarrow> 't ConnPool \<times> pool_worker" where
  "run_worker_enter p w = (p\<lparr>connected_worker_count := connected_worker_count p + 1\<rparr>, w\<lparr>wpc := At_Recv\<rparr>)"

definition run_worker_leave :: "bool \<Rightarrow> 't ConnPool \<Rightarrow> pool_worker \<Rightarrow> 't ConnPool \<times> pool_worker" where
  "run_worker_leave ok p w =
    (let p1 = p\<lparr>connected_worker_count := connected_worker_count p + 1\<rparr>;
         p2 = (if ok then p1 else set_err p1)
     in worker_exit p2 w)"

text \<open>A step of \<open>run\<close> at each of its waiting points.\<close>

definition on_connect ::
  "('c, 't) ClientTask \<Rightarrow> bool \<Rightarrow> 't ConnPool \<Rightarrow> pool_worker
   \<Rightarrow> 't ConnPool \<times> pool_worker \<times> 't pool_out list" where
  "on_connect T ok p w =
    (if ok then
       (if worker_id w = 0 then (p, w\<lparr>wpc := At_Monitor\<rparr>, [])
        else (let (p', w') = run_worker_enter p w in (p', w', [])))
     else (let (p', out) = cleanup T (set_err p) in (p', w\<lparr>wpc := At_Backoff\<rparr>, out)))"

text \<open>The monitor looks at the worker count; with other workers it sleeps, then pings.\<close>

definition on_monitor :: "'t ConnPool \<Rightarrow> pool_worker \<Rightarrow> 't ConnPool \<times> pool_worker \<times> 't pool_out list" where
  "on_monitor p w = (p, w\<lparr>wpc := if worker_count p > 1 then At_Mon_Sleep else At_Mon_Recv\<rparr>, [])"

definition on_monitor_ping ::
  "bool \<Rightarrow> 't ConnPool \<Rightarrow> pool_worker \<Rightarrow> 't ConnPool \<times> pool_worker \<times> 't pool_out list" where
  "on_monitor_ping ok p w =
    (if ok then (p, w\<lparr>wpc := At_Monitor\<rparr>, []) else (set_err p, w\<lparr>wpc := At_Connect\<rparr>, []))"

text \<open>The monitor alone: no task for a second, so ping.\<close>

definition on_monitor_timeout ::
  "('c, 't) ClientTask \<Rightarrow> bool \<Rightarrow> 't ConnPool \<Rightarrow> pool_worker
   \<Rightarrow> 't ConnPool \<times> pool_worker \<times> 't pool_out list" where
  "on_monitor_timeout T ok p w =
    (if ok then (p, w\<lparr>wpc := At_Monitor\<rparr>, [])
     else (let (p', out) = cleanup T (set_err p) in (p', w\<lparr>wpc := At_Connect\<rparr>, out)))"

text \<open>
  The monitor alone gets a task. When its stream is busy it becomes worker 1 and a new
  monitor is started (the compare-and-exchange of the count from 1 to 2); then it sends.
\<close>

definition monitor_takeover :: "bool \<Rightarrow> 't ConnPool \<Rightarrow> pool_worker \<Rightarrow> 't ConnPool \<times> pool_worker" where
  "monitor_takeover inflight p w =
    (if inflight \<and> worker_count p = 1
     then (p\<lparr>worker_count := 2, workers := workers p @ [\<lparr>worker_id = 0, wpc = At_Connect\<rparr>]\<rparr>, w\<lparr>worker_id := 1\<rparr>)
     else (p, w))"

definition on_monitor_task ::
  "('c, 't) ClientTask \<Rightarrow> 't \<Rightarrow> bool \<Rightarrow> bool \<Rightarrow> 't ConnPool \<Rightarrow> pool_worker
   \<Rightarrow> 't ConnPool \<times> pool_worker \<times> 't pool_out list" where
  "on_monitor_task T t inflight sent p w =
    (let (p1, w1) = monitor_takeover inflight p w
     in if \<not> sent then
          (let p2 = set_err p1
           in if worker_id w1 = 0
              then (let (p3, out) = cleanup T p2 in (p3, w1\<lparr>wpc := At_Backoff\<rparr>, Handed t # out))
              else (let (p3, w3) = worker_exit p2 w1 in (p3, w3, [Handed t])))
        else if worker_id w1 > 0 then (let (p2, w2) = run_worker_enter p1 w1 in (p2, w2, [Handed t]))
        else (p1, w1\<lparr>wpc := At_Monitor\<rparr>, [Handed t]))"

text \<open>\<open>_run_worker\<close>: a task received in the outer or the inner loop, the channel empty, the end.\<close>

definition on_worker_task ::
  "'t \<Rightarrow> bool \<Rightarrow> 't ConnPool \<Rightarrow> pool_worker \<Rightarrow> 't ConnPool \<times> pool_worker \<times> 't pool_out list" where
  "on_worker_task t sent p w =
    (if sent then (p, w\<lparr>wpc := At_Drain\<rparr>, [Handed t])
     else (let (p', w') = run_worker_leave False p w in (p', w', [Handed t])))"

definition on_worker_flush ::
  "bool \<Rightarrow> 't ConnPool \<Rightarrow> pool_worker \<Rightarrow> 't ConnPool \<times> pool_worker \<times> 't pool_out list" where
  "on_worker_flush ok p w =
    (if ok then (p, w\<lparr>wpc := At_Recv\<rparr>, [])
     else (let (p', w') = run_worker_leave False p w in (p', w', [])))"

definition on_worker_disconnected ::
  "bool \<Rightarrow> 't ConnPool \<Rightarrow> pool_worker \<Rightarrow> 't ConnPool \<times> pool_worker \<times> 't pool_out list" where
  "on_worker_disconnected ok p w = (let (p', w') = run_worker_leave ok p w in (p', w', []))"

section \<open>Runs\<close>

text \<open>Which step a worker can take at its waiting point.\<close>

inductive worker_turn ::
  "('c, 't) ClientTask \<Rightarrow> 't ConnPool \<Rightarrow> pool_worker \<Rightarrow> 't ConnPool \<Rightarrow> pool_worker \<Rightarrow> 't pool_out list \<Rightarrow> bool"
  for T where
  wt_connect: "wpc w = At_Connect \<Longrightarrow> on_connect T ok p w = (p', w', out) \<Longrightarrow> worker_turn T p w p' w' out"
| wt_backoff: "wpc w = At_Backoff \<Longrightarrow> worker_turn T p w p (w\<lparr>wpc := At_Connect\<rparr>) []"
| wt_monitor: "wpc w = At_Monitor \<Longrightarrow> on_monitor p w = (p', w', out) \<Longrightarrow> worker_turn T p w p' w' out"
| wt_ping: "wpc w = At_Mon_Sleep \<Longrightarrow> on_monitor_ping ok p w = (p', w', out) \<Longrightarrow> worker_turn T p w p' w' out"
| wt_timeout: "wpc w = At_Mon_Recv \<Longrightarrow> on_monitor_timeout T ok p w = (p', w', out)
    \<Longrightarrow> worker_turn T p w p' w' out"
| wt_gone: "wpc w = At_Mon_Recv \<Longrightarrow> chan p = [] \<Longrightarrow> \<not> tx_alive p \<Longrightarrow> worker_exit p w = (p', w')
    \<Longrightarrow> worker_turn T p w p' w' []"
| wt_task: "wpc w = At_Mon_Recv \<Longrightarrow> chan p = t # ts
    \<Longrightarrow> on_monitor_task T t inflight sent (p\<lparr>chan := ts\<rparr>) w = (p', w', out) \<Longrightarrow> worker_turn T p w p' w' out"
| wt_recv: "wpc w = At_Recv \<or> wpc w = At_Drain \<Longrightarrow> chan p = t # ts
    \<Longrightarrow> on_worker_task t sent (p\<lparr>chan := ts\<rparr>) w = (p', w', out) \<Longrightarrow> worker_turn T p w p' w' out"
| wt_flush: "wpc w = At_Drain \<Longrightarrow> chan p = [] \<Longrightarrow> on_worker_flush ok p w = (p', w', out)
    \<Longrightarrow> worker_turn T p w p' w' out"
| wt_disconnected: "wpc w = At_Recv \<Longrightarrow> chan p = [] \<Longrightarrow> \<not> tx_alive p
    \<Longrightarrow> on_worker_disconnected ok p w = (p', w', out) \<Longrightarrow> worker_turn T p w p' w' out"

text \<open>
  A step of the pool: a caller submits or spawns, a worker takes a turn, the last handle
  with the sending side goes, and with the last worker the pool itself is dropped.
\<close>

datatype 't pool_label = Submit 't | Spawn | Turn "'t pool_out list" | Close

inductive pool_step ::
  "('c, 't) ClientTask \<Rightarrow> 't ConnPool \<Rightarrow> 't pool_label \<Rightarrow> 't ConnPool \<Rightarrow> bool" for T where
  ps_submit: "tx_alive p \<Longrightarrow> pool_send_req t p = Some p' \<Longrightarrow> pool_step T p (Submit t) p'"
| ps_spawn: "tx_alive p \<Longrightarrow> pool_step T p Spawn (pool_spawn p)"
| ps_turn: "i < length (workers p) \<Longrightarrow> worker_turn T p (workers p ! i) p' w' out
    \<Longrightarrow> pool_step T p (Turn out) (p'\<lparr>workers := (workers p')[i := w']\<rparr>)"
| ps_close: "pool_step T p Close (p\<lparr>tx_alive := False\<rparr>)"
| ps_drop: "\<not> tx_alive p \<Longrightarrow> \<forall>w \<in> set (workers p). wpc w = At_End \<Longrightarrow> cleanup T p = (p', out)
    \<Longrightarrow> pool_step T p (Turn out) p'"

inductive pool_run ::
  "('c, 't) ClientTask \<Rightarrow> 't ConnPool \<Rightarrow> 't pool_label list \<Rightarrow> 't ConnPool \<Rightarrow> bool" for T where
  pr_nil: "pool_run T p [] p"
| pr_snoc: "pool_run T p ls p' \<Longrightarrow> pool_step T p' l p'' \<Longrightarrow> pool_run T p (ls @ [l]) p''"

section \<open>The books of a run\<close>

fun submitted :: "'t pool_label list \<Rightarrow> 't list" where
  "submitted [] = []"
| "submitted (Submit t # ls) = t # submitted ls"
| "submitted (_ # ls) = submitted ls"

fun outs_of :: "'t pool_label list \<Rightarrow> 't pool_out list" where
  "outs_of [] = []"
| "outs_of (Turn out # ls) = out @ outs_of ls"
| "outs_of (_ # ls) = outs_of ls"

fun handed :: "'t pool_out list \<Rightarrow> 't list" where
  "handed [] = []"
| "handed (Handed t # os) = t # handed os"
| "handed (Reported t # os) = handed os"

fun reported_out :: "'t pool_out list \<Rightarrow> 't list" where
  "reported_out [] = []"
| "reported_out (Handed t # os) = reported_out os"
| "reported_out (Reported t # os) = t # reported_out os"

lemma pool_books_append [simp]:
  "submitted (ls @ ls') = submitted ls @ submitted ls'" "outs_of (ls @ ls') = outs_of ls @ outs_of ls'"
  by (induction ls rule: outs_of.induct) simp_all

lemma handed_append [simp]: "handed (a @ b) = handed a @ handed b"
  by (induction a rule: handed.induct) simp_all

lemma reported_append [simp]: "reported_out (a @ b) = reported_out a @ reported_out b"
  by (induction a rule: handed.induct) simp_all

lemma handed_map [simp]: "handed (map (\<lambda>t. Reported (f t)) ts) = []"
  by (induction ts) simp_all

lemma reported_map [simp]: "reported_out (map (\<lambda>t. Reported (f t)) ts) = map f ts"
  by (induction ts) simp_all

lemmas pool_defs = on_connect_def on_monitor_def on_monitor_ping_def on_monitor_timeout_def
  on_monitor_task_def monitor_takeover_def on_worker_task_def on_worker_flush_def
  on_worker_disconnected_def run_worker_enter_def run_worker_leave_def worker_exit_def
  cleanup_def set_err_def Let_def

text \<open>A turn takes from the channel exactly what it hands over or reports.\<close>

lemma turn_books:
  assumes "worker_turn T p w p' w' out"
  shows "\<exists>rep. reported_out out = map (set_rpc_error T Unreachable) rep
    \<and> mset (chan p) = mset (handed out) + mset rep + mset (chan p')"
  using assms
  by cases (auto simp: pool_defs split: if_splits intro: exI [of _ "[]"])

text \<open>No turn makes the pool healthy or lowers the number of connected workers.\<close>

lemma turn_health:
  assumes "worker_turn T p w p' w' out"
  shows "(is_ok p' \<longrightarrow> is_ok p) \<and> connected_worker_count p \<le> connected_worker_count p' \<and> tx_alive p' = tx_alive p"
  using assms by cases (auto simp: pool_defs split: if_splits)

section \<open>The workers\<close>

definition live :: "pool_worker \<Rightarrow> bool" where
  "live w \<longleftrightarrow> wpc w \<noteq> At_End"

definition is_monitor :: "pool_worker \<Rightarrow> bool" where
  "is_monitor w \<longleftrightarrow> live w \<and> worker_id w = 0"

abbreviation num :: "(pool_worker \<Rightarrow> bool) \<Rightarrow> 't ConnPool \<Rightarrow> nat" where
  "num P p \<equiv> length (filter P (workers p))"

text \<open>Only the monitor runs the monitor's code, and never the worker's.\<close>

definition role_ok :: "pool_worker \<Rightarrow> bool" where
  "role_ok w \<longleftrightarrow> (wpc w \<in> {At_Monitor, At_Mon_Sleep, At_Mon_Recv} \<longrightarrow> worker_id w = 0)
     \<and> (wpc w \<in> {At_Recv, At_Drain} \<longrightarrow> worker_id w > 0)"

definition pool_inv :: "'t ConnPool \<Rightarrow> bool" where
  "pool_inv p \<longleftrightarrow> worker_count p = num live p \<and> (tx_alive p \<longrightarrow> num is_monitor p = 1)
     \<and> (\<forall>w \<in> set (workers p). role_ok w)"

lemma length_filter_update:
  "i < length xs \<Longrightarrow> length (filter P (xs[i := x])) + (if P (xs ! i) then 1 else 0)
     = length (filter P xs) + (if P x then 1 else 0)"
proof (induction xs arbitrary: i)
  case (Cons y xs)
  then show ?case by (cases i) auto
qed simp

lemma num_pos: "i < length (workers p) \<Longrightarrow> P (workers p ! i) \<Longrightarrow> 0 < num P p"
  by (auto simp: filter_empty_conv intro: nth_mem)

lemma monitors_live: "length (filter is_monitor ws) \<le> length (filter live ws)"
  by (induction ws) (auto simp: is_monitor_def)

text \<open>
  What a turn does to the workers: it may append a monitor when the worker gives up that
  role, and it is counted out when it ends.
\<close>

lemma turn_workers:
  assumes "worker_turn T p w p' w' out" "role_ok w" "live w \<Longrightarrow> 0 < worker_count p"
  shows "role_ok w'
    \<and> ((workers p' = workers p \<and> worker_id w' = worker_id w
          \<and> worker_count p' = (if live w' then worker_count p else worker_count p - 1)
          \<and> (is_monitor w \<and> \<not> live w' \<longrightarrow> \<not> tx_alive p))
       \<or> (worker_count p = 1 \<and> is_monitor w \<and> worker_id w' = 1
          \<and> workers p' = workers p @ [\<lparr>worker_id = 0, wpc = At_Connect\<rparr>]
          \<and> worker_count p' = (if live w' then 2 else 1)))
    \<and> live w"
  using assms
  by cases (auto simp: pool_defs role_ok_def live_def is_monitor_def split: if_splits)

lemma pool_turn_inv:
  assumes "i < length (workers p)" "worker_turn T p (workers p ! i) p1 w' out"
    and "p' = p1\<lparr>workers := (workers p1)[i := w']\<rparr>" and "pool_inv p"
  shows "pool_inv p'"
proof -
  let ?w = "workers p ! i"
  have role: "role_ok ?w" using assms(4) assms(1) by (simp add: pool_inv_def)
  have pos: "live ?w \<Longrightarrow> 0 < worker_count p"
    using num_pos [OF assms(1)] assms(4) by (simp add: pool_inv_def)
  note t = turn_workers [OF assms(2) role pos]
  have tx: "tx_alive p1 = tx_alive p" using turn_health [OF assms(2)] by simp
  have "set (workers p1) \<subseteq> insert \<lparr>worker_id = 0, wpc = At_Connect\<rparr> (set (workers p))"
    using t by force
  then have "set ((workers p1)[i := w']) \<subseteq> {w', \<lparr>worker_id = 0, wpc = At_Connect\<rparr>} \<union> set (workers p)"
    using set_update_subset_insert [of "workers p1" i w'] by blast
  moreover have "role_ok w'" "role_ok \<lparr>worker_id = 0, wpc = At_Connect\<rparr>" "\<forall>w \<in> set (workers p). role_ok w"
    using t assms(4) by (simp_all add: pool_inv_def role_ok_def)
  ultimately have roles: "\<forall>w \<in> set ((workers p1)[i := w']). role_ok w" by blast
  have live: "length (filter live ((workers p)[i := w'])) + 1 = num live p + (if live w' then 1 else 0)"
    and mon: "length (filter is_monitor ((workers p)[i := w'])) + (if is_monitor ?w then 1 else 0)
      = num is_monitor p + (if is_monitor w' then 1 else 0)"
    using length_filter_update [OF assms(1), of live w'] length_filter_update [OF assms(1), of is_monitor w'] t
    by simp_all
  from t consider
      (stay) "workers p1 = workers p" "worker_id w' = worker_id ?w"
        "worker_count p1 = (if live w' then worker_count p else worker_count p - 1)"
        "is_monitor ?w \<and> \<not> live w' \<longrightarrow> \<not> tx_alive p" "live ?w"
    | (takeover) "worker_count p = 1" "is_monitor ?w" "worker_id w' = 1"
        "workers p1 = workers p @ [\<lparr>worker_id = 0, wpc = At_Connect\<rparr>]"
        "worker_count p1 = (if live w' then 2 else 1)" by blast
  then show ?thesis
  proof cases
    case stay
    then show ?thesis using live mon assms(4) roles tx assms(3)
      by (auto simp: pool_inv_def is_monitor_def split: if_splits)
  next
    case takeover
    have "(workers p1)[i := w'] = (workers p)[i := w'] @ [\<lparr>worker_id = 0, wpc = At_Connect\<rparr>]"
      using takeover(4) assms(1) by (simp add: list_update_append1)
    then have ws: "workers p' = (workers p)[i := w'] @ [\<lparr>worker_id = 0, wpc = At_Connect\<rparr>]"
      and cnt: "worker_count p' = (if live w' then 2 else 1)"
      and tx': "tx_alive p' = tx_alive p" using takeover(5) assms(3) tx by simp_all
    have new: "live \<lparr>worker_id = 0, wpc = At_Connect\<rparr>" "is_monitor \<lparr>worker_id = 0, wpc = At_Connect\<rparr>"
      "\<not> is_monitor w'" using takeover(3) by (simp_all add: live_def is_monitor_def)
    have one: "num live p = 1" using takeover(1) assms(4) by (simp add: pool_inv_def)
    have "worker_count p' = num live p'" using live one new by (simp add: ws cnt)
    moreover have "num is_monitor p' = num is_monitor p" using mon new takeover(2) by (simp add: ws)
    moreover have "\<forall>w \<in> set (workers p'). role_ok w" using roles assms(3) by simp
    ultimately show ?thesis using assms(4) tx' by (simp add: pool_inv_def)
  qed
qed

lemma pool_step_inv:
  assumes "pool_step T p l p'" "pool_inv p"
  shows "pool_inv p'"
  using assms(1)
proof cases
  case (ps_submit t)
  then show ?thesis using assms(2) by (auto simp: pool_send_req_def pool_inv_def split: if_splits)
next
  case ps_spawn
  have "0 < num is_monitor p" using assms(2) ps_spawn by (simp add: pool_inv_def)
  then have "0 < worker_count p"
    using assms(2) monitors_live [of "workers p"] unfolding pool_inv_def by linarith
  then show ?thesis using ps_spawn assms(2)
    by (auto simp: pool_inv_def pool_spawn_def is_monitor_def live_def role_ok_def)
next
  case (ps_turn i p1 w' out)
  then show ?thesis using pool_turn_inv assms(2) by blast
next
  case ps_close
  then show ?thesis using assms(2) by (simp add: pool_inv_def)
next
  case ps_drop
  then show ?thesis using assms(2) by (auto simp: pool_inv_def cleanup_def)
qed

lemma pool_new_inv: "pool_inv (pool_new thr sz)"
  by (simp add: pool_inv_def pool_new_def pool_spawn_def is_monitor_def live_def role_ok_def)

lemma pool_run_inv: "pool_run T p ls p' \<Longrightarrow> pool_inv p \<Longrightarrow> pool_inv p'"
  by (induction rule: pool_run.induct) (auto intro: pool_step_inv)

section \<open>Properties\<close>

lemma pool_step_books:
  assumes "pool_step T p l p'"
  shows "\<exists>rep. reported_out (outs_of [l]) = map (set_rpc_error T Unreachable) rep
    \<and> mset (chan p) + mset (submitted [l]) = mset (handed (outs_of [l])) + mset rep + mset (chan p')"
  using assms
proof cases
  case (ps_turn i p1 w' out)
  then show ?thesis using turn_books [OF ps_turn(4)] by auto
qed (auto simp: pool_send_req_def pool_spawn_def cleanup_def split: if_splits)

lemma pool_run_books:
  assumes "pool_run T p ls p'"
  shows "\<exists>rep. reported_out (outs_of ls) = map (set_rpc_error T Unreachable) rep
    \<and> mset (chan p) + mset (submitted ls) = mset (handed (outs_of ls)) + mset rep + mset (chan p')"
  using assms
proof (induction rule: pool_run.induct)
  case (pr_snoc p ls p1 l p2)
  obtain r1 where 1: "reported_out (outs_of ls) = map (set_rpc_error T Unreachable) r1"
      "mset (chan p) + mset (submitted ls) = mset (handed (outs_of ls)) + mset r1 + mset (chan p1)"
    using pr_snoc.IH by blast
  obtain r2 where 2: "reported_out (outs_of [l]) = map (set_rpc_error T Unreachable) r2"
      "mset (chan p1) + mset (submitted [l]) = mset (handed (outs_of [l])) + mset r2 + mset (chan p2)"
    using pool_step_books [OF pr_snoc.hyps(2)] by blast
  have "mset (chan p) + mset (submitted (ls @ [l]))
      = mset (handed (outs_of (ls @ [l]))) + mset (r1 @ r2) + mset (chan p2)"
    using 1(2) 2(2) by (simp add: ac_simps) (metis add.assoc add.commute)
  then show ?case using 1(1) 2(1) by (intro exI [of _ "r1 @ r2"]) simp
qed simp

text \<open>
  C14: a connection pool loses no task and duplicates none. Over every interleaving of
  callers and workers, with connections failing at any point, each submitted task was
  handed to one stream, or reported once as unreachable, or is still in the channel.
\<close>

theorem pool_loses_nothing:
  assumes "pool_run T (pool_new thr sz) ls p"
  shows "\<exists>rep. reported_out (outs_of ls) = map (set_rpc_error T Unreachable) rep
    \<and> mset (submitted ls) = mset (handed (outs_of ls)) + mset rep + mset (chan p)"
  using pool_run_books [OF assms] by (simp add: pool_new_def pool_spawn_def)


text \<open>
  C29: the health flag only ever falls. After one failed connect, ping or send the pool
  reports itself unhealthy for good, however many connections succeed afterwards; and the
  count of connected workers never falls, since leaving \<open>run_worker\<close> counts up as well.
\<close>

theorem pool_never_recovers:
  assumes "pool_run T p ls p'"
  shows "(\<not> is_healthy p \<longrightarrow> \<not> is_healthy p') \<and> connected_worker_count p \<le> connected_worker_count p'"
  using assms
proof (induction rule: pool_run.induct)
  case (pr_snoc p ls p1 l p2)
  have "(is_ok p2 \<longrightarrow> is_ok p1) \<and> connected_worker_count p1 \<le> connected_worker_count p2"
    using pr_snoc.hyps(2)
  proof cases
    case (ps_turn i q w' out)
    then show ?thesis using turn_health [OF ps_turn(4)] by simp
  qed (auto simp: pool_send_req_def pool_spawn_def cleanup_def split: if_splits)
  then show ?case using pr_snoc.IH by (auto simp: is_healthy_def)
qed simp

section \<open>Witnesses\<close>

text \<open>A task is submitted, the first connect fails and the task is reported.\<close>

definition demo_pool :: "(u64 \<times> RpcIntErr option) ConnPool" where
  "demo_pool = (pool_new 0 1)\<lparr>is_ok := False, workers := [\<lparr>worker_id = 0, wpc = At_Backoff\<rparr>]\<rparr>"

lemma demo_pool_run:
  "pool_run probe_task (pool_new 0 1) ([] @ [Submit (3, None)] @ [Turn [Reported (3, Some Unreachable)]]) demo_pool"
proof -
  let ?p = "(pool_new 0 1)\<lparr>chan := [(3, None)]\<rparr> :: (u64 \<times> RpcIntErr option) ConnPool"
  have s: "pool_step probe_task (pool_new 0 1) (Submit (3, None)) ?p"
    by (rule ps_submit) (simp_all add: pool_new_def pool_spawn_def pool_send_req_def channel_size_of_def)
  have c: "worker_turn probe_task ?p (workers ?p ! 0) (demo_pool\<lparr>workers := workers ?p\<rparr>)
      \<lparr>worker_id = 0, wpc = At_Backoff\<rparr> [Reported (3, Some Unreachable)]"
    by (rule wt_connect [where ok = False])
       (simp_all add: pool_new_def pool_spawn_def pool_defs demo_pool_def probe_task_def)
  have "pool_step probe_task ?p (Turn [Reported (3, Some Unreachable)])
      ((demo_pool\<lparr>workers := workers ?p\<rparr>)\<lparr>workers := (workers (demo_pool\<lparr>workers := workers ?p\<rparr>))[0 := \<lparr>worker_id = 0, wpc = At_Backoff\<rparr>]\<rparr>)"
    by (rule ps_turn [OF _ c]) (simp add: pool_new_def pool_spawn_def)
  moreover have "(demo_pool\<lparr>workers := workers ?p\<rparr>)\<lparr>workers := (workers (demo_pool\<lparr>workers := workers ?p\<rparr>))[0 := \<lparr>worker_id = 0, wpc = At_Backoff\<rparr>]\<rparr> = demo_pool"
    by (simp add: demo_pool_def pool_new_def pool_spawn_def)
  ultimately have "pool_step probe_task ?p (Turn [Reported (3, Some Unreachable)]) demo_pool" by simp
  from pr_snoc [OF pr_snoc [OF pr_nil s] this] show ?thesis by simp
qed

theorem pool_loses_nothing_witness:
  "\<exists>rep. [(3, Some Unreachable)] = map (set_rpc_error probe_task Unreachable) rep \<and> {#(3, None)#} = mset rep + mset (chan demo_pool)"
  using pool_loses_nothing [OF demo_pool_run] by simp


text \<open>The pool then waits, connects and monitors again, still unhealthy.\<close>

definition demo_back :: "(u64 \<times> RpcIntErr option) ConnPool" where
  "demo_back = demo_pool\<lparr>workers := [\<lparr>worker_id = 0, wpc = At_Monitor\<rparr>]\<rparr>"

lemma demo_back_run: "pool_run probe_task demo_pool ([] @ [Turn []] @ [Turn []]) demo_back"
proof -
  let ?p = "demo_pool\<lparr>workers := [\<lparr>worker_id = 0, wpc = At_Connect\<rparr>]\<rparr>"
  have "worker_turn probe_task demo_pool (workers demo_pool ! 0) demo_pool ((workers demo_pool ! 0)\<lparr>wpc := At_Connect\<rparr>) []"
    by (rule wt_backoff) (simp add: demo_pool_def)
  from ps_turn [OF _ this] have 1: "pool_step probe_task demo_pool (Turn []) ?p"
    by (simp add: demo_pool_def)
  have "worker_turn probe_task ?p (workers ?p ! 0) ?p \<lparr>worker_id = 0, wpc = At_Monitor\<rparr> []"
    by (rule wt_connect [where ok = True]) (simp_all add: on_connect_def)
  from ps_turn [OF _ this] have 2: "pool_step probe_task ?p (Turn []) demo_back"
    by (simp add: demo_back_def)
  from pr_snoc [OF pr_snoc [OF pr_nil 1] 2] show ?thesis by simp
qed

theorem pool_never_recovers_witness: "\<not> is_healthy demo_pool \<and> \<not> is_healthy demo_back"
proof -
  have "\<not> is_healthy demo_pool" by (simp add: is_healthy_def demo_pool_def)
  with pool_never_recovers [OF demo_back_run] show ?thesis by blast
qed

end
