(* ===== verification/Failover.thy ===== *)
theory Failover
  imports Conn_Pool Proto
begin

text \<open>
  \<open>FailoverPool\<close> of \<open>src/stream/src/client/failover.rs\<close>: a cluster of connection pools
  with round-robin or leader-based routing, and a retry worker that sends a failed task to
  the next node. \<open>FailoverTask\<close> wraps the caller's task and is itself a client task, so
  the pools and streams below are used as they are. A pool is an \<open>Arc\<close>: the cluster
  lists handles into the store of all pools ever created.
\<close>

section \<open>The wrapped task\<close>

record 't FailoverTask =
  last_index :: nat
  config_ver :: u64
  inner :: 't
  retry :: nat
  should_retry :: bool
  max_retries :: nat

definition fo_decode_resp ::
  "('c, 't) ClientTask \<Rightarrow> 'c \<Rightarrow> bytes \<Rightarrow> 't FailoverTask \<Rightarrow> 't FailoverTask \<times> (unit, unit) result" where
  "fo_decode_resp T c buf t = (let (t', r) = decode_resp T c buf (inner t) in (t\<lparr>inner := t'\<rparr>, r))"

definition fo_reserve_resp_blob ::
  "('c, 't) ClientTask \<Rightarrow> i32 \<Rightarrow> 't FailoverTask \<Rightarrow> (nat \<times> (bytes \<Rightarrow> 't FailoverTask)) option" where
  "fo_reserve_resp_blob T sz t =
    (case reserve_resp_blob T sz (inner t) of
       None \<Rightarrow> None
     | Some (len, fill) \<Rightarrow> Some (len, \<lambda>b. t\<lparr>inner := fill b\<rparr>))"

definition fo_set_custom_error ::
  "('c, 't) ClientTask \<Rightarrow> 'c \<Rightarrow> EncodedErr \<Rightarrow> nat \<Rightarrow> u64 \<Rightarrow> 't FailoverTask \<Rightarrow> 't FailoverTask" where
  "fo_set_custom_error T c e _ _ t =
    t\<lparr>should_retry := False, inner := set_custom_error T c e (last_index t) (config_ver t) (inner t)\<rparr>"

definition fo_set_rpc_error :: "('c, 't) ClientTask \<Rightarrow> RpcIntErr \<Rightarrow> 't FailoverTask \<Rightarrow> 't FailoverTask" where
  "fo_set_rpc_error T e t =
    (let t1 = (if e < Method then t\<lparr>should_retry := True, retry := retry t + 1\<rparr> else t\<lparr>should_retry := False\<rparr>)
     in t1\<lparr>inner := set_rpc_error T e (inner t)\<rparr>)"

definition fo_set_ok :: "('c, 't) ClientTask \<Rightarrow> 't FailoverTask \<Rightarrow> 't FailoverTask" where
  "fo_set_ok T t = t\<lparr>inner := set_ok T (inner t)\<rparr>"

text \<open>The sequence number and the remaining methods are those of the wrapped task.\<close>

definition failover_task :: "('c, 't) ClientTask \<Rightarrow> ('c, 't FailoverTask) ClientTask" where
  "failover_task T =
    \<lparr>get_action = \<lambda>t. get_action T (inner t),
     encode_req = \<lambda>c t. encode_req T c (inner t),
     get_req_blob = \<lambda>t. get_req_blob T (inner t),
     decode_resp = fo_decode_resp T,
     reserve_resp_blob = fo_reserve_resp_blob T,
     set_custom_error = fo_set_custom_error T,
     set_rpc_error = fo_set_rpc_error T,
     set_ok = fo_set_ok T,
     task_seq = \<lambda>t. task_seq T (inner t),
     set_seq = \<lambda>n t. t\<lparr>inner := set_seq T n (inner t)\<rparr>\<rparr>"

lemmas fo_task_defs = failover_task_def fo_decode_resp_def fo_reserve_resp_blob_def
  fo_set_custom_error_def fo_set_rpc_error_def fo_set_ok_def Let_def

text \<open>The wrapper keeps the contract of client tasks.\<close>

context client_task_laws
begin

lemma failover_task_laws: "client_task_laws (failover_task T)"
proof unfold_locales
  fix sz t len fill blob
  assume "reserve_resp_blob (failover_task T) sz t = Some (len, fill)"
  then show "task_seq (failover_task T) (fill blob) = task_seq (failover_task T) t"
    using seq_reserve by (auto simp: fo_task_defs split: option.splits)
next
  fix c msg t
  show "task_seq (failover_task T) (fst (decode_resp (failover_task T) c msg t)) = task_seq (failover_task T) t"
    using seq_decode_resp [of c msg "inner t"] by (auto simp: fo_task_defs split: prod.splits)
qed (use encode_appends encode_keeps in \<open>auto simp: fo_task_defs seq_set_seq seq_set_rpc_error
  seq_set_custom_error seq_set_ok action_set_seq blob_set_seq encode_set_seq\<close>)

end

section \<open>The pool\<close>

text \<open>
  \<open>FailoverPoolInner\<close> with its \<open>ClusterConfig\<close> (addresses with handles, and the version)
  and \<open>FailoverFacts\<close> (retry limit and retry channel). \<open>fo_store\<close> holds every pool,
  \<open>fo_sending\<close> the tasks routed to a pool whose channel has not yet taken them, and
  \<open>fo_inflight\<close> those that a stream has taken.
\<close>

record 't FailoverPool =
  fo_pools :: "(rstr \<times> nat) list"
  fo_ver :: u64
  fo_stateless :: bool
  fo_next_node :: nat
  fo_channel_size :: nat
  fo_thresholds :: nat
  fo_retry_limit :: nat
  fo_store :: "'t FailoverTask ConnPool list"
  fo_retry_chan :: "'t FailoverTask list"
  fo_retry_rx :: bool
  fo_alive :: bool
  fo_sending :: "(nat \<times> 't FailoverTask) list"
  fo_inflight :: "'t FailoverTask list"

text \<open>\<open>usize\<close> arithmetic of a release build.\<close>

definition usize_add :: "nat \<Rightarrow> nat \<Rightarrow> nat" where
  "usize_add a b = (a + b) mod 2 ^ 64"

text \<open>
  \<open>ClusterConfig::select\<close>. The route is \<open>Ok ()\<close> for \<open>Ok(&next_node)\<close>; the
  counter is returned because round-robin advances it. \<open>healthy\<close> tells which handle's
  pool is healthy.
\<close>

definition select_seed :: "bool \<Rightarrow> (unit, nat) result \<Rightarrow> nat \<Rightarrow> nat \<times> nat" where
  "select_seed stateless route nn =
    (case route of
       Err index \<Rightarrow> (nn, usize_add index 1)
     | Ok _ \<Rightarrow> if stateless then (usize_add nn 1, nn) else (nn, nn))"

definition select ::
  "(nat \<Rightarrow> bool) \<Rightarrow> (rstr \<times> nat) list \<Rightarrow> bool \<Rightarrow> (unit, nat) result \<Rightarrow> nat \<Rightarrow> nat \<times> (nat \<times> nat) option" where
  "select healthy pools stateless route nn =
    (let l = length pools
     in if l = 0 then (nn, None)
        else (let (nn', seed) = select_seed stateless route nn
              in (nn', case find (\<lambda>i. healthy (snd (pools ! (i mod l)))) [seed ..< usize_add seed l] of
                         None \<Rightarrow> None
                       | Some i \<Rightarrow> Some (snd (pools ! (i mod l)), i))))"

definition pool_ok :: "'t FailoverPool \<Rightarrow> nat \<Rightarrow> bool" where
  "pool_ok fp h = is_healthy (fo_store fp ! h)"

definition fo_select :: "'t FailoverPool \<Rightarrow> (unit, nat) result \<Rightarrow> nat \<times> (nat \<times> nat) option" where
  "fo_select fp route = select (pool_ok fp) (fo_pools fp) (fo_stateless fp) route (fo_next_node fp)"

fun get_by_addr_from :: "nat \<Rightarrow> rstr \<Rightarrow> (rstr \<times> nat) list \<Rightarrow> (nat \<times> nat) option" where
  "get_by_addr_from i addr [] = None"
| "get_by_addr_from i addr ((a, h) # ps) = (if a = addr then Some (h, i) else get_by_addr_from (i + 1) addr ps)"

definition get_by_addr :: "rstr \<Rightarrow> (rstr \<times> nat) list \<Rightarrow> (nat \<times> nat) option" where
  "get_by_addr addr ps = get_by_addr_from 0 addr ps"

text \<open>\<open>ConnPool::new\<close> for an address: a new pool in the store, and its handle.\<close>

definition fo_new_pool :: "'t FailoverPool \<Rightarrow> 't FailoverPool \<times> nat" where
  "fo_new_pool fp = (fp\<lparr>fo_store := fo_store fp @ [pool_new (fo_thresholds fp) (fo_channel_size fp)]\<rparr>,
     length (fo_store fp))"

definition fo_new :: "nat \<Rightarrow> rstr list \<Rightarrow> bool \<Rightarrow> nat \<Rightarrow> nat \<Rightarrow> 't FailoverPool" where
  "fo_new thr addrs stateless retry_limit channel_size =
    \<lparr>fo_pools = zip addrs [0 ..< length addrs], fo_ver = 0, fo_stateless = stateless, fo_next_node = 0,
     fo_channel_size = channel_size, fo_thresholds = thr, fo_retry_limit = retry_limit,
     fo_store = replicate (length addrs) (pool_new thr channel_size), fo_retry_chan = [],
     fo_retry_rx = True, fo_alive = True, fo_sending = [], fo_inflight = []\<rparr>"

definition get_retry_limit :: "'t FailoverPool \<Rightarrow> nat" where
  "get_retry_limit fp = fo_retry_limit fp"

text \<open>\<open>get_or_add_addr\<close>: the handle, its index and the version of the cluster.\<close>

definition get_or_add_addr :: "rstr \<Rightarrow> 't FailoverPool \<Rightarrow> 't FailoverPool \<times> nat \<times> nat \<times> u64" where
  "get_or_add_addr addr fp =
    (case get_by_addr addr (fo_pools fp) of
       Some (h, i) \<Rightarrow> (fp, h, i, fo_ver fp)
     | None \<Rightarrow>
         (let (fp1, h) = fo_new_pool fp;
              ver = fo_ver fp + 1
          in (fp1\<lparr>fo_pools := (addr, h) # fo_pools fp, fo_ver := ver\<rparr>, h, 0, ver)))"

text \<open>The loop of \<open>update_addrs\<close>: the map of old pools loses what has been reused.\<close>

fun update_addrs_loop ::
  "rstr list \<Rightarrow> (rstr \<rightharpoonup> nat) \<Rightarrow> 't FailoverPool \<Rightarrow> (rstr \<times> nat) list \<Rightarrow> 't FailoverPool \<times> (rstr \<times> nat) list" where
  "update_addrs_loop [] old fp acc = (fp, acc)"
| "update_addrs_loop (addr # addrs) old fp acc =
    (case old addr of
       Some h \<Rightarrow> update_addrs_loop addrs (old(addr := None)) fp (acc @ [(addr, h)])
     | None \<Rightarrow>
         (let (fp1, h) = fo_new_pool fp in update_addrs_loop addrs old fp1 (acc @ [(addr, h)])))"

definition update_addrs :: "rstr list \<Rightarrow> 't FailoverPool \<Rightarrow> 't FailoverPool" where
  "update_addrs addrs fp =
    (let (fp1, new_pools) = update_addrs_loop addrs (map_of (rev (fo_pools fp))) fp []
     in fp1\<lparr>fo_pools := new_pools, fo_ver := fo_ver fp + 1\<rparr>)"

text \<open>
  \<open>send_req\<close> and \<open>send_req_blocking\<close>; the second component lists the tasks that end with
  \<open>done\<close>.
\<close>

definition fo_route :: "nat \<Rightarrow> 't FailoverTask \<Rightarrow> 't FailoverPool \<Rightarrow> 't FailoverPool" where
  "fo_route h t fp = fp\<lparr>fo_sending := fo_sending fp @ [(h, t)]\<rparr>"

definition fo_send_req :: "('c, 't) ClientTask \<Rightarrow> 't \<Rightarrow> 't FailoverPool \<Rightarrow> 't FailoverPool \<times> 't list" where
  "fo_send_req T task fp =
    (let (nn, sel) = fo_select fp (Ok ());
         fp1 = fp\<lparr>fo_next_node := nn\<rparr>
     in case sel of
          Some (h, index) \<Rightarrow>
            (fo_route h \<lparr>last_index = index, config_ver = fo_ver fp, inner = task, retry = 0,
               should_retry = False, max_retries = 0\<rparr> fp1, [])
        | None \<Rightarrow> (fp1, [set_rpc_error T Unreachable task]))"

definition resubmit ::
  "('c, 't) ClientTask \<Rightarrow> 't \<Rightarrow> (rstr, nat) result \<Rightarrow> nat \<Rightarrow> nat option \<Rightarrow> 't FailoverPool
   \<Rightarrow> 't FailoverPool \<times> 't list" where
  "resubmit T task addr_or_retry retry_count max_r fp =
    (case addr_or_retry of
       Ok addr \<Rightarrow>
         (let (fp1, h, index, conf_ver) = get_or_add_addr addr fp
          in (fo_route h \<lparr>last_index = index, config_ver = conf_ver, inner = task, retry = retry_count,
                should_retry = False, max_retries = case max_r of Some m \<Rightarrow> m | None \<Rightarrow> 0\<rparr>
                (fp1\<lparr>fo_next_node := index\<rparr>), []))
     | Err last_idx \<Rightarrow>
         (case snd (fo_select fp (Err last_idx)) of
            Some (h, index) \<Rightarrow>
              (fo_route h \<lparr>last_index = index, config_ver = fo_ver fp, inner = task, retry = 0,
                 should_retry = False, max_retries = 0\<rparr> fp, [])
          | None \<Rightarrow> (fp, [set_rpc_error T Unreachable task])))"

text \<open>\<open>FailoverFacts::error_handle\<close>.\<close>

definition eff_limit :: "'t FailoverPool \<Rightarrow> 't FailoverTask \<Rightarrow> nat" where
  "eff_limit fp t = (if max_retries t > 0 then max_retries t else fo_retry_limit fp)"

definition fo_error_handle :: "'t FailoverTask \<Rightarrow> 't FailoverPool \<Rightarrow> 't FailoverPool \<times> 't list" where
  "fo_error_handle t fp =
    (if should_retry t \<and> retry t \<le> eff_limit fp t
     then (if fo_retry_rx fp then (fp\<lparr>fo_retry_chan := fo_retry_chan fp @ [t]\<rparr>, []) else (fp, [inner t]))
     else (fp, [inner t]))"

text \<open>One turn of \<open>retry_worker\<close> for the task it received.\<close>

definition retry_worker_turn :: "'t FailoverTask \<Rightarrow> 't FailoverPool \<Rightarrow> 't FailoverPool \<times> 't list" where
  "retry_worker_turn task fp =
    (if fo_alive fp then
       (let (t1, route) = (if fo_ver fp = config_ver task then (task, Err (last_index task))
                           else (task\<lparr>config_ver := fo_ver fp\<rparr>, Ok ()));
            (nn, sel) = fo_select fp route;
            fp1 = fp\<lparr>fo_next_node := nn\<rparr>
        in case sel of
             Some (h, index) \<Rightarrow> (fo_route h (t1\<lparr>last_index := index\<rparr>) fp1, [])
           | None \<Rightarrow> (fp1, [inner t1]))
     else (fp, [inner task]))"

text \<open>What the workers of a pool let go of: tasks taken by a stream, and tasks reported.\<close>

fun fo_outs :: "'t FailoverTask pool_out list \<Rightarrow> 't FailoverPool \<Rightarrow> 't FailoverPool \<times> 't list" where
  "fo_outs [] fp = (fp, [])"
| "fo_outs (Handed t # os) fp = fo_outs os (fp\<lparr>fo_inflight := fo_inflight fp @ [t]\<rparr>)"
| "fo_outs (Reported t # os) fp =
    (let (fp1, d1) = fo_error_handle t fp; (fp2, d2) = fo_outs os fp1 in (fp2, d1 @ d2))"

section \<open>Runs\<close>

fun fo_fact :: "'t FailoverTask fact \<Rightarrow> 't FailoverPool \<Rightarrow> 't FailoverPool \<times> 't list" where
  "fo_fact (Task_Done t) fp = (fp, [inner t])"
| "fo_fact (Error_Handle t) fp = fo_error_handle t fp"

definition drop_at :: "nat \<Rightarrow> 'a list \<Rightarrow> 'a list" where
  "drop_at i xs = take i xs @ drop (Suc i) xs"

text \<open>
  The steps of the whole: callers submit, resubmit or change the addresses; a channel takes
  a waiting task; a pool's worker takes a turn; a pool that nobody refers to loses its
  senders; a stream reports a task, or drops it because its request cannot be encoded; the
  retry worker takes a turn; the last handle of the failover pool goes.
\<close>

datatype 't fo_label =
    Fo_In 't "'t list"
  | Fo_Again 't "(rstr, nat) result" nat "nat option" "'t list"
  | Fo_Done "'t list"
  | Fo_Lost 't
  | Fo_Hop "'t list"
  | Fo_Tau

inductive fo_step :: "('c, 't) ClientTask \<Rightarrow> 't FailoverPool \<Rightarrow> 't fo_label \<Rightarrow> 't FailoverPool \<Rightarrow> bool" for T where
  fs_send: "fo_alive fp \<Longrightarrow> fo_send_req T t fp = (fp', d) \<Longrightarrow> fo_step T fp (Fo_In t d) fp'"
| fs_resubmit: "fo_alive fp \<Longrightarrow> resubmit T t ar n m fp = (fp', d) \<Longrightarrow> fo_step T fp (Fo_Again t ar n m d) fp'"
| fs_update: "fo_alive fp \<Longrightarrow> fo_step T fp Fo_Tau (update_addrs addrs fp)"
| fs_enqueue: "i < length (fo_sending fp) \<Longrightarrow> fo_sending fp ! i = (h, t)
    \<Longrightarrow> pool_send_req t (fo_store fp ! h) = Some p
    \<Longrightarrow> fo_step T fp Fo_Tau (fp\<lparr>fo_sending := drop_at i (fo_sending fp), fo_store := (fo_store fp)[h := p]\<rparr>)"
| fs_pool: "h < length (fo_store fp) \<Longrightarrow> pool_step (failover_task T) (fo_store fp ! h) (Turn out) p
    \<Longrightarrow> fo_outs out (fp\<lparr>fo_store := (fo_store fp)[h := p]\<rparr>) = (fp', d) \<Longrightarrow> fo_step T fp (Fo_Done d) fp'"
| fs_close: "h < length (fo_store fp) \<Longrightarrow> h \<notin> snd ` set (fo_pools fp) \<Longrightarrow> h \<notin> fst ` set (fo_sending fp)
    \<Longrightarrow> pool_step (failover_task T) (fo_store fp ! h) Close p
    \<Longrightarrow> fo_step T fp Fo_Tau (fp\<lparr>fo_store := (fo_store fp)[h := p]\<rparr>)"
| fs_settle: "i < length (fo_inflight fp) \<Longrightarrow> stream_fact (failover_task T) (fo_inflight fp ! i) f
    \<Longrightarrow> fo_fact f (fp\<lparr>fo_inflight := drop_at i (fo_inflight fp)\<rparr>) = (fp', d) \<Longrightarrow> fo_step T fp (Fo_Done d) fp'"
| fs_lost: "i < length (fo_inflight fp) \<Longrightarrow> touched (failover_task T) (fo_inflight fp ! i) t
    \<Longrightarrow> req_encode (failover_task T) c room cid t = Returns (buf, Err ())
    \<Longrightarrow> fo_step T fp (Fo_Lost (inner (fo_inflight fp ! i))) (fp\<lparr>fo_inflight := drop_at i (fo_inflight fp)\<rparr>)"
| fs_retry: "fo_retry_chan fp = t # ts \<Longrightarrow> retry_worker_turn t (fp\<lparr>fo_retry_chan := ts\<rparr>) = (fp', d)
    \<Longrightarrow> fo_step T fp (Fo_Hop d) fp'"
| fs_drop: "fo_step T fp Fo_Tau (fp\<lparr>fo_alive := False, fo_pools := []\<rparr>)"

inductive fo_run :: "('c, 't) ClientTask \<Rightarrow> 't FailoverPool \<Rightarrow> 't fo_label list \<Rightarrow> 't FailoverPool \<Rightarrow> bool" for T where
  fr_nil: "fo_run T fp [] fp"
| fr_snoc: "fo_run T fp ls fp' \<Longrightarrow> fo_step T fp' l fp'' \<Longrightarrow> fo_run T fp (ls @ [l]) fp''"

section \<open>Routing\<close>

lemma window_covers:
  assumes "k < l"
  shows "\<exists>j. seed \<le> j \<and> j < seed + l \<and> j mod l = (k::nat)"
proof (intro exI conjI)
  let ?j = "seed + (k + l - seed mod l) mod l"
  show "seed \<le> ?j" "?j < seed + l" using assms by simp_all
  have "?j mod l = (seed mod l + (k + l - seed mod l)) mod l" by (simp add: mod_simps)
  moreover have "seed mod l + (k + l - seed mod l) = k + l"
    using assms by (simp add: mod_less_divisor less_imp_le trans_le_add2)
  ultimately show "?j mod l = k" using assms by simp
qed

lemma select_find:
  assumes "select_seed st route nn = (nn', seed)" "seed + length pools < 2 ^ 64" "pools \<noteq> []"
  shows "select healthy pools st route nn =
    (nn', case find (\<lambda>i. healthy (snd (pools ! (i mod length pools)))) [seed ..< seed + length pools] of
            None \<Rightarrow> None | Some i \<Rightarrow> Some (snd (pools ! (i mod length pools)), i))"
  using assms by (simp add: select_def usize_add_def Let_def)

lemma select_handle_in:
  "snd (select healthy pools st route nn) = Some (h, i) \<Longrightarrow> h \<in> snd ` set pools"
  by (auto simp: select_def Let_def split: if_splits prod.splits option.splits)

text \<open>
  C25: \<open>select\<close> takes the first healthy node in cyclic order from its starting point (the
  counter, the leader, or the node after the one that failed), and finds none exactly when
  no node of the cluster is healthy. The index it reports is the node's position modulo the
  size of the cluster.
\<close>

theorem select_takes_next_healthy:
  assumes "select_seed st route nn = (nn', seed)" "seed + length pools < 2 ^ 64"
  shows "case snd (select healthy pools st route nn) of
      None \<Rightarrow> (\<forall>p \<in> set pools. \<not> healthy (snd p))
    | Some (h, i) \<Rightarrow> healthy h \<and> h = snd (pools ! (i mod length pools)) \<and> seed \<le> i \<and> i < seed + length pools
        \<and> (\<forall>j. seed \<le> j \<and> j < i \<longrightarrow> \<not> healthy (snd (pools ! (j mod length pools))))"
proof (cases "pools = []")
  case False
  let ?P = "\<lambda>i. healthy (snd (pools ! (i mod length pools)))"
  let ?js = "[seed ..< seed + length pools]"
  note sel = select_find [OF assms False, of healthy]
  show ?thesis
  proof (cases "find ?P ?js")
    case None
    have "\<not> healthy (snd (pools ! k))" if k: "k < length pools" for k
    proof -
      obtain j where "seed \<le> j" "j < seed + length pools" "j mod length pools = k"
        using window_covers [OF k] by blast
      then show ?thesis using None by (auto simp: find_None_iff)
    qed
    then show ?thesis using None sel by (fastforce simp: in_set_conv_nth)
  next
    case (Some i)
    then obtain m where m: "m < length ?js" "?P (?js ! m)" "i = ?js ! m" "\<forall>j < m. \<not> ?P (?js ! j)"
      by (auto simp: find_Some_iff)
    have "\<not> ?P j" if "seed \<le> j" "j < i" for j
      using m(4) [rule_format, of "j - seed"] m(1,3) that by simp
    then show ?thesis using Some sel m by auto
  qed
qed (simp add: select_def)

text \<open>Sending several tasks one after the other.\<close>

fun fo_send_all :: "('c, 't) ClientTask \<Rightarrow> 't list \<Rightarrow> 't FailoverPool \<Rightarrow> 't FailoverPool \<times> 't list" where
  "fo_send_all T [] fp = (fp, [])"
| "fo_send_all T (t # ts) fp =
    (let (fp1, d1) = fo_send_req T t fp; (fp2, d2) = fo_send_all T ts fp1 in (fp2, d1 @ d2))"

definition first_try :: "'t FailoverPool \<Rightarrow> nat \<Rightarrow> 't \<Rightarrow> nat \<times> 't FailoverTask" where
  "first_try fp i t = (snd (fo_pools fp ! (i mod length (fo_pools fp))),
     \<lparr>last_index = i, config_ver = fo_ver fp, inner = t, retry = 0, should_retry = False, max_retries = 0\<rparr>)"

definition all_healthy :: "'t FailoverPool \<Rightarrow> bool" where
  "all_healthy fp \<longleftrightarrow> fo_pools fp \<noteq> [] \<and> (\<forall>p \<in> set (fo_pools fp). pool_ok fp (snd p))"

lemma send_round_robin:
  assumes "fo_stateless fp" "all_healthy fp" "fo_next_node fp + length (fo_pools fp) < 2 ^ 64"
  shows "fo_send_req T t fp =
    (fp\<lparr>fo_next_node := fo_next_node fp + 1,
        fo_sending := fo_sending fp @ [first_try fp (fo_next_node fp) t]\<rparr>, [])"
proof -
  let ?l = "length (fo_pools fp)" and ?s = "fo_next_node fp"
  have l: "0 < ?l" using assms(2) by (simp add: all_healthy_def)
  have "pool_ok fp (snd (fo_pools fp ! (?s mod ?l)))"
    using assms(2) nth_mem [of "?s mod ?l" "fo_pools fp"] l by (auto simp: all_healthy_def)
  moreover have "[?s ..< ?s + ?l] = ?s # [Suc ?s ..< ?s + ?l]" using l by (simp add: upt_conv_Cons)
  moreover have "usize_add ?s 1 = ?s + 1" "usize_add ?s ?l = ?s + ?l"
    unfolding usize_add_def by (rule mod_less, use assms(3) l in linarith)+
  ultimately show ?thesis using assms(1) l
    by (simp add: fo_send_req_def fo_select_def select_def select_seed_def first_try_def fo_route_def Let_def)
qed

lemma send_all_round_robin:
  assumes "fo_stateless fp" "all_healthy fp" "fo_next_node fp + length ts + length (fo_pools fp) < 2 ^ 64"
  shows "fo_send_all T ts fp =
    (fp\<lparr>fo_next_node := fo_next_node fp + length ts,
        fo_sending := fo_sending fp @ map2 (first_try fp) [fo_next_node fp ..< fo_next_node fp + length ts] ts\<rparr>, [])"
  using assms
proof (induction ts arbitrary: fp)
  case (Cons t ts)
  let ?s = "fo_next_node fp"
  let ?fp = "fp\<lparr>fo_next_node := ?s + 1, fo_sending := fo_sending fp @ [first_try fp ?s t]\<rparr>"
  have "all_healthy ?fp" using Cons.prems(2) by (simp add: all_healthy_def pool_ok_def)
  moreover have "first_try ?fp = first_try fp" by (intro ext) (simp add: first_try_def)
  moreover have "fo_send_req T t fp = (?fp, [])" by (rule send_round_robin) (use Cons.prems in simp_all)
  moreover have "[?s ..< ?s + length (t # ts)] = ?s # [Suc ?s ..< ?s + length (t # ts)]"
    by (rule upt_conv_Cons) simp
  ultimately show ?case using Cons.IH [of ?fp] Cons.prems by (simp del: upt_Suc)
qed simp

lemma window_one: "k < l \<Longrightarrow> length (filter (\<lambda>i. i mod l = k) [s ..< s + l]) = (1::nat)"
proof (induction s)
  case 0
  have "filter (\<lambda>i. i mod l = k) [0 ..< l] = filter (\<lambda>i. i = k) [0 ..< l]"
    by (rule filter_cong) simp_all
  also have "\<dots> = [k]" using 0 by (induction l) (auto simp: less_Suc_eq filter_empty_conv)
  finally show ?case by simp
next
  case (Suc s)
  have "[s ..< s + l] = s # [Suc s ..< s + l]" using Suc.prems by (simp add: upt_conv_Cons)
  moreover have "[Suc s ..< Suc s + l] = [Suc s ..< s + l] @ [s + l]" using Suc.prems by simp
  ultimately show ?case using Suc by (simp split: if_splits)
qed

lemma window_count:
  assumes "k < l"
  shows "length (filter (\<lambda>i. i mod l = k) [s ..< s + n * l]) = (n::nat)"
proof (induction n)
  case (Suc n)
  have "[s ..< s + Suc n * l] = [s ..< s + n * l] @ [s + n * l ..< s + n * l + l]"
    using upt_add_eq_append [of s "s + n * l" l] by (simp add: add.commute add.left_commute)
  then show ?case using Suc window_one [OF assms, of "s + n * l"] by simp
qed simp

lemma filter_last_index:
  "length (filter (\<lambda>(h, t). P (last_index t)) xs) = length (filter P (map (last_index \<circ> snd) xs))"
  by (induction xs) auto


section \<open>Addresses\<close>

lemma get_by_addr_from_Some:
  "get_by_addr_from i addr ps = Some (h, j) \<Longrightarrow> i \<le> j \<and> j - i < length ps \<and> ps ! (j - i) = (addr, h)"
proof (induction i addr ps rule: get_by_addr_from.induct)
  case (2 i addr a h' ps)
  show ?case
  proof (cases "a = addr")
    case False
    then have "Suc i \<le> j \<and> j - Suc i < length ps \<and> ps ! (j - Suc i) = (addr, h)" using 2 by simp
    moreover have "j - i = Suc (j - Suc i)" if "Suc i \<le> j" using that by simp
    ultimately show ?thesis by auto
  qed (use 2 in simp)
qed simp

lemma get_by_addr_from_None: "get_by_addr_from i addr ps = None \<longleftrightarrow> addr \<notin> fst ` set ps"
  by (induction i addr ps rule: get_by_addr_from.induct) auto

lemma get_by_addr_Some: "get_by_addr addr ps = Some (h, j) \<Longrightarrow> j < length ps \<and> ps ! j = (addr, h)"
  using get_by_addr_from_Some [of 0 addr ps h j] by (simp add: get_by_addr_def)

lemma get_by_addr_None: "get_by_addr addr ps = None \<longleftrightarrow> addr \<notin> fst ` set ps"
  by (simp add: get_by_addr_def get_by_addr_from_None)

lemma fo_new_pool_eq:
  "fo_new_pool fp = (fp\<lparr>fo_store := fo_store fp @ [pool_new (fo_thresholds fp) (fo_channel_size fp)]\<rparr>, length (fo_store fp))"
  by (simp add: fo_new_pool_def)

text \<open>
  A redirect reaches the address it names. \<open>get_or_add_addr\<close> returns a pool of that
  address at its index in the current cluster, leaves the cluster alone if the address is
  known, otherwise adds one pool at the front under a new version; asking again changes
  nothing and gives the same answer.
\<close>

lemma redirect_target_is_stable:
  assumes "get_or_add_addr addr fp = (fp', h, i, ver)"
  shows "i < length (fo_pools fp') \<and> fo_pools fp' ! i = (addr, h) \<and> ver = fo_ver fp'
    \<and> get_or_add_addr addr fp' = (fp', h, i, ver)
    \<and> (if addr \<in> fst ` set (fo_pools fp) then fp' = fp
       else fo_pools fp' = (addr, h) # fo_pools fp \<and> fo_ver fp' = fo_ver fp + 1
         \<and> fo_store fp' = fo_store fp @ [pool_new (fo_thresholds fp) (fo_channel_size fp)])"
proof (cases "get_by_addr addr (fo_pools fp)")
  case None
  then show ?thesis using assms get_by_addr_None [of addr "fo_pools fp"]
    by (auto simp: get_or_add_addr_def fo_new_pool_eq get_by_addr_def Let_def)
next
  case (Some p)
  then show ?thesis using assms get_by_addr_Some [of addr "fo_pools fp"] get_by_addr_None [of addr "fo_pools fp"]
    by (cases p) (auto simp: get_or_add_addr_def)
qed

lemma update_addrs_loop_spec:
  assumes "update_addrs_loop addrs old fp acc = (fp', acc')" "distinct addrs"
  shows "\<exists>hs k. acc' = acc @ zip addrs hs \<and> length hs = length addrs
    \<and> fp' = fp\<lparr>fo_store := fo_store fp @ replicate k (pool_new (fo_thresholds fp) (fo_channel_size fp))\<rparr>
    \<and> k = length (filter (\<lambda>a. old a = None) addrs)
    \<and> (\<forall>(a, h) \<in> set (zip addrs hs). case old a of
         Some h0 \<Rightarrow> h = h0 | None \<Rightarrow> length (fo_store fp) \<le> h \<and> h < length (fo_store fp) + k)"
  using assms
proof (induction addrs old fp acc rule: update_addrs_loop.induct)
  case (1 old fp acc)
  then show ?case by (auto intro: exI [of _ "[]"])
next
  case (2 addr addrs old fp acc)
  let ?new = "pool_new (fo_thresholds fp) (fo_channel_size fp)"
  show ?case
  proof (cases "old addr")
    case None
    let ?fp = "fp\<lparr>fo_store := fo_store fp @ [?new]\<rparr>"
    from None 2(1) [OF None fo_new_pool_eq [symmetric] refl] 2(3,4) obtain hs k where
      "acc' = (acc @ [(addr, length (fo_store fp))]) @ zip addrs hs" "length hs = length addrs"
      "fp' = ?fp\<lparr>fo_store := fo_store ?fp @ replicate k ?new\<rparr>" "k = length (filter (\<lambda>a. old a = None) addrs)"
      "\<forall>(a, h) \<in> set (zip addrs hs). case old a of
         Some h0 \<Rightarrow> h = h0 | None \<Rightarrow> length (fo_store ?fp) \<le> h \<and> h < length (fo_store ?fp) + k"
      by (auto simp: fo_new_pool_eq)
    then show ?thesis using None
      by (intro exI [of _ "length (fo_store fp) # hs"] exI [of _ "Suc k"])
         (auto split: option.splits simp: replicate_append_same)
  next
    case (Some h0)
    let ?old = "old(addr := None)"
    from Some 2(2) [OF Some] 2(3,4) obtain hs k where
      r: "acc' = (acc @ [(addr, h0)]) @ zip addrs hs" "length hs = length addrs"
      "fp' = fp\<lparr>fo_store := fo_store fp @ replicate k ?new\<rparr>" "k = length (filter (\<lambda>a. ?old a = None) addrs)"
      "\<forall>(a, h) \<in> set (zip addrs hs). case ?old a of
         Some h0 \<Rightarrow> h = h0 | None \<Rightarrow> length (fo_store fp) \<le> h \<and> h < length (fo_store fp) + k"
      by (auto simp del: fun_upd_apply)
    have same: "?old a = old a" if "a \<in> set addrs" for a using that 2(4) by auto
    have "filter (\<lambda>a. ?old a = None) addrs = filter (\<lambda>a. old a = None) addrs"
      by (rule filter_cong) (simp_all add: same del: fun_upd_apply)
    moreover have "\<forall>(a, h) \<in> set (zip addrs hs). case old a of
         Some h0 \<Rightarrow> h = h0 | None \<Rightarrow> length (fo_store fp) \<le> h \<and> h < length (fo_store fp) + k"
      using r(5) same by (fastforce dest: set_zip_leftD simp del: fun_upd_apply)
    ultimately show ?thesis using r(1-4) Some
      by (intro exI [of _ "h0 # hs"] exI [of _ k]) (auto simp del: fun_upd_apply)
  qed
qed

text \<open>
  C27: \<open>update_addrs\<close> makes the cluster list exactly the given addresses in the given order,
  under a new version. Every address that was in the cluster keeps its pool, so its queued
  tasks and connections survive; one pool is created for each new address; no task is
  touched.
\<close>

theorem update_addrs_reuses_pools:
  assumes "distinct addrs" "distinct (map fst (fo_pools fp))"
  shows "\<exists>hs k. fo_pools (update_addrs addrs fp) = zip addrs hs \<and> length hs = length addrs
    \<and> update_addrs addrs fp = fp\<lparr>fo_pools := zip addrs hs, fo_ver := fo_ver fp + 1,
         fo_store := fo_store fp @ replicate k (pool_new (fo_thresholds fp) (fo_channel_size fp))\<rparr>
    \<and> k = length (filter (\<lambda>a. a \<notin> fst ` set (fo_pools fp)) addrs)
    \<and> (\<forall>(a, h) \<in> set (zip addrs hs). case map_of (fo_pools fp) a of
         Some h0 \<Rightarrow> h = h0 | None \<Rightarrow> length (fo_store fp) \<le> h)"
proof -
  have m: "map_of (rev (fo_pools fp)) = map_of (fo_pools fp)"
    using assms(2) by (intro map_of_inject_set [THEN iffD2]) (simp_all add: rev_map [symmetric])
  obtain fp' acc' where l: "update_addrs_loop addrs (map_of (fo_pools fp)) fp [] = (fp', acc')" by fastforce
  from update_addrs_loop_spec [OF this assms(1)] obtain hs k where
    "acc' = zip addrs hs" "length hs = length addrs"
    "fp' = fp\<lparr>fo_store := fo_store fp @ replicate k (pool_new (fo_thresholds fp) (fo_channel_size fp))\<rparr>"
    "k = length (filter (\<lambda>a. map_of (fo_pools fp) a = None) addrs)"
    "\<forall>(a, h) \<in> set (zip addrs hs). case map_of (fo_pools fp) a of
         Some h0 \<Rightarrow> h = h0 | None \<Rightarrow> length (fo_store fp) \<le> h \<and> h < length (fo_store fp) + k"
    by auto
  then show ?thesis using l m
    by (intro exI [of _ hs] exI [of _ k])
       (auto simp: update_addrs_def map_of_eq_None_iff split: option.splits)
qed

section \<open>The books of a run\<close>

definition fo_active :: "'t FailoverPool \<Rightarrow> 't FailoverTask multiset" where
  "fo_active fp = mset (map snd (fo_sending fp)) + mset (concat (map chan (fo_store fp))) + mset (fo_inflight fp)"

fun lab_in :: "'t fo_label \<Rightarrow> 't list" where
  "lab_in (Fo_In t d) = [t]"
| "lab_in (Fo_Again t ar n m d) = [t]"
| "lab_in _ = []"

fun lab_done :: "'t fo_label \<Rightarrow> 't list" where
  "lab_done (Fo_In t d) = d"
| "lab_done (Fo_Again t ar n m d) = d"
| "lab_done (Fo_Done d) = d"
| "lab_done (Fo_Hop d) = d"
| "lab_done _ = []"

fun lab_lost :: "'t fo_label \<Rightarrow> 't list" where
  "lab_lost (Fo_Lost t) = [t]"
| "lab_lost _ = []"

abbreviation of_run :: "('t fo_label \<Rightarrow> 't list) \<Rightarrow> 't fo_label list \<Rightarrow> 't list" where
  "of_run f ls \<equiv> concat (map f ls)"

lemma mset_drop_at: "i < length xs \<Longrightarrow> mset xs = add_mset (xs ! i) (mset (drop_at i xs))"
  by (metis Cons_nth_drop_Suc append_take_drop_id drop_at_def mset.simps(2) mset_append union_mset_add_mset_right)

lemma store_update_mset:
  "h < length st \<Longrightarrow> mset (concat (map chan (st[h := p]))) + mset (chan (st ! h))
     = mset (concat (map chan st)) + mset (chan p)"
proof (induction st arbitrary: h)
  case (Cons q st)
  show ?case
  proof (cases h)
    case (Suc h')
    then show ?thesis using Cons.IH [of h'] Cons.prems by (simp add: add.assoc)
  qed simp
qed simp

text \<open>The keys of the tasks that the failover pool still has.\<close>

definition held :: "('t \<Rightarrow> 'k) \<Rightarrow> 't FailoverPool \<Rightarrow> 'k multiset" where
  "held key fp = image_mset (key \<circ> inner) (fo_active fp + mset (fo_retry_chan fp))"

lemma ledger: "b + x = a + k \<Longrightarrow> c + y = b + r \<Longrightarrow> c + (x + y) = a + k + (r :: 'a::ab_semigroup_add)"
  by (metis add.assoc add.commute)

lemma error_handle_held:
  "fo_error_handle t fp = (fp', d) \<Longrightarrow> held key fp' + mset (map key d) = held key fp + {#key (inner t)#}"
  by (auto simp: fo_error_handle_def held_def fo_active_def split: if_splits)

lemma outs_held:
  "fo_outs out fp = (fp', d) \<Longrightarrow> held key fp' + mset (map key d)
     = held key fp + mset (map (key \<circ> inner) (handed out)) + mset (map (key \<circ> inner) (reported_out out))"
proof (induction out fp arbitrary: fp' d rule: fo_outs.induct)
  case (2 t os fp)
  then show ?case using 2(1) [of fp' d] by (simp add: held_def fo_active_def)
next
  case (3 t os fp)
  obtain fp1 d1 where 1: "fo_error_handle t fp = (fp1, d1)" by fastforce
  obtain fp2 d2 where 2: "fo_outs os fp1 = (fp2, d2)" by fastforce
  have "fp' = fp2" "d = d1 @ d2" using 3(2) 1 2 by simp_all
  then show ?case using ledger [OF error_handle_held [OF 1, of key] 3(1) [OF 1 [symmetric] refl 2, unfolded add.assoc]]
    by (simp add: add.assoc comp_def)
qed simp

lemma route_held: "held key (fo_route h t fp) = held key fp + {#key (inner t)#}"
  by (simp add: fo_route_def held_def fo_active_def)

lemma held_next [simp]: "held key (fp\<lparr>fo_next_node := n\<rparr>) = held key fp"
  by (simp add: held_def fo_active_def)

lemma new_pool_held [simp]:
  "held key (fp\<lparr>fo_store := fo_store fp @ replicate k (pool_new thr sz), fo_pools := ps, fo_ver := v\<rparr>) = held key fp"
  "held key (fp\<lparr>fo_store := fo_store fp @ [pool_new thr sz], fo_pools := ps, fo_ver := v\<rparr>) = held key fp"
  by (simp_all add: held_def fo_active_def pool_new_def pool_spawn_def)

text \<open>A task stays the same task through everything the framework does to it.\<close>

locale identified_task = client_task_laws T for T :: "('c, 't) ClientTask" +
  fixes key :: "'t \<Rightarrow> 'k"
  assumes key_set_seq: "key (set_seq T n t) = key t"
    and key_set_rpc_error: "key (set_rpc_error T e t) = key t"
    and key_set_custom_error: "key (set_custom_error T c ee i v t) = key t"
    and key_set_ok: "key (set_ok T t) = key t"
    and key_decode_resp: "key (fst (decode_resp T c msg t)) = key t"
    and key_reserve: "reserve_resp_blob T sz t = Some (len, fill) \<Longrightarrow> key (fill b) = key t"
begin

lemma touched_key: "touched T t t' \<Longrightarrow> key t' = key t"
  by (induction rule: touched.induct) (auto simp: key_set_seq key_decode_resp key_reserve)

lemma stream_fact_key: "stream_fact T t f \<Longrightarrow> key (fact_task f) = key t"
  by (induction rule: stream_fact.induct)
     (simp_all add: key_set_ok key_set_custom_error key_set_rpc_error touched_key)

lemma failover_identified: "identified_task (failover_task T) (key \<circ> inner)"
proof (intro identified_task.intro failover_task_laws identified_task_axioms.intro)
  fix c msg t
  show "(key \<circ> inner) (fst (decode_resp (failover_task T) c msg t)) = (key \<circ> inner) t"
    using key_decode_resp [of c msg "inner t"] by (auto simp: fo_task_defs split: prod.splits)
qed (use key_reserve in \<open>auto simp: fo_task_defs key_set_seq key_set_rpc_error key_set_custom_error
      key_set_ok split: option.splits\<close>)

end

lemma update_addrs_loop_store:
  "update_addrs_loop addrs old fp acc = (fp', acc')
    \<Longrightarrow> \<exists>k. fp' = fp\<lparr>fo_store := fo_store fp @ replicate k (pool_new (fo_thresholds fp) (fo_channel_size fp))\<rparr>"
proof (induction addrs old fp acc rule: update_addrs_loop.induct)
  case (1 old fp acc)
  then show ?case by (auto intro: exI [of _ 0])
next
  case (2 addr addrs old fp acc)
  show ?case
  proof (cases "old addr")
    case None
    from None 2(1) [OF None fo_new_pool_eq [symmetric] refl] 2(3) obtain k where
      "fp' = fp\<lparr>fo_store := (fo_store fp @ [pool_new (fo_thresholds fp) (fo_channel_size fp)])
         @ replicate k (pool_new (fo_thresholds fp) (fo_channel_size fp))\<rparr>"
      by (auto simp: fo_new_pool_eq)
    then show ?thesis by (intro exI [of _ "Suc k"]) simp
  next
    case (Some h)
    then show ?thesis using 2(2) [OF Some] 2(3) by (simp del: fun_upd_apply)
  qed
qed

lemma update_addrs_held: "held key (update_addrs addrs fp) = held key fp"
proof -
  obtain fp1 ps where l: "update_addrs_loop addrs (map_of (rev (fo_pools fp))) fp [] = (fp1, ps)" by fastforce
  with update_addrs_loop_store [OF l] show ?thesis by (auto simp: update_addrs_def)
qed

lemma ledger_cancel: "x = s + h + r \<Longrightarrow> s + (h + r + p) = f + p \<Longrightarrow> x = (f :: 'a::cancel_ab_semigroup_add)"
  by (metis add.assoc add_right_cancel)

lemma get_or_add_held: "get_or_add_addr addr fp = (fp', h, i, v) \<Longrightarrow> held key fp' = held key fp"
  by (auto simp: get_or_add_addr_def fo_new_pool_eq Let_def split: option.splits)

lemma store_held:
  assumes "h < length (fo_store fp)"
  shows "held key (fp\<lparr>fo_store := (fo_store fp)[h := p]\<rparr>) + mset (map (key \<circ> inner) (chan (fo_store fp ! h)))
    = held key fp + mset (map (key \<circ> inner) (chan p))"
proof -
  have "image_mset (key \<circ> inner) (mset (concat (map chan ((fo_store fp)[h := p]))) + mset (chan (fo_store fp ! h)))
      = image_mset (key \<circ> inner) (mset (concat (map chan (fo_store fp))) + mset (chan p))"
    using store_update_mset [OF assms, of p] by simp
  then show ?thesis by (simp add: held_def fo_active_def ac_simps)
qed

context identified_task
begin

lemma send_held:
  "fo_send_req T t fp = (fp', d) \<Longrightarrow> held key fp' + mset (map key d) = held key fp + {#key t#}"
  by (auto simp: fo_send_req_def Let_def route_held key_set_rpc_error split: prod.splits option.splits)

lemma resubmit_held:
  assumes "resubmit T t ar n m fp = (fp', d)"
  shows "held key fp' + mset (map key d) = held key fp + {#key t#}"
proof (cases ar)
  case (Ok addr)
  then show ?thesis using assms get_or_add_held [of addr fp _ _ _ _ key]
    by (auto simp: resubmit_def route_held split: prod.splits)
next
  case (Err i)
  then show ?thesis using assms
    by (auto simp: resubmit_def route_held key_set_rpc_error split: option.splits prod.splits)
qed

lemma retry_held:
  "retry_worker_turn t fp = (fp', d) \<Longrightarrow> held key fp' + mset (map key d) = held key fp + {#key (inner t)#}"
  by (auto simp: retry_worker_turn_def Let_def route_held split: prod.splits option.splits if_splits)

lemma settle_held:
  assumes "i < length (fo_inflight fp)" "stream_fact (failover_task T) (fo_inflight fp ! i) f"
    "fo_fact f (fp\<lparr>fo_inflight := drop_at i (fo_inflight fp)\<rparr>) = (fp', d)"
  shows "held key fp' + mset (map key d) = held key fp"
proof -
  let ?fp = "fp\<lparr>fo_inflight := drop_at i (fo_inflight fp)\<rparr>"
  have "held key fp = held key ?fp + {#key (inner (fo_inflight fp ! i))#}"
    using mset_drop_at [OF assms(1)] by (simp add: held_def fo_active_def)
  moreover have "key (inner (fact_task f)) = key (inner (fo_inflight fp ! i))"
    using identified_task.stream_fact_key [OF failover_identified assms(2)] by simp
  moreover have "held key fp' + mset (map key d) = held key ?fp + {#key (inner (fact_task f))#}"
    using assms(3) error_handle_held [of _ ?fp fp' d key] by (cases f) auto
  ultimately show ?thesis by simp
qed

lemma pool_held:
  assumes "h < length (fo_store fp)" "pool_step (failover_task T) (fo_store fp ! h) (Turn out) p"
    "fo_outs out (fp\<lparr>fo_store := (fo_store fp)[h := p]\<rparr>) = (fp', d)"
  shows "held key fp' + mset (map key d) = held key fp"
proof -
  obtain rep where r: "reported_out out = map (set_rpc_error (failover_task T) Unreachable) rep"
      "mset (chan (fo_store fp ! h)) = mset (handed out) + mset rep + mset (chan p)"
    using pool_step_books [OF assms(2)] by auto
  have "map (key \<circ> inner) (reported_out out) = map (key \<circ> inner) rep"
    using r(1) by (simp add: fo_task_defs key_set_rpc_error)
  moreover have "image_mset (key \<circ> inner) (mset (chan (fo_store fp ! h)))
      = image_mset (key \<circ> inner) (mset (handed out)) + image_mset (key \<circ> inner) (mset rep)
        + image_mset (key \<circ> inner) (mset (chan p))" using r(2) by simp
  ultimately show ?thesis
    by (intro ledger_cancel [OF outs_held [OF assms(3), of key]]) (use store_held [OF assms(1), of key p] in simp)
qed

lemma enqueue_held:
  assumes "i < length (fo_sending fp)" "fo_sending fp ! i = (h, t)" "h < length (fo_store fp)"
    "pool_send_req t (fo_store fp ! h) = Some p"
  shows "held key (fp\<lparr>fo_sending := drop_at i (fo_sending fp), fo_store := (fo_store fp)[h := p]\<rparr>) = held key fp"
proof -
  let ?fp = "fp\<lparr>fo_sending := drop_at i (fo_sending fp)\<rparr>"
  have "held key fp = held key ?fp + {#key (inner t)#}"
    using mset_drop_at [OF assms(1)] assms(2) by (simp add: held_def fo_active_def)
  moreover have "chan p = chan (fo_store fp ! h) @ [t]" using assms(4) by (auto simp: pool_send_req_def split: if_splits)
  ultimately show ?thesis using store_held [of h ?fp key p] assms(3) by simp
qed

end

section \<open>Handles\<close>

text \<open>
  Every pool the cluster or a waiting send refers to exists and still has its senders, so
  the \<open>expect("submit")\<close> of \<open>ConnPool::send_req\<close> cannot fail.
\<close>

definition handle_ok :: "'t ConnPool list \<Rightarrow> nat \<Rightarrow> bool" where
  "handle_ok st h \<longleftrightarrow> h < length st \<and> tx_alive (st ! h)"

definition fo_wf :: "'t FailoverPool \<Rightarrow> bool" where
  "fo_wf fp \<longleftrightarrow> (\<forall>h \<in> snd ` set (fo_pools fp) \<union> fst ` set (fo_sending fp). handle_ok (fo_store fp) h)"

lemma pool_new_alive [simp]: "tx_alive (pool_new thr sz)" "chan (pool_new thr sz) = []"
  by (simp_all add: pool_new_def pool_spawn_def)

lemma handle_ok_append: "handle_ok st h \<Longrightarrow> handle_ok (st @ st') h"
  by (simp add: handle_ok_def nth_append)

lemma handle_ok_new: "length st \<le> h \<Longrightarrow> h < length st + k \<Longrightarrow> handle_ok (st @ replicate k (pool_new thr sz)) h"
  by (simp add: handle_ok_def nth_append)

lemma wf_shrink:
  assumes "fo_wf fp" "snd ` set (fo_pools fp') \<subseteq> snd ` set (fo_pools fp)"
    "fst ` set (fo_sending fp') \<subseteq> fst ` set (fo_sending fp)"
    "\<And>h. handle_ok (fo_store fp) h \<Longrightarrow> h \<in> snd ` set (fo_pools fp) \<union> fst ` set (fo_sending fp)
       \<Longrightarrow> handle_ok (fo_store fp') h"
  shows "fo_wf fp'"
  unfolding fo_wf_def
proof
  fix h
  assume "h \<in> snd ` set (fo_pools fp') \<union> fst ` set (fo_sending fp')"
  with assms(2,3) have h: "h \<in> snd ` set (fo_pools fp) \<union> fst ` set (fo_sending fp)" by blast
  show "handle_ok (fo_store fp') h" by (rule assms(4) [OF _ h]) (use assms(1) h in \<open>simp add: fo_wf_def\<close>)
qed

lemma route_wf: "fo_wf fp \<Longrightarrow> handle_ok (fo_store fp) h \<Longrightarrow> fo_wf (fo_route h t fp)"
  by (auto simp: fo_wf_def fo_route_def)

lemma select_wf:
  "fo_wf fp \<Longrightarrow> snd (fo_select fp route) = Some (h, i) \<Longrightarrow> handle_ok (fo_store fp) h"
  using select_handle_in [of "pool_ok fp" "fo_pools fp" "fo_stateless fp" route "fo_next_node fp" h i]
  by (simp add: fo_select_def fo_wf_def)

lemma next_wf [simp]: "fo_wf (fp\<lparr>fo_next_node := n\<rparr>) = fo_wf fp"
  by (simp add: fo_wf_def)

lemma send_wf: "fo_wf fp \<Longrightarrow> fo_send_req T t fp = (fp', d) \<Longrightarrow> fo_wf fp'"
  using select_wf [of fp "Ok ()"]
  by (auto simp: fo_send_req_def Let_def intro!: route_wf split: prod.splits option.splits)

lemma get_or_add_wf:
  assumes "fo_wf fp" "get_or_add_addr addr fp = (fp', h, i, v)"
  shows "fo_wf fp' \<and> handle_ok (fo_store fp') h"
proof (cases "get_by_addr addr (fo_pools fp)")
  case None
  then have r: "fo_store fp' = fo_store fp @ [pool_new (fo_thresholds fp) (fo_channel_size fp)]"
      "fo_pools fp' = (addr, h) # fo_pools fp" "fo_sending fp' = fo_sending fp" "h = length (fo_store fp)"
    using assms(2) by (auto simp: get_or_add_addr_def fo_new_pool_eq Let_def)
  have "handle_ok (fo_store fp') h"
    using handle_ok_new [of "fo_store fp" h 1 "fo_thresholds fp" "fo_channel_size fp"] r by simp
  moreover have "\<forall>h' \<in> snd ` set (fo_pools fp) \<union> fst ` set (fo_sending fp). handle_ok (fo_store fp') h'"
    using assms(1) handle_ok_append unfolding fo_wf_def r(1) by blast
  ultimately show ?thesis by (auto simp: fo_wf_def r(2,3))
next
  case (Some p)
  obtain h' j where "p = (h', j)" by fastforce
  with Some get_by_addr_Some [of addr "fo_pools fp" h' j] have "h' \<in> snd ` set (fo_pools fp)"
    by (metis image_eqI nth_mem snd_conv)
  then show ?thesis using assms Some \<open>p = (h', j)\<close> by (auto simp: get_or_add_addr_def fo_wf_def)
qed

lemma resubmit_wf:
  assumes "fo_wf fp" "resubmit T t ar n m fp = (fp', d)"
  shows "fo_wf fp'"
proof (cases ar)
  case (Ok addr)
  then show ?thesis using assms get_or_add_wf [OF assms(1), of addr]
    by (auto simp: resubmit_def intro!: route_wf split: prod.splits)
next
  case (Err i)
  then show ?thesis using assms select_wf [OF assms(1), of "Err i"]
    by (auto simp: resubmit_def intro!: route_wf split: prod.splits option.splits)
qed

lemma retry_wf: "fo_wf fp \<Longrightarrow> retry_worker_turn t fp = (fp', d) \<Longrightarrow> fo_wf fp'"
  using select_wf [of fp "Ok ()"] select_wf [of fp "Err (last_index t)"]
  by (auto simp: retry_worker_turn_def Let_def intro!: route_wf split: prod.splits option.splits if_splits)

lemma update_addrs_loop_handles:
  "update_addrs_loop addrs old fp acc = (fp', acc') \<Longrightarrow>
   \<forall>h \<in> snd ` set acc'. h \<in> snd ` set acc \<or> h \<in> ran old \<or> (length (fo_store fp) \<le> h \<and> h < length (fo_store fp'))"
proof (induction addrs old fp acc rule: update_addrs_loop.induct)
  case (2 addr addrs old fp acc)
  show ?case
  proof (cases "old addr")
    case None
    let ?fp = "fp\<lparr>fo_store := fo_store fp @ [pool_new (fo_thresholds fp) (fo_channel_size fp)]\<rparr>"
    have l: "update_addrs_loop addrs old ?fp (acc @ [(addr, length (fo_store fp))]) = (fp', acc')"
      using 2(3) None by (simp add: fo_new_pool_eq)
    have "length (fo_store fp) < length (fo_store fp')" using update_addrs_loop_store [OF l] by auto
    moreover from None 2(1) [OF None fo_new_pool_eq [symmetric] refl l]
    have "\<forall>h \<in> snd ` set acc'. h = length (fo_store fp) \<or> h \<in> snd ` set acc \<or> h \<in> ran old
        \<or> (Suc (length (fo_store fp)) \<le> h \<and> h < length (fo_store fp'))" by auto
    ultimately show ?thesis by (metis Suc_leD order_refl)
  next
    case (Some h)
    then have "h \<in> ran old" "ran (old(addr := None)) \<subseteq> ran old" by (auto simp: ran_def)
    then show ?thesis using 2(2) [OF Some] 2(3) Some by (fastforce simp del: fun_upd_apply)
  qed
qed simp

lemma update_addrs_wf:
  assumes "fo_wf fp"
  shows "fo_wf (update_addrs addrs fp)"
proof -
  let ?new = "pool_new (fo_thresholds fp) (fo_channel_size fp)"
  obtain fp1 ps where l: "update_addrs_loop addrs (map_of (rev (fo_pools fp))) fp [] = (fp1, ps)" by fastforce
  obtain k where k: "fp1 = fp\<lparr>fo_store := fo_store fp @ replicate k ?new\<rparr>"
    using update_addrs_loop_store [OF l] by blast
  have "ran (map_of (rev (fo_pools fp))) \<subseteq> snd ` set (fo_pools fp)" by (force simp: ran_def dest: map_of_SomeD)
  then have "\<forall>h \<in> snd ` set ps. h \<in> snd ` set (fo_pools fp) \<or> (length (fo_store fp) \<le> h \<and> h < length (fo_store fp) + k)"
    using update_addrs_loop_handles [OF l] k by auto
  note hs = this
  have old: "handle_ok (fo_store fp @ replicate k ?new) h"
    if "h \<in> snd ` set (fo_pools fp) \<union> fst ` set (fo_sending fp)" for h
    by (rule handle_ok_append) (use assms that in \<open>simp add: fo_wf_def\<close>)
  have "handle_ok (fo_store fp @ replicate k ?new) h" if "h \<in> snd ` set ps" for h
    using hs [rule_format, OF that] old handle_ok_new by blast
  with old have "fo_wf (fp1\<lparr>fo_pools := ps, fo_ver := fo_ver fp + 1\<rparr>)" by (simp add: fo_wf_def k ball_Un)
  then show ?thesis using l by (simp add: update_addrs_def)
qed

text \<open>A turn of a pool's worker keeps its senders, and its outputs touch no handle.\<close>

lemma pool_turn_alive: "pool_step T p (Turn out) p' \<Longrightarrow> tx_alive p' = tx_alive p"
  by (erule pool_step.cases) (auto simp: cleanup_def dest: turn_health)

lemma error_handle_wf:
  "fo_error_handle t fp = (fp', d) \<Longrightarrow>
   fo_pools fp' = fo_pools fp \<and> fo_sending fp' = fo_sending fp \<and> fo_store fp' = fo_store fp"
  by (auto simp: fo_error_handle_def split: if_splits)

lemma outs_wf:
  "fo_outs out fp = (fp', d) \<Longrightarrow>
   fo_pools fp' = fo_pools fp \<and> fo_sending fp' = fo_sending fp \<and> fo_store fp' = fo_store fp"
proof (induction out fp arbitrary: fp' d rule: fo_outs.induct)
  case (3 t os fp)
  obtain fp1 d1 where 1: "fo_error_handle t fp = (fp1, d1)" by fastforce
  obtain fp2 d2 where 2: "fo_outs os fp1 = (fp2, d2)" by fastforce
  show ?case using 3(2) 1 2 error_handle_wf [OF 1] 3(1) [OF 1 [symmetric] refl 2] by simp
qed auto

lemma handle_ok_update:
  "handle_ok st h' \<Longrightarrow> (h' = h \<Longrightarrow> tx_alive p) \<Longrightarrow> handle_ok (st[h := p]) h'"
  by (cases "h' = h") (auto simp: handle_ok_def)

lemma handle_ok_same:
  "tx_alive p = tx_alive (st ! h) \<Longrightarrow> handle_ok st h' \<Longrightarrow> handle_ok (st[h := p]) h'"
  by (rule handle_ok_update) (auto simp: handle_ok_def)

lemma in_drop_at: "x \<in> set (drop_at i xs) \<Longrightarrow> x \<in> set xs"
  by (auto simp: drop_at_def dest: in_set_takeD in_set_dropD)

lemma fo_step_wf:
  assumes "fo_step T fp l fp'" "fo_wf fp"
  shows "fo_wf fp'"
  using assms(1)
proof cases
  case (fs_enqueue i h t p)
  have "tx_alive p = tx_alive (fo_store fp ! h)"
    using fs_enqueue(5) by (auto simp: pool_send_req_def split: if_splits)
  then show ?thesis unfolding fs_enqueue(2)
    by (intro wf_shrink [OF assms(2)]) (auto intro: handle_ok_same dest: in_drop_at intro: rev_image_eqI)
next
  case (fs_pool h out p d)
  have "tx_alive p = tx_alive (fo_store fp ! h)" by (rule pool_turn_alive [OF fs_pool(3)])
  then show ?thesis using outs_wf [OF fs_pool(4)]
    by (intro wf_shrink [OF assms(2)]) (auto intro: handle_ok_same)
next
  case (fs_close h p)
  then show ?thesis by (intro wf_shrink [OF assms(2)]) (auto intro!: handle_ok_update)
next
  case (fs_settle i f d)
  have "fo_pools fp' = fo_pools fp \<and> fo_sending fp' = fo_sending fp \<and> fo_store fp' = fo_store fp"
    using fs_settle(4) error_handle_wf by (cases f) fastforce+
  then show ?thesis using assms(2) by (simp add: fo_wf_def)
next
  case (fs_retry t ts d)
  show ?thesis by (rule retry_wf [OF _ fs_retry(3)]) (use assms(2) in \<open>simp add: fo_wf_def\<close>)
next
  case (fs_lost i t c room cid buf)
  then show ?thesis by (intro wf_shrink [OF assms(2)]) auto
next
  case fs_drop
  then show ?thesis by (intro wf_shrink [OF assms(2)]) auto
qed (use assms(2) in \<open>auto intro: send_wf resubmit_wf update_addrs_wf\<close>)

lemma fo_new_wf: "fo_wf (fo_new thr addrs st lim sz)"
  by (auto simp: fo_wf_def fo_new_def handle_ok_def set_zip)

lemma fo_run_wf: "fo_run T fp ls fp' \<Longrightarrow> fo_wf fp \<Longrightarrow> fo_wf fp'"
  by (induction rule: fo_run.induct) (auto intro: fo_step_wf)

section \<open>Properties of runs\<close>

lemma ledger_step:
  fixes a :: "'a::ab_semigroup_add"
  assumes "a + i = b + d + l" "b + i' = c + d' + l'"
  shows "a + (i + i') = c + (d + d') + (l + l')"
proof -
  have "a + (i + i') = (b + d + l) + i'" using assms(1) by (simp flip: add.assoc)
  also have "\<dots> = (b + i') + (d + l)" by (simp add: ac_simps)
  also have "\<dots> = c + (d + d') + (l + l')" unfolding assms(2) by (simp add: ac_simps)
  finally show ?thesis .
qed

context identified_task
begin

lemma fo_step_held:
  assumes "fo_step T fp l fp'" "fo_wf fp"
  shows "held key fp + mset (map key (lab_in l))
    = held key fp' + mset (map key (lab_done l)) + mset (map key (lab_lost l))"
  using assms(1)
proof cases
  case (fs_send t d)
  then show ?thesis using send_held by simp
next
  case (fs_resubmit t ar n m d)
  then show ?thesis using resubmit_held by simp
next
  case (fs_enqueue i h t p)
  have "h < length (fo_store fp)"
    using assms(2) nth_mem [OF fs_enqueue(3)] fs_enqueue(4) by (force simp: fo_wf_def handle_ok_def)
  then show ?thesis using enqueue_held [OF fs_enqueue(3,4) _ fs_enqueue(5)] fs_enqueue by simp
next
  case (fs_pool h out p d)
  then show ?thesis using pool_held [OF fs_pool(2-4)] by simp
next
  case (fs_close h p)
  have "chan p = chan (fo_store fp ! h)" using fs_close(6) by (cases rule: pool_step.cases) auto
  then show ?thesis using store_held [OF fs_close(3), of key p] fs_close(1,2) by simp
next
  case (fs_settle i f d)
  then show ?thesis using settle_held [OF fs_settle(2-4)] by simp
next
  case (fs_lost i t c room cid buf)
  then show ?thesis using mset_drop_at [OF fs_lost(3)] by (simp add: held_def fo_active_def)
next
  case (fs_retry t ts d)
  have "held key fp = held key (fp\<lparr>fo_retry_chan := ts\<rparr>) + {#key (inner t)#}"
    using fs_retry(2) by (simp add: held_def fo_active_def)
  then show ?thesis using retry_held [OF fs_retry(3)] fs_retry(1) by simp
next
  case (fs_update addrs)
  then show ?thesis by (simp add: update_addrs_held)
qed (simp_all add: held_def fo_active_def)

lemma fo_run_held:
  assumes "fo_run T fp ls fp'" "fo_wf fp"
  shows "held key fp + mset (map key (of_run lab_in ls))
    = held key fp' + mset (map key (of_run lab_done ls)) + mset (map key (of_run lab_lost ls))"
  using assms
proof (induction rule: fo_run.induct)
  case (fr_snoc fp ls fp1 l fp2)
  note ih = fr_snoc.IH [OF fr_snoc.prems]
  note st = fo_step_held [OF fr_snoc.hyps(2) fo_run_wf [OF fr_snoc.hyps(1) fr_snoc.prems]]
  show ?case using ledger_step [OF ih st] by simp
qed simp

end

lemma fo_new_held [simp]: "held key (fo_new thr addrs st lim sz) = {#}"
  by (simp add: held_def fo_active_def fo_new_def)


text \<open>
  A send never meets a closed channel: whatever addresses come and go, a pool that the
  cluster lists or that a waiting task is bound for still has its senders, so
  \<open>expect("submit")\<close> does not panic.
\<close>

lemma submit_never_fails:
  assumes "fo_run T (fo_new thr addrs st lim sz) ls fp" "(h, t) \<in> set (fo_sending fp)"
  shows "h < length (fo_store fp) \<and> tx_alive (fo_store fp ! h)"
  using fo_run_wf [OF assms(1) fo_new_wf] assms(2) by (force simp: fo_wf_def handle_ok_def)

section \<open>Retries are bounded\<close>

text \<open>
  How many more hops a task can cause: what is left of its limit, and one more while it is
  in the retry channel.
\<close>

definition left :: "nat \<Rightarrow> 't FailoverTask \<Rightarrow> nat" where
  "left lim t = (if max_retries t > 0 then max_retries t else lim) - retry t"

definition potential :: "nat \<Rightarrow> 't FailoverPool \<Rightarrow> nat" where
  "potential lim fp = (\<Sum>t \<in># fo_active fp. left lim t) + (\<Sum>t \<in># mset (fo_retry_chan fp). Suc (left lim t))"

text \<open>The budget a caller gives with a task.\<close>

fun budget :: "nat \<Rightarrow> 't fo_label \<Rightarrow> nat" where
  "budget lim (Fo_In t d) = lim"
| "budget lim (Fo_Again t (Ok a) n m d) =
    (case m of Some k \<Rightarrow> if k > 0 then k else lim | None \<Rightarrow> lim) - n"
| "budget lim (Fo_Again t (Err i) n m d) = lim"
| "budget lim _ = 0"

fun hop :: "'t fo_label \<Rightarrow> nat" where
  "hop (Fo_Hop d) = 1"
| "hop _ = 0"

lemma touched_keeps_retry:
  "touched (failover_task T) t t' \<Longrightarrow> retry t' = retry t \<and> max_retries t' = max_retries t"
  by (induction rule: touched.induct) (auto simp: fo_task_defs split: prod.splits option.splits)

text \<open>A reported task wants a retry only if its count went up.\<close>

definition counted :: "'t FailoverTask \<Rightarrow> 't FailoverTask \<Rightarrow> bool" where
  "counted t t' \<longleftrightarrow> max_retries t' = max_retries t \<and> (should_retry t' \<longrightarrow> retry t' = retry t + 1)"

lemma rpc_error_counted: "retry t = retry t0 \<and> max_retries t = max_retries t0 \<Longrightarrow> counted t0 (set_rpc_error (failover_task T) e t)"
  by (auto simp: counted_def fo_task_defs)

lemma stream_fact_counted:
  "stream_fact (failover_task T) t f \<Longrightarrow> f = Error_Handle t' \<Longrightarrow> counted t t'"
proof (induction rule: stream_fact.induct)
  case (sf_custom t u c e)
  then show ?case using touched_keeps_retry [OF sf_custom(1)] by (auto simp: counted_def fo_task_defs)
next
  case (sf_rpc t u e)
  then show ?case using rpc_error_counted [OF touched_keeps_retry [OF sf_rpc(1)]] by auto
qed simp

lemma error_handle_potential:
  assumes "fo_error_handle t' fp = (fp', d)" "counted t t'"
  shows "potential (fo_retry_limit fp) fp' \<le> potential (fo_retry_limit fp) fp + left (fo_retry_limit fp) t
    \<and> fo_retry_limit fp' = fo_retry_limit fp"
  using assms
  by (auto simp: fo_error_handle_def potential_def fo_active_def left_def eff_limit_def counted_def split: if_splits)

lemma outs_potential:
  assumes "fo_outs out fp = (fp', d)" "reported_out out = map (set_rpc_error (failover_task T) Unreachable) rep"
  shows "potential (fo_retry_limit fp) fp' \<le> potential (fo_retry_limit fp) fp
      + (\<Sum>t \<in># mset (handed out). left (fo_retry_limit fp) t) + (\<Sum>t \<in># mset rep. left (fo_retry_limit fp) t)
    \<and> fo_retry_limit fp' = fo_retry_limit fp"
  using assms
proof (induction out fp arbitrary: fp' d rep rule: fo_outs.induct)
  case (2 t os fp)
  show ?case using 2(1) [of fp' d rep] 2(2,3) by (simp add: potential_def fo_active_def)
next
  case (3 t os fp)
  obtain fp1 d1 where 1: "fo_error_handle t fp = (fp1, d1)" by fastforce
  obtain fp2 d2 where 2: "fo_outs os fp1 = (fp2, d2)" by fastforce
  obtain r rep' where r: "rep = r # rep'" "t = set_rpc_error (failover_task T) Unreachable r"
      "reported_out os = map (set_rpc_error (failover_task T) Unreachable) rep'"
    using 3(3) by (cases rep) auto
  have "counted r t" using rpc_error_counted [of r r T Unreachable] r(2) by simp
  from error_handle_potential [OF 1 this] 3(1) [OF 1 [symmetric] refl 2 r(3)]
  show ?case using 3(2) 1 2 r(1) by simp
qed simp

lemma route_potential: "potential lim (fo_route h t fp) = potential lim fp + left lim t"
  by (simp add: fo_route_def potential_def fo_active_def)

lemma potential_next [simp]: "potential lim (fp\<lparr>fo_next_node := n\<rparr>) = potential lim fp"
  by (simp add: potential_def fo_active_def)

lemma potential_new_pool [simp]:
  "potential lim (fp\<lparr>fo_store := fo_store fp @ replicate k (pool_new thr sz), fo_pools := ps, fo_ver := v\<rparr>) = potential lim fp"
  "potential lim (fp\<lparr>fo_store := fo_store fp @ [pool_new thr sz], fo_pools := ps, fo_ver := v\<rparr>) = potential lim fp"
  by (simp_all add: potential_def fo_active_def)

lemma route_limit [simp]: "fo_retry_limit (fo_route h t fp) = fo_retry_limit fp"
  by (simp add: fo_route_def)

lemma store_potential:
  assumes "h < length (fo_store fp)"
  shows "potential lim (fp\<lparr>fo_store := (fo_store fp)[h := p]\<rparr>) + (\<Sum>t \<in># mset (chan (fo_store fp ! h)). left lim t)
    = potential lim fp + (\<Sum>t \<in># mset (chan p). left lim t)"
proof -
  have "(\<Sum>t \<in># mset (concat (map chan ((fo_store fp)[h := p]))) + mset (chan (fo_store fp ! h)). left lim t)
      = (\<Sum>t \<in># mset (concat (map chan (fo_store fp))) + mset (chan p). left lim t)"
    using store_update_mset [OF assms, of p] by simp
  then show ?thesis by (simp add: potential_def fo_active_def)
qed

lemma update_addrs_potential:
  "potential lim (update_addrs addrs fp) = potential lim fp \<and> fo_retry_limit (update_addrs addrs fp) = fo_retry_limit fp"
proof -
  obtain fp1 ps where l: "update_addrs_loop addrs (map_of (rev (fo_pools fp))) fp [] = (fp1, ps)" by fastforce
  with update_addrs_loop_store [OF l] show ?thesis by (auto simp: update_addrs_def)
qed

lemma send_potential:
  "fo_send_req T t fp = (fp', d) \<Longrightarrow> potential lim fp' \<le> potential lim fp + lim \<and> fo_retry_limit fp' = fo_retry_limit fp"
  by (auto simp: fo_send_req_def Let_def route_potential left_def split: prod.splits option.splits)

lemma get_or_add_potential:
  "get_or_add_addr addr fp = (fp', h, i, v) \<Longrightarrow> potential lim fp' = potential lim fp \<and> fo_retry_limit fp' = fo_retry_limit fp"
  by (auto simp: get_or_add_addr_def fo_new_pool_eq Let_def split: option.splits)

lemma resubmit_potential:
  assumes "resubmit T t ar n m fp = (fp', d)"
  shows "potential lim fp' \<le> potential lim fp + budget lim (Fo_Again t ar n m d) \<and> fo_retry_limit fp' = fo_retry_limit fp"
proof (cases ar)
  case (Ok addr)
  obtain fp1 h i v where g: "get_or_add_addr addr fp = (fp1, h, i, v)" by (metis prod_cases4)
  show ?thesis using assms Ok g get_or_add_potential [OF g, of lim]
    by (auto simp: resubmit_def route_potential left_def split: option.splits)
next
  case (Err i)
  then show ?thesis using assms
    by (auto simp: resubmit_def route_potential left_def split: option.splits prod.splits)
qed

lemma retry_potential:
  "retry_worker_turn t fp = (fp', d) \<Longrightarrow> potential lim fp' \<le> potential lim fp + left lim t \<and> fo_retry_limit fp' = fo_retry_limit fp"
  by (auto simp: retry_worker_turn_def Let_def route_potential left_def split: prod.splits option.splits if_splits)

lemma enqueue_potential:
  assumes "fo_wf fp" "i < length (fo_sending fp)" "fo_sending fp ! i = (h, t)"
    and "pool_send_req t (fo_store fp ! h) = Some p"
  shows "potential lim (fp\<lparr>fo_sending := drop_at i (fo_sending fp), fo_store := (fo_store fp)[h := p]\<rparr>) = potential lim fp"
proof -
  let ?fp = "fp\<lparr>fo_sending := drop_at i (fo_sending fp)\<rparr>"
  have h: "h < length (fo_store ?fp)"
    using assms(1) nth_mem [OF assms(2)] assms(3) by (force simp: fo_wf_def handle_ok_def)
  have "potential lim fp = potential lim ?fp + left lim t"
    using mset_drop_at [OF assms(2)] assms(3) by (simp add: potential_def fo_active_def)
  moreover have "chan p = chan (fo_store fp ! h) @ [t]"
    using assms(4) by (auto simp: pool_send_req_def split: if_splits)
  ultimately show ?thesis using store_potential [OF h, of lim p] by simp
qed

lemma settle_potential:
  assumes "i < length (fo_inflight fp)" "stream_fact (failover_task T) (fo_inflight fp ! i) f"
    and "fo_fact f (fp\<lparr>fo_inflight := drop_at i (fo_inflight fp)\<rparr>) = (fp', d)" "lim = fo_retry_limit fp"
  shows "potential lim fp' \<le> potential lim fp \<and> fo_retry_limit fp' = lim"
proof -
  let ?fp = "fp\<lparr>fo_inflight := drop_at i (fo_inflight fp)\<rparr>"
  have p: "potential lim fp = potential lim ?fp + left lim (fo_inflight fp ! i)"
    using mset_drop_at [OF assms(1)] by (simp add: potential_def fo_active_def)
  show ?thesis
  proof (cases f)
    case (Error_Handle t')
    then show ?thesis
      using error_handle_potential [of t' ?fp fp' d] stream_fact_counted [OF assms(2)] assms(3,4) p by simp
  next
    case (Task_Done t')
    then show ?thesis using assms(3,4) p by auto
  qed
qed

lemma fo_step_potential:
  assumes "fo_step T fp l fp'" "fo_wf fp" "lim = fo_retry_limit fp"
  shows "hop l + potential lim fp' \<le> potential lim fp + budget lim l \<and> fo_retry_limit fp' = lim"
  using assms(1)
proof cases
  case (fs_send t d)
  then show ?thesis using send_potential [OF fs_send(3), of lim] assms(3) by simp
next
  case (fs_resubmit t ar n m d)
  then show ?thesis using resubmit_potential [OF fs_resubmit(3), of lim] assms(3) by simp
next
  case (fs_update addrs)
  then show ?thesis using update_addrs_potential [of lim addrs fp] assms(3) by simp
next
  case (fs_enqueue i h t p)
  then show ?thesis using enqueue_potential [OF assms(2) fs_enqueue(3-5), of lim] assms(3) by simp
next
  case (fs_pool h out p d)
  obtain rep where r: "reported_out out = map (set_rpc_error (failover_task T) Unreachable) rep"
      "mset (chan (fo_store fp ! h)) = mset (handed out) + mset rep + mset (chan p)"
    using pool_step_books [OF fs_pool(3)] by auto
  show ?thesis
    using outs_potential [OF fs_pool(4) r(1)] store_potential [OF fs_pool(2), of lim p] fs_pool(1) assms(3)
    unfolding r(2) by simp
next
  case (fs_close h p)
  have "chan p = chan (fo_store fp ! h)" using fs_close(6) by (cases rule: pool_step.cases) auto
  then show ?thesis using store_potential [OF fs_close(3), of lim p] fs_close(1,2) assms(3) by simp
next
  case (fs_settle i f d)
  then show ?thesis using settle_potential [OF fs_settle(2-4) assms(3)] by simp
next
  case (fs_lost i t c room cid buf)
  then show ?thesis using mset_drop_at [OF fs_lost(3)] assms(3) by (simp add: potential_def fo_active_def)
next
  case (fs_retry t ts d)
  have "potential lim fp = potential lim (fp\<lparr>fo_retry_chan := ts\<rparr>) + Suc (left lim t)"
    using fs_retry(2) by (simp add: potential_def fo_active_def)
  then show ?thesis using retry_potential [OF fs_retry(3), of lim] fs_retry(1) assms(3) by simp
next
  case fs_drop
  then show ?thesis using assms(3) by (simp add: potential_def fo_active_def)
qed

lemma fo_run_potential:
  assumes "fo_run T fp ls fp'" "fo_wf fp" "lim = fo_retry_limit fp"
  shows "sum_list (map hop ls) + potential lim fp' \<le> potential lim fp + sum_list (map (budget lim) ls)
    \<and> fo_retry_limit fp' = lim"
  using assms
proof (induction rule: fo_run.induct)
  case (fr_snoc fp ls fp1 l fp2)
  then show ?case
    using fo_step_potential [OF fr_snoc.hyps(2) fo_run_wf [OF fr_snoc.hyps(1) fr_snoc.prems(1)], of lim] by simp
qed simp

text \<open>
  C17: retries are bounded. In any run of a failover pool the retry worker takes at most
  \<open>retry_limit\<close> turns for each task sent, or the limit of its own that was given with a
  resubmitted task, less the count it came with: a failing cluster cannot make tasks circle
  forever.
\<close>

theorem retries_are_bounded:
  assumes "fo_run T (fo_new thr addrs st lim sz) ls fp"
  shows "sum_list (map hop ls) \<le> sum_list (map (budget lim) ls)"
proof -
  have "lim = fo_retry_limit (fo_new thr addrs st lim sz)" by (simp add: fo_new_def)
  from conjunct1 [OF fo_run_potential [OF assms fo_new_wf this]]
  show ?thesis by (simp add: potential_def fo_active_def fo_new_def)
qed

text \<open>
  In a cluster without a healthy pool \<open>send_req\<close> reports the task at once as
  unreachable and routes nothing.
\<close>

lemma unhealthy_cluster_rejects:
  assumes "\<forall>p \<in> set (fo_pools fp). \<not> is_healthy (fo_store fp ! snd p)"
  shows "snd (fo_send_req T t fp) = [set_rpc_error T Unreachable t]
    \<and> fo_sending (fst (fo_send_req T t fp)) = fo_sending fp"
proof -
  have "snd (select (pool_ok fp) (fo_pools fp) (fo_stateless fp) (Ok ()) (fo_next_node fp)) = None"
  proof (rule ccontr)
    assume "\<not> ?thesis"
    then obtain i where "fo_pools fp \<noteq> []" "pool_ok fp (snd (fo_pools fp ! (i mod length (fo_pools fp))))"
      by (auto simp: select_def Let_def find_Some_iff split: if_splits prod.splits option.splits)
    moreover from this(1) have "fo_pools fp ! (i mod length (fo_pools fp)) \<in> set (fo_pools fp)" by simp
    ultimately show False using assms by (simp add: pool_ok_def)
  qed
  then show ?thesis by (auto simp: fo_send_req_def fo_select_def Let_def split: prod.splits)
qed

section \<open>Witnesses\<close>

type_synonym probe = "u64 \<times> RpcIntErr option"

lemma probe_identified: "identified_task probe_task (\<lambda>_. ())"
  by (intro identified_task.intro probe_task_laws identified_task_axioms.intro) simp_all

definition demo_addr :: rstr where "demo_addr = lit ''n1''"

definition demo_cluster :: "probe FailoverPool" where
  "demo_cluster = fo_new 0 [demo_addr, lit ''n2''] True 3 8"

definition demo_try :: "nat \<Rightarrow> nat \<times> probe FailoverTask" where
  "demo_try i = (i mod 2, \<lparr>last_index = i, config_ver = 0, inner = (0, None), retry = 0,
     should_retry = False, max_retries = 0\<rparr>)"

definition demo_routed :: "probe FailoverPool" where
  "demo_routed = demo_cluster\<lparr>fo_next_node := 1, fo_sending := [demo_try 0]\<rparr>"

lemma demo_healthy: "all_healthy demo_cluster" "fo_stateless demo_cluster" "length (fo_pools demo_cluster) = 2"
  "fo_next_node demo_cluster = 0" "fo_sending demo_cluster = []"
  by (simp_all add: all_healthy_def demo_cluster_def fo_new_def pool_ok_def is_healthy_def pool_new_def
      pool_spawn_def upt_rec)

lemma demo_send: "fo_send_req probe_task (0, None) demo_cluster = (demo_routed, [])"
  using send_round_robin [of demo_cluster probe_task "(0, None)"] demo_healthy
  by (simp add: demo_routed_def first_try_def demo_try_def) (simp add: demo_cluster_def fo_new_def upt_rec)

lemma demo_fo_run: "fo_run probe_task demo_cluster ([] @ [Fo_In (0, None) []]) demo_routed"
  by (rule fr_snoc [OF fr_nil fs_send]) (simp_all add: demo_send, simp add: demo_cluster_def fo_new_def)

lemmas demo_fo_run' = demo_fo_run [unfolded demo_cluster_def]

theorem select_takes_next_healthy_witness:
  "select_seed True (Err 0) 5 = (5, 1)
   \<and> (case snd (select (\<lambda>h. h = 7) [(demo_addr, 7), (demo_addr, 8)] True (Err 0) 5) of
        None \<Rightarrow> False | Some (h, i) \<Rightarrow> h = 7 \<and> i = 2)"
proof -
  have s: "select_seed True (Err 0) 5 = (5, 1)" by (simp add: select_seed_def usize_add_def)
  have "snd (select (\<lambda>h. h = 7) [(demo_addr, 7), (demo_addr, 8)] True (Err 0) 5) = Some (7, 2)"
    by (simp add: select_def s usize_add_def upt_rec)
  with select_takes_next_healthy [OF s, of "[(demo_addr, 7), (demo_addr, 8)]" "\<lambda>h. h = 7"] s show ?thesis by simp
qed


theorem update_addrs_reuses_pools_witness:
  "\<exists>hs. fo_pools (update_addrs [lit ''n2''] demo_cluster) = zip [lit ''n2''] hs \<and> length hs = 1"
  using update_addrs_reuses_pools [of "[lit ''n2'']" demo_cluster]
  by (fastforce simp: demo_cluster_def fo_new_def demo_addr_def lit_def upt_rec)


theorem retries_are_bounded_witness: "sum_list (map hop [Fo_In (0, None) [] :: probe fo_label]) \<le> 3"
  using retries_are_bounded [OF demo_fo_run'] by simp

lemma demo_sick: "\<forall>p \<in> set (fo_pools demo_cluster).
    \<not> is_healthy (fo_store (demo_cluster\<lparr>fo_store := [set_err (pool_new 0 8), set_err (pool_new 0 8)]\<rparr>) ! snd p)"
  by (simp add: demo_cluster_def fo_new_def is_healthy_def set_err_def upt_rec)

end
