(* ===== verification/Pool_Stream.thy ===== *)
theory Pool_Stream
  imports Tcp_Client Failover
begin

text \<open>
  A connection and the pool that uses it. The failover pool is modelled with tasks in flight that
  a connection settles, loses or turns away (\<open>Failover\<close>); here the connections themselves
  (\<open>Client_Stream\<close>, over TCP) are shown to do nothing else.
\<close>

section \<open>The tasks of a run\<close>

text \<open>The tasks sent with their numbers, the facts reported, and the tasks turned away.\<close>

fun numbered :: "'t cs_label list \<Rightarrow> (u64 \<times> 't) list" where
  "numbered [] = []"
| "numbered (Sent t n _ _ # ls) = (n, t) # numbered ls"
| "numbered (_ # ls) = numbered ls"

fun stream_facts :: "'t cs_label list \<Rightarrow> 't fact list" where
  "stream_facts [] = []"
| "stream_facts (Sent _ _ _ out # ls) = out @ stream_facts ls"
| "stream_facts (Received out # ls) = out @ stream_facts ls"
| "stream_facts (_ # ls) = stream_facts ls"

fun turned_away :: "'t cs_label list \<Rightarrow> ('t \<times> 't fact list) list" where
  "turned_away [] = []"
| "turned_away (Rejected t out # ls) = (t, out) # turned_away ls"
| "turned_away (_ # ls) = turned_away ls"

lemma tasks_append [simp]:
  "numbered (ls @ ls') = numbered ls @ numbered ls'" "stream_facts (ls @ ls') = stream_facts ls @ stream_facts ls'"
  "turned_away (ls @ ls') = turned_away ls @ turned_away ls'"
  by (induction ls rule: stream_facts.induct) simp_all

lemma numbered_seqs: "map fst (numbered ls) = sent_seqs ls"
  by (induction ls rule: numbered.induct) simp_all

lemma stream_facts_settled: "map fact_task (stream_facts ls) = settled ls"
  by (induction ls rule: stream_facts.induct) simp_all

section \<open>Where the tasks of a connection come from\<close>

text \<open>What one step adds: tasks enter the timer only by being sent, and facts settle tasks of the timer or the task sent.\<close>

definition step_origin ::
  "('c, 't) ClientTask \<Rightarrow> 'c \<Rightarrow> ('t, 'n) ClientStream \<Rightarrow> 't cs_label \<Rightarrow> ('t, 'n) ClientStream \<Rightarrow> bool" where
  "step_origin T c s l s' \<longleftrightarrow>
    (let known = set (timeline (timer s)) \<union> (\<lambda>(n, u). set_seq T n u) ` set (numbered [l])
     in set (timeline (timer s')) \<subseteq> known \<and> (\<forall>f \<in> set (stream_facts [l]). \<exists>t \<in> known. settles T t f))
    \<and> (\<forall>n \<in> set (lost_seqs [l]). \<exists>u room cid buf. (n, u) \<in> set (numbered [l])
         \<and> req_encode T c room cid (set_seq T n u) = Returns (buf, Err ()))
    \<and> (\<forall>(t, out) \<in> set (turned_away [l]). \<exists>f. out = [f] \<and> settles T t f)"

lemma step_originD:
  assumes "step_origin T c s l s'" "set (timeline (timer s)) \<subseteq> K"
  shows "set (timeline (timer s')) \<subseteq> K \<union> (\<lambda>(n, u). set_seq T n u) ` set (numbered [l])"
    and "f \<in> set (stream_facts [l]) \<Longrightarrow> \<exists>t \<in> K \<union> (\<lambda>(n, u). set_seq T n u) ` set (numbered [l]). settles T t f"
  using assms unfolding step_origin_def Let_def by (blast, blast)

lemma step_origin_received:
  "facts_from T (timer s) out (timer s') \<Longrightarrow> step_origin T c s (Received out) s'"
  by (simp add: step_origin_def facts_from_def)

lemma step_origin_silent: "timeline (timer s') = timeline (timer s) \<Longrightarrow> step_origin T c s Silent s'"
  by (simp add: step_origin_def)

context client_transport
begin

lemma send_finish_origin:
  assumes f: "send_finish T P c t fl s = Returns (s', out, r)" and inv: "stream_inv T k s" "sender s = Sending t fl"
  shows "step_origin T c s (Sent t (cs_seq s) (r \<noteq> Ok () \<and> out = []) out) s'"
proof -
  let ?t = "set_seq T (cs_seq s) t"
  obtain tm where tm: "reg_task ?t (timer s) = Some tm"
    using reg_task_has_room [of s] inv by (auto simp: stream_inv_def)
  then have "timeline tm = timeline (timer s) @ [?t]" by (auto simp: reg_task_def timeline_def split: if_splits)
  then show ?thesis
    using f tm worked_settles(2) [OF worked_refl, of ?t IO]
    by (auto simp: step_origin_def send_finish_def send_request_def seq_update_def Let_def
        split: panics.splits prod.splits result.splits option.splits)
qed

lemma receive_turn_origin:
  assumes ti: "timer_inv T (timer s)" and r: "receive_loop_turn T P c now n fuel s = Some (Returns (s', out))"
  shows "facts_from T (timer s) out (timer s')"
proof -
  obtain s1 o1 res where p: "receiver_poll T P c now n fuel s = Some (Returns (s1, o1, res))"
    using r by (auto simp: receive_loop_turn_def split: option.splits panics.splits prod.splits)
  have m: "recv_moves T s o1 s1" by (rule receiver_poll_moves [OF ti p])
  have f: "facts_from T (timer s) o1 (timer s1)" "timer_inv T (timer s1)"
    using m recv_moves_inv [OF m] by (simp_all add: recv_moves_def)
  show ?thesis
  proof (cases "\<exists>e. res = Ready (Err e)")
    case True
    then obtain tm o2 where c: "clean_pending_tasks T (timer s1) = Returns (tm, o2)"
        "timer s' = tm" "out = o1 @ map Error_Handle o2"
      using r p by (auto simp: receive_loop_turn_def receive_exit_def clean_timer_def cleanup_check_def
          split: panics.splits prod.splits)
    from facts_from_trans [OF f(1) clean_facts_from [OF client_task_laws_axioms f(2) c(1)]] c(2,3) show ?thesis by simp
  next
    case False
    then have "s' = s1" "out = o1"
      using r p by (auto simp: receive_loop_turn_def split: poll.splits result.splits)
    then show ?thesis using f(1) by simp
  qed
qed

lemma stream_step_origin:
  assumes "stream_step T P c wg_ready s l s'" "stream_inv T k s"
  shows "step_origin T c s l s'"
proof -
  have ti: "timer_inv T (timer s)" using assms(2) by (simp add: stream_inv_def counts_ok_def)
  from assms(1) show ?thesis
  proof cases
    case (st_reject t fl out r)
    then show ?thesis using worked_settles(2) [OF worked_refl, of t IO]
      by (auto simp: send_begin_def step_origin_def Let_def split: if_splits)
  next
    case (st_finish t fl out r)
    then show ?thesis using send_finish_origin [OF st_finish(4) assms(2) st_finish(2)] by simp
  next
    case (st_receive now n fuel out)
    then show ?thesis using receive_turn_origin [OF ti] by (blast intro: step_origin_received)
  next
    case (st_clean out)
    then show ?thesis using clean_facts_from [OF client_task_laws_axioms ti]
      by (auto simp: cleanup_turn_def clean_timer_def cleanup_check_def intro!: step_origin_received
          split: panics.splits prod.splits)
  qed (auto simp: send_begin_def send_ping_req_def flush_req_def set_error_and_exit_def stream_drop_def seq_update_def Let_def
      intro!: step_origin_silent split: if_splits result.splits panics.splits prod.splits)
qed

lemma stream_run_origin:
  assumes "stream_run T P c wg_ready s0 ls s" and "stream_inv T 0 s0" "timeline (timer s0) = []"
    and wg: "\<forall>l n. wg_ready l n \<longrightarrow> l \<le> n"
  shows "set (timeline (timer s)) \<subseteq> (\<lambda>(n, u). set_seq T n u) ` set (numbered ls)
    \<and> (\<forall>f \<in> set (stream_facts ls). \<exists>n u. (n, u) \<in> set (numbered ls) \<and> settles T (set_seq T n u) f)
    \<and> (\<forall>n \<in> set (lost_seqs ls). \<exists>u room cid buf. (n, u) \<in> set (numbered ls)
         \<and> req_encode T c room cid (set_seq T n u) = Returns (buf, Err ()))
    \<and> (\<forall>(t, out) \<in> set (turned_away ls). \<exists>f. out = [f] \<and> settles T t f)"
  using assms(1-3)
proof (induction rule: stream_run.induct)
  case (sr_snoc s0 ls s' l s'')
  have "stream_inv T (length (lost_seqs ls)) s'"
    using stream_run_ok [OF sr_snoc.hyps(1) sr_snoc.prems wg] by simp
  then have st: "step_origin T c s' l s''" by (rule stream_step_origin [OF sr_snoc.hyps(2)])
  let ?made = "\<lambda>ls. (\<lambda>(n, u). set_seq T n u) ` set (numbered ls)"
  have IH: "set (timeline (timer s')) \<subseteq> ?made ls" and known: "?made (ls @ [l]) = ?made ls \<union> ?made [l]"
    using sr_snoc.IH [OF sr_snoc.prems] by (auto simp: image_Un)
  have "set (timeline (timer s'')) \<subseteq> ?made (ls @ [l])"
    using step_originD(1) [OF st IH] unfolding known .
  moreover have "\<exists>n u. (n, u) \<in> set (numbered (ls @ [l])) \<and> settles T (set_seq T n u) f"
    if "f \<in> set (stream_facts (ls @ [l]))" for f
  proof (cases "f \<in> set (stream_facts ls)")
    case True
    then show ?thesis using sr_snoc.IH [OF sr_snoc.prems] by fastforce
  next
    case False
    then have "f \<in> set (stream_facts [l])" using that by simp
    then obtain t where "t \<in> ?made (ls @ [l])" "settles T t f"
      using step_originD(2) [OF st IH] unfolding known by blast
    then show ?thesis by auto
  qed
  moreover have "\<exists>u room cid buf. (n, u) \<in> set (numbered (ls @ [l]))
      \<and> req_encode T c room cid (set_seq T n u) = Returns (buf, Err ())" if "n \<in> set (lost_seqs (ls @ [l]))" for n
    using that st sr_snoc.IH [OF sr_snoc.prems] unfolding step_origin_def books_append tasks_append set_append Un_iff by blast
  moreover have "\<forall>(t, out) \<in> set (turned_away (ls @ [l])). \<exists>f. out = [f] \<and> settles T t f"
    using st sr_snoc.IH [OF sr_snoc.prems] unfolding step_origin_def tasks_append set_append by blast
  ultimately show ?case by blast
qed simp

end

section \<open>A connection refines the pool's steps\<close>

lemma tcp_transport_laws: "client_task_laws T \<Longrightarrow> client_transport T (tcp_transport T io)"
  by (intro client_transport.intro client_transport_axioms.intro)
     (simp_all add: tcp_transport_def client_task_laws.tcp_read_resp_timer)

text \<open>A fact about a task in flight, as the pool takes it.\<close>

definition pool_settles :: "('c, 't) ClientTask \<Rightarrow> 't FailoverTask \<Rightarrow> 't FailoverTask fact \<Rightarrow> bool" where
  "pool_settles T t f \<longleftrightarrow> (\<forall>fp i. i < length (fo_inflight fp) \<and> fo_inflight fp ! i = t \<longrightarrow>
     (\<exists>fp' d. fo_fact f (fp\<lparr>fo_inflight := drop_at i (fo_inflight fp)\<rparr>) = (fp', d) \<and> fo_step T fp (Fo_Done d) fp'))"

lemma settles_pool: "settles (failover_task T) t' f \<Longrightarrow> touched (failover_task T) t t' \<Longrightarrow> pool_settles T t f"
  unfolding pool_settles_def settles_def
  by (metis fs_settle stream_fact_touched surj_pair)


section \<open>Witness\<close>

text \<open>A connection that is dropped, and then turns a task away.\<close>

definition demo_pool_task :: "(u64 \<times> RpcIntErr option) FailoverTask" where
  "demo_pool_task = \<lparr>last_index = 0, config_ver = 0, inner = (1, None), retry = 0, should_retry = False, max_retries = 0\<rparr>"

lemma demo_rejecting_run:
  "\<exists>s. stream_run (failover_task probe_task) (tcp_transport (failover_task probe_task) list_io) () (\<le>)
    (stream_new ClientConfig_default (demo_client []) 9 None)
    [Silent, Rejected demo_pool_task [Error_Handle (set_rpc_error (failover_task probe_task) IO demo_pool_task)]] s"
proof -
  let ?T = "failover_task probe_task" and ?s = "stream_new ClientConfig_default (demo_client []) 9 None"
  let ?run = "stream_run ?T (tcp_transport ?T list_io) () (\<le>) ?s"
  have "?run ([] @ [Silent]) (stream_drop ?s)"
    by (intro sr_snoc [OF sr_nil] st_drop) (simp add: stream_new_def Let_def)
  moreover have "may_send (\<le>) (stream_drop ?s)" "closed (stream_drop ?s)"
    by (simp_all add: may_send_def throttle_def stream_drop_def stream_new_def throttler_new_def Let_def)
  moreover have "\<exists>s'. send_begin ?T demo_pool_task False (stream_drop ?s)
      = (s', Some ([Error_Handle (set_rpc_error ?T IO demo_pool_task)], Err IO))"
    by (simp add: send_begin_def stream_drop_def Let_def)
  ultimately show ?thesis using sr_snoc [OF _ st_reject] by (metis append_Cons append_Nil)
qed


end
