(* ===== verification/Api_Client.thy ===== *)
theory Api_Client
  imports Failover
begin

text \<open>
  The API layer of the client: \<open>APIClientReq\<close> of \<open>src/src/client/task.rs\<close> and the two
  implementations of \<open>call\<close> of \<open>src/src/client/mod.rs\<close>. A task comes back to its caller
  through a oneshot channel; what the channel delivers (the task, or nothing because it was
  dropped) is an argument of the operations.
\<close>

section \<open>The task\<close>

record APIClientReq =
  ac_common :: ClientTaskCommon
  ac_req_msg :: "bytes option"
  ac_action :: rstr
  ac_resp :: "bytes option"
  ac_res :: "(unit, EncodedErr) result option"
  ac_noti :: bool
  ac_config_ver :: u64
  ac_last_index :: nat

definition api_req_new :: "('c, 'a) Codec \<Rightarrow> 'c \<Rightarrow> rstr \<Rightarrow> 'a \<Rightarrow> APIClientReq panics" where
  "api_req_new A codec service_method req = (case codec_encode A codec req of
     Err _ \<Rightarrow> Panic
   | Ok req_buf \<Rightarrow> Returns \<lparr>ac_common = \<lparr>common_seq = 0\<rparr>, ac_req_msg = Some req_buf, ac_action = service_method,
       ac_resp = None, ac_res = None, ac_noti = False, ac_config_ver = 0, ac_last_index = 0\<rparr>)"

definition api_set_noti :: "APIClientReq \<Rightarrow> APIClientReq" where
  "api_set_noti t = t\<lparr>ac_noti := True\<rparr>"

text \<open>\<open>process_res\<close> takes the result out of the task; it panics if there is none, or a static text.\<close>

definition process_res ::
  "('c, 'p) Codec \<Rightarrow> ('c, 'e) RpcErrCodec \<Rightarrow> 'p \<Rightarrow> 'c \<Rightarrow> APIClientReq
   \<Rightarrow> (APIClientReq \<times> ('p, 'e RpcError) result) panics" where
  "process_res P E dflt codec t = (case ac_res t of
     None \<Rightarrow> Panic
   | Some res \<Rightarrow>
       (let t' = t\<lparr>ac_res := None\<rparr>
        in case res of
             Ok _ \<Rightarrow> (case ac_resp t of
                Some resp \<Rightarrow> (case codec_decode P codec resp of
                   Ok resp_msg \<Rightarrow> Returns (t', Ok resp_msg)
                 | Err _ \<Rightarrow> Returns (t', Err (Rpc Decode)))
              | None \<Rightarrow> Returns (t', Ok dflt))
           | Err (ERpc e) \<Rightarrow> Returns (t', Err (Rpc e))
           | Err (ENum n) \<Rightarrow> (case err_decode E codec (Ok n) of
                Ok e \<Rightarrow> Returns (t', Err (User e)) | Err _ \<Rightarrow> Returns (t', Err (Rpc Decode)))
           | Err (EBuf buf) \<Rightarrow> (case err_decode E codec (Err buf) of
                Ok e \<Rightarrow> Returns (t', Err (User e)) | Err _ \<Rightarrow> Returns (t', Err (Rpc Decode)))
           | Err (EStatic _) \<Rightarrow> Panic))"

definition ac_encode_req :: "'c \<Rightarrow> APIClientReq \<Rightarrow> bytes \<Rightarrow> bytes \<times> (nat, unit) result" where
  "ac_encode_req codec t buf = (case ac_req_msg t of
     Some msg \<Rightarrow> (buf @ msg, Ok (length msg)) | None \<Rightarrow> (buf, Ok 0))"

definition ac_decode_resp :: "'c \<Rightarrow> bytes \<Rightarrow> APIClientReq \<Rightarrow> APIClientReq \<times> (unit, unit) result" where
  "ac_decode_resp codec buf t = (if buf \<noteq> [] then t\<lparr>ac_resp := Some buf\<rparr> else t, Ok ())"

definition ac_set_custom_error :: "'c \<Rightarrow> EncodedErr \<Rightarrow> nat \<Rightarrow> u64 \<Rightarrow> APIClientReq \<Rightarrow> APIClientReq" where
  "ac_set_custom_error codec e last_idx ver t =
    t\<lparr>ac_res := Some (Err e), ac_config_ver := ver, ac_last_index := last_idx\<rparr>"

definition ac_set_rpc_error :: "RpcIntErr \<Rightarrow> APIClientReq \<Rightarrow> APIClientReq" where
  "ac_set_rpc_error e t = t\<lparr>ac_res := Some (Err (ERpc e))\<rparr>"

definition ac_set_ok :: "APIClientReq \<Rightarrow> APIClientReq" where
  "ac_set_ok t = t\<lparr>ac_res := Some (Ok ())\<rparr>"

text \<open>\<open>done\<close> sends the task through its channel, which it takes out of the task.\<close>

definition ac_done :: "APIClientReq \<Rightarrow> APIClientReq panics" where
  "ac_done t = (if ac_noti t then Returns (t\<lparr>ac_noti := False\<rparr>) else Panic)"

definition api_client_task :: "('c, APIClientReq) ClientTask" where
  "api_client_task = \<lparr>get_action = \<lambda>t. Str (ac_action t), encode_req = ac_encode_req,
     get_req_blob = default_get_req_blob, decode_resp = ac_decode_resp,
     reserve_resp_blob = default_reserve_resp_blob, set_custom_error = ac_set_custom_error,
     set_rpc_error = ac_set_rpc_error, set_ok = ac_set_ok, task_seq = \<lambda>t. common_seq (ac_common t),
     set_seq = \<lambda>n t. t\<lparr>ac_common := \<lparr>common_seq = n\<rparr>\<rparr>\<rparr>"

lemmas ac_defs = api_client_task_def ac_encode_req_def ac_decode_resp_def ac_set_custom_error_def
  ac_set_rpc_error_def ac_set_ok_def default_get_req_blob_def default_reserve_resp_blob_def

text \<open>The API task keeps the contract of client tasks; its action and message identify it.\<close>

interpretation api_task: identified_task api_client_task "\<lambda>t. (ac_action t, ac_req_msg t, ac_noti t)"
  by unfold_locales (auto simp: ac_defs split: option.splits)

interpretation failover_api: identified_task "failover_task api_client_task"
  "(\<lambda>t. (ac_action t, ac_req_msg t, ac_noti t)) \<circ> inner"
  by (rule api_task.failover_identified)

section \<open>Calls\<close>

text \<open>\<open>call\<close> of a connection pool, once the channel has delivered.\<close>

definition pool_call ::
  "('c, 'p) Codec \<Rightarrow> ('c, 'e) RpcErrCodec \<Rightarrow> 'p \<Rightarrow> 'c \<Rightarrow> APIClientReq option \<Rightarrow> ('p, 'e RpcError) result panics" where
  "pool_call P E dflt codec delivered = (case delivered of
     Some task \<Rightarrow> (case process_res P E dflt codec task of
        Panic \<Rightarrow> Panic | Returns (_, r) \<Rightarrow> Returns r)
   | None \<Rightarrow> Returns (Err (Rpc Internal)))"

text \<open>
  One turn of the loop of \<open>call\<close> of a failover pool: return, or resubmit the task to an
  address or after the node it failed on, with the new retry count.
\<close>

datatype ('p, 'e) call_out =
    Call_Return "('p, 'e RpcError) result"
  | Call_Again APIClientReq "(rstr, nat) result" nat

definition call_turn ::
  "('c, 'p) Codec \<Rightarrow> ('c, 'e) RpcErrCodec \<Rightarrow> 'p \<Rightarrow> 'c \<Rightarrow> nat \<Rightarrow> nat \<Rightarrow> APIClientReq option
   \<Rightarrow> ('p, 'e) call_out panics" where
  "call_turn P E dflt codec max_r retry_count delivered = (case delivered of
     None \<Rightarrow> Returns (Call_Return (Err (Rpc Internal)))
   | Some task \<Rightarrow> (case process_res P E dflt codec task of
       Panic \<Rightarrow> Panic
     | Returns (_, Ok resp) \<Rightarrow> Returns (Call_Return (Ok resp))
     | Returns (_, Err (Rpc e)) \<Rightarrow> Returns (Call_Return (Err (Rpc e)))
     | Returns (task', Err (User e)) \<Rightarrow>
         (let n = retry_count + 1
          in case should_failover E e of
               Ok (Some redirect_addr) \<Rightarrow>
                 if n < max_r then Returns (Call_Again (api_set_noti task') (Ok redirect_addr) n)
                 else Returns (Call_Return (Err (User e)))
             | Ok None \<Rightarrow>
                 if n < max_r then Returns (Call_Again (api_set_noti task') (Err (ac_last_index task')) n)
                 else Returns (Call_Return (Err (User e)))
             | Err _ \<Rightarrow> Returns (Call_Return (Err (User e))))))"

text \<open>
  The loop. \<open>env\<close> is the rest of the system with its state: what the channel delivers for a task
  sent (no route) or resubmitted. The result has that state, the resubmissions, and \<open>None\<close> if the
  fuel ran out.
\<close>

type_synonym 's call_env = "'s \<Rightarrow> APIClientReq \<Rightarrow> (rstr, nat) result option \<Rightarrow> nat \<Rightarrow> 's \<times> APIClientReq option"

fun call_loop ::
  "('c, 'p) Codec \<Rightarrow> ('c, 'e) RpcErrCodec \<Rightarrow> 'p \<Rightarrow> 'c \<Rightarrow> nat \<Rightarrow> 's call_env
   \<Rightarrow> nat \<Rightarrow> nat \<Rightarrow> 's \<times> APIClientReq option \<Rightarrow> ('s \<times> (rstr, nat) result list \<times> ('p, 'e RpcError) result option) panics" where
  "call_loop P E dflt codec max_r env 0 retry_count (s, delivered) = Returns (s, [], None)"
| "call_loop P E dflt codec max_r env (Suc fuel) retry_count (s, delivered) =
    (case call_turn P E dflt codec max_r retry_count delivered of
       Panic \<Rightarrow> Panic
     | Returns (Call_Return r) \<Rightarrow> Returns (s, [], Some r)
     | Returns (Call_Again task route n) \<Rightarrow>
         (case call_loop P E dflt codec max_r env fuel n (env s task (Some route) n) of
            Panic \<Rightarrow> Panic
          | Returns (s', routes, r) \<Rightarrow> Returns (s', route # routes, r)))"

definition failover_call ::
  "('c, 'a) Codec \<Rightarrow> ('c, 'p) Codec \<Rightarrow> ('c, 'e) RpcErrCodec \<Rightarrow> 'p \<Rightarrow> 'c \<Rightarrow> nat \<Rightarrow> 's call_env
   \<Rightarrow> nat \<Rightarrow> 's \<Rightarrow> rstr \<Rightarrow> 'a \<Rightarrow> ('s \<times> (rstr, nat) result list \<times> ('p, 'e RpcError) result option) panics" where
  "failover_call A P E dflt codec max_r env fuel s service_method req =
    (case api_req_new A codec service_method req of
       Panic \<Rightarrow> Panic
     | Returns task \<Rightarrow>
         call_loop P E dflt codec max_r env fuel 0 (env s (api_set_noti task) None 0))"

section \<open>Calls return\<close>

text \<open>A task that comes back has a result, and its error is not a static text.\<close>

definition answered :: "APIClientReq \<Rightarrow> bool" where
  "answered t \<longleftrightarrow> (case ac_res t of None \<Rightarrow> False | Some (Err (EStatic _)) \<Rightarrow> False | Some _ \<Rightarrow> True)"

lemma process_res_returns: "answered t \<Longrightarrow> \<exists>t' r. process_res P E dflt codec t = Returns (t', r)"
  by (auto simp: answered_def process_res_def Let_def split: option.splits result.splits EncodedErr.splits)

lemma call_turn_cases:
  assumes "\<forall>t. delivered = Some t \<longrightarrow> answered t"
  shows "(\<exists>r. call_turn P E dflt codec max_r n delivered = Returns (Call_Return r))
    \<or> (\<exists>t route. call_turn P E dflt codec max_r n delivered = Returns (Call_Again t route (n + 1)) \<and> n + 1 < max_r)"
proof (cases delivered)
  case None
  then show ?thesis by (simp add: call_turn_def)
next
  case (Some t)
  obtain t' r where t: "process_res P E dflt codec t = Returns (t', r)"
    using process_res_returns [of t P E dflt codec] assms Some by auto
  show ?thesis
  proof (cases r)
    case (Ok x)
    then show ?thesis using Some t by (simp add: call_turn_def)
  next
    case (Err err)
    show ?thesis
    proof (cases err)
      case (User e)
      then show ?thesis using Some t Err
        by (cases "should_failover E e"; cases "n + 1 < max_r") (auto simp: call_turn_def split: option.splits)
    next
      case (Rpc e)
      then show ?thesis using Some t Err by (simp add: call_turn_def)
    qed
  qed
qed

lemma call_loop_returns:
  assumes "\<And>s t r n s' u. env s t r n = (s', Some u) \<Longrightarrow> answered u" "\<forall>t. delivered = Some t \<longrightarrow> answered t"
    "max_r - n < fuel"
  shows "\<exists>s' routes r. call_loop P E dflt codec max_r env fuel n (s, delivered) = Returns (s', routes, Some r)
    \<and> length routes \<le> max_r - 1 - n"
  using assms(2,3)
proof (induction fuel arbitrary: n s delivered)
  case (Suc fuel)
  from call_turn_cases [OF Suc.prems(1), of P E dflt codec max_r n] show ?case
  proof
    assume "\<exists>t route. call_turn P E dflt codec max_r n delivered = Returns (Call_Again t route (n + 1)) \<and> n + 1 < max_r"
    then obtain t route where t: "call_turn P E dflt codec max_r n delivered = Returns (Call_Again t route (n + 1))"
        "n + 1 < max_r" by blast
    obtain s1 d1 where e: "env s t (Some route) (n + 1) = (s1, d1)" by fastforce
    have "\<exists>s' routes r. call_loop P E dflt codec max_r env fuel (n + 1) (s1, d1) = Returns (s', routes, Some r)
        \<and> length routes \<le> max_r - 1 - (n + 1)"
      using Suc.prems(2) t(2) assms(1) e by (intro Suc.IH) auto
    then show ?thesis using t e by auto
  qed auto
qed simp


text \<open>A cluster that answers every attempt with an error that asks for another node.\<close>

definition moved_err :: "('c, u32) RpcErrCodec" where
  "moved_err = unsigned_err\<lparr>should_failover := \<lambda>_. Ok None\<rparr>"

definition moved_env :: "unit call_env" where
  "moved_env s t route n = (s, Some (ac_set_custom_error () (ENum 5) n 0 t))"


end
