(* ===== verification/Server_Task.thy ===== *)
theory Server_Task
  imports Proto
begin

text \<open>
  The server's request and response structures: \<open>RpcSvrReq\<close> and \<open>RpcSvrResp\<close> of
  \<open>src/stream/src/server/mod.rs\<close>, and \<open>ServerTaskVariant\<close>, \<open>ServerTaskVariantFull\<close> and
  \<open>RespNoti\<close> of \<open>src/stream/src/server/task.rs\<close>. The sending side of a connection's
  response channel is the list of what has been sent; sending fails once the receiver has
  gone. Buffers are their bytes. The response structures are shown to meet the contract
  \<open>server_task_laws\<close> the response encoder relies on.
\<close>

section \<open>Requests\<close>

record RpcSvrReq =
  req_seq :: u64
  req_action :: RpcAction
  req_msg :: bytes
  req_blob :: "bytes option"

section \<open>The response channel\<close>

text \<open>What travels on it: a finished task, or a bare sequence number with an internal error.\<close>

type_synonym 'r resp_item = "('r, u64 \<times> RpcIntErr option) result"

record 'r RespNoti =
  noti_queue :: "'r resp_item list"
  noti_rx_alive :: bool

definition noti_send :: "'r resp_item \<Rightarrow> 'r RespNoti \<Rightarrow> 'r RespNoti \<times> (unit, unit) result" where
  "noti_send x q = (if noti_rx_alive q then (q\<lparr>noti_queue := noti_queue q @ [x]\<rparr>, Ok ()) else (q, Err ()))"

definition noti_done :: "'r \<Rightarrow> 'r RespNoti \<Rightarrow> 'r RespNoti" where
  "noti_done task q = fst (noti_send (Ok task) q)"

definition noti_send_err :: "u64 \<Rightarrow> RpcIntErr option \<Rightarrow> 'r RespNoti \<Rightarrow> 'r RespNoti \<times> (unit, unit) result" where
  "noti_send_err seq err q = (case noti_send (Err (seq, err)) q of
     (q', Err _) \<Rightarrow> (q', Err ()) | (q', Ok _) \<Rightarrow> (q', Ok ()))"

section \<open>RpcSvrResp\<close>

record RpcSvrResp =
  resp_seq :: u64
  resp_msg :: "bytes option"
  resp_blob :: "bytes option"
  resp_res :: "(unit, EncodedErr) result option"

definition svr_resp_encode ::
  "'c \<Rightarrow> RpcSvrResp \<Rightarrow> bytes \<Rightarrow> (bytes \<times> u64 \<times> (nat \<times> bytes option, EncodedErr) result) panics" where
  "svr_resp_encode codec t buf = (case resp_res t of
     None \<Rightarrow> Panic
   | Some (Ok _) \<Rightarrow> (case resp_msg t of
        Some msg \<Rightarrow> Returns (buf @ msg, resp_seq t, Ok (length msg, resp_blob t))
      | None \<Rightarrow> Returns (buf, resp_seq t, Ok (0, resp_blob t)))
   | Some (Err e) \<Rightarrow> Returns (buf, resp_seq t, Err e))"

definition svr_resp_task :: "('c, RpcSvrResp) ServerTaskEncode" where
  "svr_resp_task = \<lparr>encode_resp = svr_resp_encode\<rparr>"

section \<open>ServerTaskVariant\<close>

record ('m, 'e) ServerTaskVariant =
  v_seq :: u64
  v_action :: RpcActionOwned
  v_msg :: 'm
  v_blob :: "bytes option"
  v_res :: "(unit, 'e) result option"
  v_has_noti :: bool

definition variant_decode_req ::
  "('c, 'm) Codec \<Rightarrow> 'c \<Rightarrow> RpcAction \<Rightarrow> u64 \<Rightarrow> bytes \<Rightarrow> bytes option
   \<Rightarrow> (('m, 'e) ServerTaskVariant, unit) result" where
  "variant_decode_req C codec action seq msg blob = (case codec_decode C codec msg of
     Err _ \<Rightarrow> Err ()
   | Ok req \<Rightarrow> Ok \<lparr>v_seq = seq, v_action = action_into_owned action, v_msg = req, v_blob = blob,
                  v_res = None, v_has_noti = True\<rparr>)"

definition variant_get_action :: "('m, 'e) ServerTaskVariant \<Rightarrow> RpcAction" where
  "variant_get_action t = to_action (v_action t)"

text \<open>
  \<open>_set_result\<close> takes the channel out of the task and panics when it is gone;
  \<open>set_result\<close> then sends the task, converted to the connection's response type.
\<close>

definition variant_set_result_only ::
  "(unit, 'e) result \<Rightarrow> ('m, 'e) ServerTaskVariant \<Rightarrow> ('m, 'e) ServerTaskVariant panics" where
  "variant_set_result_only res t = (if v_has_noti t
     then Returns (t\<lparr>v_res := Some res, v_has_noti := False\<rparr>) else Panic)"

definition variant_set_result ::
  "(('m, 'e) ServerTaskVariant \<Rightarrow> 'r) \<Rightarrow> (unit, 'e) result \<Rightarrow> ('m, 'e) ServerTaskVariant \<Rightarrow> 'r RespNoti
   \<Rightarrow> 'r RespNoti panics" where
  "variant_set_result into res t q = (case variant_set_result_only res t of
     Panic \<Rightarrow> Panic | Returns t' \<Rightarrow> Returns (noti_done (into t') q))"

definition variant_encode_resp ::
  "('c, 'm) Codec \<Rightarrow> ('c, 'e) RpcErrCodec \<Rightarrow> 'c \<Rightarrow> ('m, 'e) ServerTaskVariant \<Rightarrow> bytes
   \<Rightarrow> (bytes \<times> u64 \<times> (nat \<times> bytes option, EncodedErr) result) panics" where
  "variant_encode_resp C E codec t buf = (case v_res t of
     Some (Ok _) \<Rightarrow> (case codec_encode_into C codec (v_msg t) buf of
        (buf', Err _) \<Rightarrow> Returns (buf', v_seq t, Err (ERpc Encode))
      | (buf', Ok msg_len) \<Rightarrow> Returns (buf', v_seq t, Ok (msg_len, v_blob t)))
   | Some (Err e) \<Rightarrow> Returns (buf, v_seq t, Err (err_encode E codec e))
   | None \<Rightarrow> Panic)"

definition variant_task ::
  "('c, 'm) Codec \<Rightarrow> ('c, 'e) RpcErrCodec \<Rightarrow> ('c, ('m, 'e) ServerTaskVariant) ServerTaskEncode" where
  "variant_task C E = \<lparr>encode_resp = variant_encode_resp C E\<rparr>"

section \<open>ServerTaskVariantFull\<close>

record ('r, 'p, 'e) ServerTaskVariantFull =
  f_seq :: u64
  f_action :: RpcActionOwned
  f_req :: 'r
  f_req_blob :: "bytes option"
  f_resp :: "'p option"
  f_resp_blob :: "bytes option"
  f_res :: "(unit, 'e) result option"
  f_has_noti :: bool

definition full_decode_req ::
  "('c, 'r) Codec \<Rightarrow> 'c \<Rightarrow> RpcAction \<Rightarrow> u64 \<Rightarrow> bytes \<Rightarrow> bytes option
   \<Rightarrow> (('r, 'p, 'e) ServerTaskVariantFull, unit) result" where
  "full_decode_req C codec action seq msg blob = (case codec_decode C codec msg of
     Err _ \<Rightarrow> Err ()
   | Ok req \<Rightarrow> Ok \<lparr>f_seq = seq, f_action = action_into_owned action, f_req = req, f_req_blob = blob,
                  f_resp = None, f_resp_blob = None, f_res = None, f_has_noti = True\<rparr>)"

definition full_get_action :: "('r, 'p, 'e) ServerTaskVariantFull \<Rightarrow> RpcAction" where
  "full_get_action t = to_action (f_action t)"

definition full_set_result_only ::
  "(unit, 'e) result \<Rightarrow> ('r, 'p, 'e) ServerTaskVariantFull \<Rightarrow> ('r, 'p, 'e) ServerTaskVariantFull panics" where
  "full_set_result_only res t = (if f_has_noti t
     then Returns (t\<lparr>f_res := Some res, f_has_noti := False\<rparr>) else Panic)"

definition full_encode_resp ::
  "('c, 'p) Codec \<Rightarrow> ('c, 'e) RpcErrCodec \<Rightarrow> 'c \<Rightarrow> ('r, 'p, 'e) ServerTaskVariantFull \<Rightarrow> bytes
   \<Rightarrow> (bytes \<times> u64 \<times> (nat \<times> bytes option, EncodedErr) result) panics" where
  "full_encode_resp C E codec t buf = (case f_res t of
     Some (Ok _) \<Rightarrow> (case f_resp t of
        Some resp \<Rightarrow> (case codec_encode_into C codec resp buf of
           (buf', Err _) \<Rightarrow> Returns (buf', f_seq t, Err (ERpc Encode))
         | (buf', Ok msg_len) \<Rightarrow> Returns (buf', f_seq t, Ok (msg_len, f_resp_blob t)))
      | None \<Rightarrow> Returns (buf, f_seq t, Ok (0, f_resp_blob t)))
   | Some (Err e) \<Rightarrow> Returns (buf, f_seq t, Err (err_encode E codec e))
   | None \<Rightarrow> Panic)"

definition full_task ::
  "('c, 'p) Codec \<Rightarrow> ('c, 'e) RpcErrCodec \<Rightarrow> ('c, ('r, 'p, 'e) ServerTaskVariantFull) ServerTaskEncode" where
  "full_task C E = \<lparr>encode_resp = full_encode_resp C E\<rparr>"

section \<open>What the tasks have to say\<close>

definition svr_resp_ready :: "RpcSvrResp \<Rightarrow> bool" where
  "svr_resp_ready t \<longleftrightarrow> resp_res t \<noteq> None"

definition svr_resp_answer :: "'c \<Rightarrow> RpcSvrResp \<Rightarrow> (bytes \<times> bytes option, EncodedErr) result" where
  "svr_resp_answer c t = (case resp_res t of
     Some (Err e) \<Rightarrow> Err e | _ \<Rightarrow> Ok (opt_bytes (resp_msg t), resp_blob t))"

text \<open>The bytes of a message the codec can encode.\<close>

definition encoded :: "('c, 'm) Codec \<Rightarrow> 'c \<Rightarrow> 'm \<Rightarrow> bytes" where
  "encoded C c m = (case codec_encode C c m of Ok b \<Rightarrow> b | Err _ \<Rightarrow> [])"

definition variant_ready :: "('m \<Rightarrow> bool) \<Rightarrow> ('m, 'e) ServerTaskVariant \<Rightarrow> bool" where
  "variant_ready valid t \<longleftrightarrow> v_res t \<noteq> None \<and> (v_res t = Some (Ok ()) \<longrightarrow> valid (v_msg t))"

definition variant_answer ::
  "('c, 'm) Codec \<Rightarrow> ('c, 'e) RpcErrCodec \<Rightarrow> 'c \<Rightarrow> ('m, 'e) ServerTaskVariant
   \<Rightarrow> (bytes \<times> bytes option, EncodedErr) result" where
  "variant_answer C E c t = (case v_res t of
     Some (Err e) \<Rightarrow> Err (err_encode E c e) | _ \<Rightarrow> Ok (encoded C c (v_msg t), v_blob t))"

definition full_ready :: "('p \<Rightarrow> bool) \<Rightarrow> ('r, 'p, 'e) ServerTaskVariantFull \<Rightarrow> bool" where
  "full_ready valid t \<longleftrightarrow> f_res t \<noteq> None
     \<and> (f_res t = Some (Ok ()) \<longrightarrow> (\<forall>p. f_resp t = Some p \<longrightarrow> valid p))"

definition full_answer ::
  "('c, 'p) Codec \<Rightarrow> ('c, 'e) RpcErrCodec \<Rightarrow> 'c \<Rightarrow> ('r, 'p, 'e) ServerTaskVariantFull
   \<Rightarrow> (bytes \<times> bytes option, EncodedErr) result" where
  "full_answer C E c t = (case f_res t of
     Some (Err e) \<Rightarrow> Err (err_encode E c e)
   | _ \<Rightarrow> Ok (case f_resp t of Some p \<Rightarrow> encoded C c p | None \<Rightarrow> [], f_resp_blob t))"

section \<open>The contract is met\<close>

interpretation svr_resp: server_task_laws svr_resp_task svr_resp_ready resp_seq svr_resp_answer
  by unfold_locales
     (auto simp: svr_resp_task_def svr_resp_encode_def svr_resp_ready_def svr_resp_answer_def opt_bytes_def
        split: option.splits result.splits)

lemma codec_ok_into:
  "codec_ok C valid \<Longrightarrow> valid m \<Longrightarrow> codec_encode_into C c m buf = (buf @ encoded C c m, Ok (length (encoded C c m)))"
  unfolding codec_ok_def encoded_def by (metis result.simps(5))

lemma variant_laws:
  assumes "codec_ok C valid"
  shows "server_task_laws (variant_task C E) (variant_ready valid) v_seq (variant_answer C E)"
  by unfold_locales
     (auto simp: variant_task_def variant_encode_resp_def variant_ready_def variant_answer_def
        codec_ok_into [OF assms] split: option.splits result.splits)

lemma full_laws:
  assumes "codec_ok C valid"
  shows "server_task_laws (full_task C E) (full_ready valid) f_seq (full_answer C E)"
  by unfold_locales
     (auto simp: full_task_def full_encode_resp_def full_ready_def full_answer_def
        codec_ok_into [OF assms] split: option.splits result.splits)

section \<open>Properties\<close>

text \<open>
  What a handler says is what is sent. A request decoded into a \<open>ServerTaskVariant\<close>
  whose handler stores a message, a blob and a result is encoded, under the sequence number
  of the request, as exactly the frame of that answer: the encoded message with the blob,
  or the handler's error. Setting the result a second time panics.
\<close>

lemma variant_answer_frame:
  assumes "codec_ok C valid" and "valid m" and "length room = 20"
    and "variant_decode_req C c a seq msg blob = Ok t"
    and "ans = (case res of Ok _ \<Rightarrow> Ok (encoded C c m, b) | Err e \<Rightarrow> Err (err_encode E c e))"
    and "answer_fits ans"
  shows "\<exists>t' buf bl. variant_set_result_only res (t\<lparr>v_msg := m, v_blob := b\<rparr>) = Returns t'
    \<and> variant_get_action t' = a \<and> variant_set_result_only res t' = Panic
    \<and> resp_encode (variant_task C E) c room t' = Returns (buf, seq, bl)
    \<and> buf @ opt_bytes bl = answer_frame seq ans"
proof -
  let ?t = "t\<lparr>v_msg := m, v_blob := b, v_res := Some res, v_has_noti := False\<rparr>"
  have t: "v_seq t = seq" "v_has_noti t" "variant_get_action t = a"
    using assms(4) by (auto simp: variant_decode_req_def variant_get_action_def split: result.splits)
  have ready: "variant_ready valid ?t" and ans: "variant_answer C E c ?t = ans"
    using assms(2) by (auto simp: variant_ready_def variant_answer_def assms(5) split: result.splits)
  have "\<exists>buf bl. resp_encode (variant_task C E) c room ?t = Returns (buf, v_seq ?t, bl)
      \<and> buf @ opt_bytes bl = answer_frame (v_seq ?t) (variant_answer C E c ?t)"
    using ready ans assms(3,6)
    by (intro server_task_laws.resp_encode_frame [OF variant_laws [OF assms(1)]])
       (simp_all add: RPC_RESP_HEADER_LEN_def)
  then show ?thesis using t ans
    by (intro exI [of _ ?t]) (auto simp: variant_set_result_only_def variant_get_action_def)
qed

text \<open>A codec for the unit message in one byte.\<close>

definition unit_codec :: "(unit, unit) Codec" where
  "unit_codec = \<lparr>codec_encode = \<lambda>_ _. Ok [0xC0], codec_encode_into = \<lambda>_ _ buf. (buf @ [0xC0], Ok 1),
     codec_decode = \<lambda>_ b. if b = [0xC0] then Ok () else Err ()\<rparr>"

lemma unit_codec_ok: "codec_ok unit_codec (\<lambda>_. True)"
  by (simp add: codec_ok_def unit_codec_def)

definition demo_variant :: "(unit, unit) ServerTaskVariant" where
  "demo_variant = \<lparr>v_seq = 4, v_action = NumOwned 7, v_msg = (), v_blob = None, v_res = None, v_has_noti = True\<rparr>"

text \<open>
  C35: when the codec fails after it has already written part of the message, those bytes
  stay in the buffer: what is sent is the header of an error text, the leftover bytes, and
  then the text, which is not the frame of any error, so the client reads the leftover
  bytes as the error and the rest as the next header.
\<close>

theorem failed_encode_breaks_frame:
  assumes "v_res t = Some (Ok ())" and "length room = 20"
    and "codec_encode_into C c (v_msg t) room = (room @ junk, Err ())"
  shows "resp_encode (variant_task C E) c room t = Returns
      (resp_head_bytes (resp_head RESP_FLAG_HAS_ERR_STRING (v_seq t) 0 (of_nat (length (as_bytes Encode))))
         @ junk @ as_bytes Encode, v_seq t, None)
    \<and> (junk \<noteq> [] \<longrightarrow> resp_head_bytes (resp_head RESP_FLAG_HAS_ERR_STRING (v_seq t) 0
         (of_nat (length (as_bytes Encode)))) @ junk @ as_bytes Encode \<noteq> err_frame (v_seq t) (ERpc Encode))"
  using assms resp_write_head_room [of room junk]
  by (simp add: resp_encode_def variant_task_def variant_encode_resp_def with_blob_def encode_error_def
      write_err_str_def RPC_RESP_HEADER_LEN_def)

theorem failed_encode_breaks_frame_witness:
  "\<exists>buf. resp_encode (variant_task (unit_codec\<lparr>codec_encode_into := \<lambda>_ _ b. (b @ [0x81], Err ())\<rparr>) unit_err)
       () (replicate 20 0) (demo_variant\<lparr>v_res := Some (Ok ())\<rparr>) = Returns (buf, 4, None)
     \<and> buf \<noteq> err_frame 4 (ERpc Encode)"
  using failed_encode_breaks_frame [where t = "demo_variant\<lparr>v_res := Some (Ok ())\<rparr>" and room = "replicate 20 0"
      and C = "unit_codec\<lparr>codec_encode_into := \<lambda>_ _ b. (b @ [0x81], Err ())\<rparr>" and c = "()"
      and junk = "[0x81]" and E = unit_err]
  by (simp add: demo_variant_def)

end
