(* ===== verification/Tcp_Server.thy ===== *)
theory Tcp_Server
  imports Server_Task Tcp_Client
begin

text \<open>
  \<open>TcpServer\<close> of \<open>src/transport/tcp/src/server.rs\<close>: the server side of the TCP transport,
  over the socket operations of \<open>Tcp_Client\<close>. Waiting for the next request ends with a
  header, an error, or a cancellation (the server closes, or the connection was idle too
  long).
\<close>

section \<open>State and operations\<close>

record ServerConfig =
  sc_read_timeout :: nat
  sc_write_timeout :: nat
  sc_idle_timeout :: nat
  sc_server_close_wait :: nat
  sc_stream_buf_size :: nat

definition ServerConfig_default :: ServerConfig where
  "ServerConfig_default = \<lparr>sc_read_timeout = 5, sc_write_timeout = 5, sc_idle_timeout = 120,
     sc_server_close_wait = 90, sc_stream_buf_size = 0\<rparr>"

record 's TcpServer =
  sv_stream :: 's
  action_buf :: bytes
  msg_buf :: bytes
  sv_encode_buf :: bytes

definition SERVER_DEFAULT_BUF_SIZE :: nat where "SERVER_DEFAULT_BUF_SIZE = 8 * 1024"

definition new_conn :: "(nat \<Rightarrow> 's) \<Rightarrow> ServerConfig \<Rightarrow> 's TcpServer" where
  "new_conn buffered config =
    (let buf_size = (if sc_stream_buf_size config = 0 then SERVER_DEFAULT_BUF_SIZE
                     else sc_stream_buf_size config)
     in \<lparr>sv_stream = buffered buf_size, action_buf = [], msg_buf = [], sv_encode_buf = []\<rparr>)"

text \<open>The action of a request: in the header, or a string that follows it.\<close>

definition read_action ::
  "'s Io \<Rightarrow> ReqHead \<Rightarrow> 's TcpServer \<Rightarrow> 's TcpServer \<times> (RpcAction, RpcIntErr) result" where
  "read_action io head sv = (case req_get_action head of
     Ok num \<Rightarrow> (sv, Ok (Num num))
   | Err action_len \<Rightarrow> (case read_exact io (usize_of_i32 action_len) (sv_stream sv) of
        (s, Err b) \<Rightarrow> (sv\<lparr>sv_stream := s, action_buf := b\<rparr>, Err IO)
      | (s, Ok b) \<Rightarrow>
          (let sv' = sv\<lparr>sv_stream := s, action_buf := b\<rparr>
           in case from_utf8 b of
                Ok txt \<Rightarrow> (sv', Ok (Str txt))
              | Err _ \<Rightarrow> (sv', Err Decode))))"

definition read_msg :: "'s Io \<Rightarrow> ReqHead \<Rightarrow> 's TcpServer \<Rightarrow> 's TcpServer \<times> (bytes, RpcIntErr) result" where
  "read_msg io head sv =
    (if rq_msg_len head > 0 then
       (case read_exact io (unat (rq_msg_len head)) (sv_stream sv) of
          (s, Err b) \<Rightarrow> (sv\<lparr>sv_stream := s, msg_buf := b\<rparr>, Err IO)
        | (s, Ok b) \<Rightarrow> (sv\<lparr>sv_stream := s, msg_buf := b\<rparr>, Ok b))
     else (sv\<lparr>msg_buf := []\<rparr>, Ok []))"

definition read_blob ::
  "'s Io \<Rightarrow> ReqHead \<Rightarrow> 's TcpServer \<Rightarrow> 's TcpServer \<times> (bytes option, RpcIntErr) result" where
  "read_blob io head sv =
    (if 0 < sint (rq_blob_len head) then
       (if \<not> alloc io (rq_blob_len head) then (sv, Err Decode)
        else (case read_exact io (nat (sint (rq_blob_len head))) (sv_stream sv) of
                (s, Err _) \<Rightarrow> (sv\<lparr>sv_stream := s\<rparr>, Err IO)
              | (s, Ok b) \<Rightarrow> (sv\<lparr>sv_stream := s\<rparr>, Ok (Some b))))
     else (sv, Ok None))"

definition read_req ::
  "'s Io \<Rightarrow> bool \<Rightarrow> 's TcpServer \<Rightarrow> ('s TcpServer \<times> (RpcSvrReq, RpcIntErr) result poll) panics" where
  "read_req io cancel sv = (case poll_read_exact io RPC_REQ_HEADER_LEN (sv_stream sv) of
     (s, Pending) \<Rightarrow> Returns (sv\<lparr>sv_stream := s\<rparr>, if cancel then Ready (Err Timeout) else Pending)
   | (s, Ready (Err _)) \<Rightarrow> Returns (sv\<lparr>sv_stream := s\<rparr>, Ready (Err IO))
   | (s, Ready (Ok head_buf)) \<Rightarrow>
       (let sv1 = sv\<lparr>sv_stream := s\<rparr>
        in case req_decode_head head_buf of
             Panic \<Rightarrow> Panic
           | Returns (Err _) \<Rightarrow> Returns (sv1, Ready (Err Decode))
           | Returns (Ok head) \<Rightarrow> (case read_action io head sv1 of
                (sv2, Err e) \<Rightarrow> Returns (sv2, Ready (Err e))
              | (sv2, Ok action) \<Rightarrow> (case read_msg io head sv2 of
                   (sv3, Err e) \<Rightarrow> Returns (sv3, Ready (Err e))
                 | (sv3, Ok msg) \<Rightarrow> (case read_blob io head sv3 of
                      (sv4, Err e) \<Rightarrow> Returns (sv4, Ready (Err e))
                    | (sv4, Ok blob) \<Rightarrow> Returns (sv4, Ready (Ok
                        \<lparr>req_seq = rq_seq head, req_action = action, req_msg = msg, req_blob = blob\<rparr>)))))))"

definition resp_room :: "'s TcpServer \<Rightarrow> bytes" where
  "resp_room sv = take RPC_RESP_HEADER_LEN (sv_encode_buf sv @ replicate RPC_RESP_HEADER_LEN 0)"

definition write_resp ::
  "('c, 'r) ServerTaskEncode \<Rightarrow> 's Io \<Rightarrow> 'c \<Rightarrow> 'r \<Rightarrow> 's TcpServer
   \<Rightarrow> ('s TcpServer \<times> (unit, unit) result) panics" where
  "write_resp S io codec task sv = (case resp_encode S codec (resp_room sv) task of
     Panic \<Rightarrow> Panic
   | Returns (buf, seq, blob_buf) \<Rightarrow> (case write_all io buf (sv_stream sv) of
        (s, Err _) \<Rightarrow> Returns (sv\<lparr>sv_stream := s, sv_encode_buf := buf\<rparr>, Err ())
      | (s, Ok _) \<Rightarrow> (case blob_buf of
           None \<Rightarrow> Returns (sv\<lparr>sv_stream := s, sv_encode_buf := buf\<rparr>, Ok ())
         | Some blob \<Rightarrow> (let (s', r) = write_all io blob s
                        in Returns (sv\<lparr>sv_stream := s', sv_encode_buf := buf\<rparr>, r)))))"

definition write_resp_internal ::
  "'s Io \<Rightarrow> u64 \<Rightarrow> RpcIntErr option \<Rightarrow> 's TcpServer \<Rightarrow> ('s TcpServer \<times> (unit, unit) result) panics" where
  "write_resp_internal io seq err sv = (case encode_internal (resp_room sv) seq err of
     Panic \<Rightarrow> Panic
   | Returns (buf, _) \<Rightarrow> (let (s, r) = write_all io buf (sv_stream sv)
        in Returns (sv\<lparr>sv_stream := s, sv_encode_buf := buf\<rparr>, r)))"

definition flush_resp :: "'s Io \<Rightarrow> 's TcpServer \<Rightarrow> 's TcpServer \<times> (unit, unit) result" where
  "flush_resp io sv = (let (s, r) = io_flush io (sv_stream sv) in (sv\<lparr>sv_stream := s\<rparr>, r))"

definition sv_close_conn :: "'s Io \<Rightarrow> 's TcpServer \<Rightarrow> 's TcpServer" where
  "sv_close_conn io sv = (case flush_resp io sv of
     (sv', Ok _) \<Rightarrow> sv'\<lparr>sv_stream := shutdown_write io (sv_stream sv')\<rparr>
   | (sv', Err _) \<Rightarrow> sv')"

text \<open>What is relied on when writing: bytes are taken in order.\<close>

definition byte_sink :: "'s Io \<Rightarrow> ('s \<Rightarrow> bytes) \<Rightarrow> bool" where
  "byte_sink io written \<longleftrightarrow>
     (\<forall>b s. snd (write_all io b s) = Ok () \<and> written (fst (write_all io b s)) = written s @ b)
   \<and> (\<forall>s. snd (io_flush io s) = Ok () \<and> written (fst (io_flush io s)) = written s)"

section \<open>Lemmas: reading a request\<close>

lemma length_req_head_bytes' [simp]: "length (req_head_bytes h) = RPC_REQ_HEADER_LEN"
  by (simp add: req_head_bytes_def RPC_REQ_HEADER_LEN_def)

text \<open>The actions the header can express: non-negative numbers and valid short strings.\<close>

fun action_ok :: "RpcAction \<Rightarrow> bool" where
  "action_ok (Num n) \<longleftrightarrow> 0 \<le> sint n"
| "action_ok (Str s) \<longleftrightarrow> length s \<le> i32_max \<and> utf8_valid s"

lemma read_action_frame:
  assumes bs: "byte_stream io arrived" and "action_ok a"
    and "arrived (sv_stream sv) = action_text a @ w"
  obtains sv' where "read_action io (req_head cid (action_flag a) seq m b) sv = (sv', Ok a)"
    "arrived (sv_stream sv') = w"
proof (cases a)
  case (Num n)
  then show thesis using assms that [of sv] get_action_num [of cid n seq m b]
    by (simp add: read_action_def)
next
  case (Str t)
  obtain s where s: "read_exact io (length t) (sv_stream sv) = (s, Ok t)" "arrived s = w"
    using assms(3) Str by (auto intro: read_exact_prefix [OF bs])
  have "req_get_action (req_head cid (action_flag (Str t)) seq m b) = Err (of_nat (length t))"
    using assms(2) Str by (intro get_action_str) (simp add: i32_max_def)
  then show thesis using s assms(2) Str
    by (intro that [of "sv\<lparr>sv_stream := s, action_buf := t\<rparr>"])
       (simp_all add: read_action_def usize_of_nat_i32 from_utf8_def del: action_flag.simps)
qed

lemma read_msg_frame:
  assumes bs: "byte_stream io arrived" and "arrived (sv_stream sv) = msg @ w" "length msg \<le> u32_max"
    and h: "rq_msg_len head = of_nat (length msg)"
  obtains sv' where "read_msg io head sv = (sv', Ok msg)" "arrived (sv_stream sv') = w"
proof (cases "msg = []")
  case True
  then show thesis using assms that [of "sv\<lparr>msg_buf := []\<rparr>"] by (simp add: read_msg_def)
next
  case False
  obtain s where "read_exact io (length msg) (sv_stream sv) = (s, Ok msg)" "arrived s = w"
    using assms(2) by (rule read_exact_prefix [OF bs])
  then show thesis using False h assms(3)
    by (intro that [of "sv\<lparr>sv_stream := s, msg_buf := msg\<rparr>"])
       (simp_all add: read_msg_def of_nat_u32_pos unat_of_nat_u32)
qed

lemma read_blob_frame:
  assumes bs: "byte_stream io arrived" and "arrived (sv_stream sv) = b @ w" "length b \<le> i32_max"
    and h: "rq_blob_len head = of_nat (length b)"
  obtains sv' where "read_blob io head sv = (sv', Ok (if b = [] then None else Some b))"
    "arrived (sv_stream sv') = w"
proof (cases "b = []")
  case True
  then show thesis using assms that [of sv] by (simp add: read_blob_def)
next
  case False
  have sb: "sint (rq_blob_len head) = int (length b)" using h assms(3) by (simp add: sint_of_nat_i32)
  obtain s where "read_exact io (length b) (sv_stream sv) = (s, Ok b)" "arrived s = w"
    using assms(2) by (rule read_exact_prefix [OF bs])
  then show thesis using False sb bs
    by (intro that [of "sv\<lparr>sv_stream := s\<rparr>"]) (simp_all add: read_blob_def byte_stream_def)
qed

lemma length_resp_room [simp]: "length (resp_room sv) = RPC_RESP_HEADER_LEN"
  by (simp add: resp_room_def)

section \<open>Properties\<close>

lemma read_req_frame:
  assumes "byte_stream io arrived" and "action_ok a" and "length msg \<le> u32_max"
    and "length (opt_bytes blob) \<le> i32_max"
    and "arrived (sv_stream sv) = req_frame cid seq a msg blob @ rest"
  shows "\<exists>sv'. read_req io cancel sv = Returns (sv', Ready (Ok \<lparr>req_seq = seq, req_action = a,
        req_msg = msg, req_blob = if opt_bytes blob = [] then None else blob\<rparr>))
    \<and> arrived (sv_stream sv') = rest"
proof -
  let ?b = "opt_bytes blob"
  let ?h = "req_head cid (action_flag a) seq (of_nat (length msg)) (of_nat (length ?b))"
  have f: "rq_msg_len ?h = of_nat (length msg)" "rq_blob_len ?h = of_nat (length ?b)" "rq_seq ?h = seq"
    by (simp_all add: req_head_def)
  have a0: "arrived (sv_stream sv) = req_head_bytes ?h @ action_text a @ msg @ ?b @ rest"
    using assms(5) by (simp add: req_frame_def)
  obtain s where s: "poll_read_exact io RPC_REQ_HEADER_LEN (sv_stream sv) = (s, Ready (Ok (req_head_bytes ?h)))"
      "arrived s = action_text a @ msg @ ?b @ rest"
    using poll_read_prefix [OF assms(1) a0] by auto
  obtain sv2 where 2: "read_action io ?h (sv\<lparr>sv_stream := s\<rparr>) = (sv2, Ok a)"
      "arrived (sv_stream sv2) = msg @ ?b @ rest"
    by (rule read_action_frame [OF assms(1,2), of "sv\<lparr>sv_stream := s\<rparr>"]) (use s in auto)
  obtain sv3 where 3: "read_msg io ?h sv2 = (sv3, Ok msg)" "arrived (sv_stream sv3) = ?b @ rest"
    by (rule read_msg_frame [OF assms(1) 2(2) assms(3) f(1)])
  obtain sv4 where 4: "read_blob io ?h sv3 = (sv4, Ok (if ?b = [] then None else Some ?b))"
      "arrived (sv_stream sv4) = rest"
    by (rule read_blob_frame [OF assms(1) 3(2) assms(4) f(2)])
  have "(if ?b = [] then None else Some ?b) = (if ?b = [] then None else blob)"
    by (auto simp: opt_bytes_def split: option.splits)
  then show ?thesis using s(1) 2(1) 3(1) 4 f(3)
    by (auto simp: read_req_def Let_def simp del: action_flag.simps)
qed

text \<open>
  C10: the server reads back exactly what the client framed. When the frame of a request
  has arrived, one read returns its sequence number, action, message and blob (an empty
  blob as none) and leaves the connection at the next frame.
\<close>

theorem server_reads_request:
  assumes "byte_stream io arrived" and "action_ok a" and "length msg \<le> u32_max"
    and "length (opt_bytes blob) \<le> i32_max"
    and "arrived (sv_stream sv) = req_frame cid seq a msg blob @ rest"
  shows "\<exists>sv'. read_req io cancel sv = Returns (sv', Ready (Ok \<lparr>req_seq = seq, req_action = a,
        req_msg = msg, req_blob = if opt_bytes blob = [] then None else blob\<rparr>))
    \<and> arrived (sv_stream sv') = rest"
  by (rule read_req_frame [OF assms])

lemma write_all_sink:
  "byte_sink io written \<Longrightarrow> \<exists>s'. write_all io b s = (s', Ok ()) \<and> written s' = written s @ b"
  unfolding byte_sink_def by (metis prod.collapse)

lemma write_resp_frame:
  assumes "server_task_laws S ready seq_of answer" and "byte_sink io written" and "ready t"
    and "answer_fits (answer c t)"
  shows "\<exists>sv'. write_resp S io c t sv = Returns (sv', Ok ())
    \<and> written (sv_stream sv') = written (sv_stream sv) @ answer_frame (seq_of t) (answer c t)"
proof -
  obtain buf blob where e: "resp_encode S c (resp_room sv) t = Returns (buf, seq_of t, blob)"
      "buf @ opt_bytes blob = answer_frame (seq_of t) (answer c t)"
    using server_task_laws.resp_encode_frame [OF assms(1,3) _ assms(4), of "resp_room sv"] by auto
  obtain s1 where s1: "write_all io buf (sv_stream sv) = (s1, Ok ())" "written s1 = written (sv_stream sv) @ buf"
    using write_all_sink [OF assms(2)] by blast
  show ?thesis
  proof (cases blob)
    case None
    then show ?thesis using e s1 by (simp add: write_resp_def opt_bytes_def)
  next
    case (Some b)
    obtain s2 where "write_all io b s1 = (s2, Ok ())" "written s2 = written s1 @ b"
      using write_all_sink [OF assms(2)] by blast
    then show ?thesis using e s1 Some by (simp add: write_resp_def opt_bytes_def)
  qed
qed

lemma write_resp_internal_frame:
  assumes "byte_sink io written"
  shows "\<exists>sv'. write_resp_internal io seq err sv = Returns (sv', Ok ())
    \<and> written (sv_stream sv') = written (sv_stream sv)
        @ answer_frame seq (case err of None \<Rightarrow> Ok ([], None) | Some e \<Rightarrow> Err (ERpc e))"
  using encode_internal_frame [of "resp_room sv" seq err]
    write_all_sink [OF assms, of "case err of Some e \<Rightarrow> err_frame seq (ERpc e) | None \<Rightarrow> ok_frame seq [] None" "sv_stream sv"]
  by (cases err) (auto simp: write_resp_internal_def)

section \<open>Witnesses\<close>

definition demo_server :: "bytes \<Rightarrow> bytes TcpServer" where
  "demo_server b = \<lparr>sv_stream = b, action_buf = [], msg_buf = [], sv_encode_buf = []\<rparr>"

theorem server_reads_request_witness:
  "\<exists>sv'. read_req list_io False (demo_server (req_frame 9 3 (Str (lit ''A.b'')) [1, 2] (Some [5]) @ [7]))
    = Returns (sv', Ready (Ok \<lparr>req_seq = 3, req_action = Str (lit ''A.b''), req_msg = [1, 2], req_blob = Some [5]\<rparr>))
    \<and> sv_stream sv' = [7]"
proof -
  have a: "action_ok (Str (lit ''A.b''))" by (simp add: i32_max_def lit_def)
  show ?thesis
    using server_reads_request [OF list_io_stream a, where msg = "[1, 2]" and blob = "Some [5]" and cid = 9
        and seq = 3 and rest = "[7]" and cancel = False
        and sv = "demo_server (req_frame 9 3 (Str (lit ''A.b'')) [1, 2] (Some [5]) @ [7])"]
    by (simp add: demo_server_def u32_max_def i32_max_def)
qed

text \<open>A socket with both directions: what has arrived and what was written.\<close>

definition duplex_io :: "(bytes \<times> bytes) Io" where
  "duplex_io = \<lparr>poll_read_exact = \<lambda>n (i, out). if n \<le> length i then ((drop n i, out), Ready (Ok (take n i))) else ((i, out), Pending),
     read_exact = \<lambda>n (i, out). if n \<le> length i then ((drop n i, out), Ok (take n i)) else ((i, out), Err []),
     write_all = \<lambda>b (i, out). ((i, out @ b), Ok ()), io_flush = \<lambda>s. (s, Ok ()), shutdown_write = \<lambda>s. s,
     alloc = \<lambda>n. 0 < sint n\<rparr>"

lemma duplex_io_stream: "byte_stream duplex_io fst"
  by (simp add: byte_stream_def duplex_io_def split: prod.splits)

lemma duplex_io_sink: "byte_sink duplex_io snd"
  by (simp add: byte_sink_def duplex_io_def split: prod.splits)

definition duplex_server :: "bytes \<Rightarrow> (bytes \<times> bytes) TcpServer" where
  "duplex_server b = \<lparr>sv_stream = (b, []), action_buf = [], msg_buf = [], sv_encode_buf = []\<rparr>"

end
