(* ===== verification/Rpc_Server.thy ===== *)
theory Rpc_Server
  imports Tcp_Server "HOL-Library.Multiset"
begin

text \<open>
  \<open>RpcServer\<close> of \<open>src/stream/src/server/server.rs\<close> and the dispatch interface of
  \<open>src/stream/src/server/dispatch.rs\<close>. Each connection has a reader coroutine, which
  answers pings, dispatches requests and answers those that cannot be dispatched, and a
  writer coroutine, which sends the answers in the order of the response channel. The
  transport is the record of the methods of \<open>ServerTransport\<close>; \<open>tcp_server_transport\<close> is
  the TCP one. A dispatcher may answer at once or hand the request to a worker (a job),
  which answers later through its clone of the channel.
\<close>

section \<open>Interfaces\<close>

record ('c, 'r, 'n) ServerTransport =
  st_read_req :: "bool \<Rightarrow> 'n \<Rightarrow> ('n \<times> (RpcSvrReq, RpcIntErr) result poll) panics"
  st_write_resp :: "'c \<Rightarrow> 'r \<Rightarrow> 'n \<Rightarrow> ('n \<times> (unit, unit) result) panics"
  st_write_resp_internal :: "u64 \<Rightarrow> RpcIntErr option \<Rightarrow> 'n \<Rightarrow> ('n \<times> (unit, unit) result) panics"
  st_flush_resp :: "'n \<Rightarrow> 'n \<times> (unit, unit) result"
  st_close_conn :: "'n \<Rightarrow> 'n"

definition tcp_server_transport ::
  "('c, 'r) ServerTaskEncode \<Rightarrow> 's Io \<Rightarrow> ('c, 'r, 's TcpServer) ServerTransport" where
  "tcp_server_transport S io = \<lparr>st_read_req = read_req io, st_write_resp = write_resp S io,
     st_write_resp_internal = write_resp_internal io, st_flush_resp = flush_resp io,
     st_close_conn = sv_close_conn io\<rparr>"

text \<open>
  \<open>Dispatch::dispatch_req\<close>: the channel afterwards, the jobs handed out, the result. It
  runs user code, which may panic.
\<close>

record ('c, 'r, 'j) Dispatch =
  dispatch_req :: "'c \<Rightarrow> RpcSvrReq \<Rightarrow> 'r RespNoti \<Rightarrow> ('r RespNoti \<times> 'j list \<times> (unit, unit) result) panics"

text \<open>\<open>DispatchClosure\<close>; decoding is that of the task type, the closure is the user's.\<close>

definition closure_dispatch_req ::
  "('c \<Rightarrow> RpcAction \<Rightarrow> u64 \<Rightarrow> bytes \<Rightarrow> bytes option \<Rightarrow> ('t, unit) result)
   \<Rightarrow> ('t \<Rightarrow> 'r RespNoti \<Rightarrow> ('r RespNoti \<times> 'j list \<times> (unit, unit) result) panics)
   \<Rightarrow> 'c \<Rightarrow> RpcSvrReq \<Rightarrow> 'r RespNoti \<Rightarrow> ('r RespNoti \<times> 'j list \<times> (unit, unit) result) panics" where
  "closure_dispatch_req decode task_handle codec req noti =
    (case decode codec (req_action req) (req_seq req) (req_msg req) (req_blob req) of
       Err _ \<Rightarrow> Returns (noti, [], Err ())
     | Ok task \<Rightarrow> (case task_handle task noti of
         Panic \<Rightarrow> Panic
       | Returns (noti', js, Err _) \<Rightarrow> Returns (noti', js, Err ())
       | Returns (noti', js, Ok _) \<Rightarrow> Returns (noti', js, Ok ())))"

definition closure_dispatch ::
  "('c \<Rightarrow> RpcAction \<Rightarrow> u64 \<Rightarrow> bytes \<Rightarrow> bytes option \<Rightarrow> ('t, unit) result)
   \<Rightarrow> ('t \<Rightarrow> 'r RespNoti \<Rightarrow> ('r RespNoti \<times> 'j list \<times> (unit, unit) result) panics) \<Rightarrow> ('c, 'r, 'j) Dispatch" where
  "closure_dispatch decode task_handle = \<lparr>dispatch_req = closure_dispatch_req decode task_handle\<rparr>"

section \<open>A connection\<close>

datatype writer_state = W_Recv | W_Drain | W_Stopped

record ('n, 'r, 'j) SvrConn =
  sc_conn :: 'n
  sc_noti :: "'r RespNoti"
  sc_reader :: bool
  sc_writer :: writer_state
  sc_jobs :: "'j list"

text \<open>\<open>server_conn\<close>: the connection with both coroutines started.\<close>

definition server_conn :: "'n \<Rightarrow> ('n, 'r, 'j) SvrConn" where
  "server_conn peer = \<lparr>sc_conn = peer, sc_noti = \<lparr>noti_queue = [], noti_rx_alive = True\<rparr>,
     sc_reader = True, sc_writer = W_Recv, sc_jobs = []\<rparr>"

text \<open>The reader ends when the writer has gone.\<close>

definition send_quick_resp ::
  "u64 \<Rightarrow> RpcIntErr option \<Rightarrow> ('n, 'r, 'j) SvrConn \<Rightarrow> ('n, 'r, 'j) SvrConn" where
  "send_quick_resp seq err c = (case noti_send_err seq err (sc_noti c) of
     (q, Err _) \<Rightarrow> c\<lparr>sc_noti := q, sc_reader := False\<rparr>
   | (q, Ok _) \<Rightarrow> c\<lparr>sc_noti := q\<rparr>)"

definition is_ping :: "RpcSvrReq \<Rightarrow> bool" where
  "is_ping req \<longleftrightarrow> req_action req = Num 0 \<and> req_msg req = []"

definition handle_req ::
  "('c, 'r, 'j) Dispatch \<Rightarrow> 'c \<Rightarrow> RpcSvrReq \<Rightarrow> ('n, 'r, 'j) SvrConn \<Rightarrow> ('n, 'r, 'j) SvrConn panics" where
  "handle_req D codec req c =
    (if is_ping req then Returns (send_quick_resp (req_seq req) None c)
     else (case dispatch_req D codec req (sc_noti c) of
             Panic \<Rightarrow> Panic
           | Returns (q, js, Ok _) \<Rightarrow> Returns (c\<lparr>sc_noti := q, sc_jobs := sc_jobs c @ js\<rparr>)
           | Returns (q, js, Err _) \<Rightarrow>
               Returns (send_quick_resp (req_seq req) (Some Decode) (c\<lparr>sc_noti := q, sc_jobs := sc_jobs c @ js\<rparr>))))"

text \<open>One turn of \<open>Reader::run\<close>, with the request it has read.\<close>

definition reader_turn ::
  "('c, 'r, 'n) ServerTransport \<Rightarrow> ('c, 'r, 'j) Dispatch \<Rightarrow> 'c \<Rightarrow> bool \<Rightarrow> ('n, 'r, 'j) SvrConn
   \<Rightarrow> (('n, 'r, 'j) SvrConn \<times> RpcSvrReq list) panics" where
  "reader_turn TR D codec cancel c = (case st_read_req TR cancel (sc_conn c) of
     Panic \<Rightarrow> Panic
   | Returns (n, Pending) \<Rightarrow> Returns (c\<lparr>sc_conn := n\<rparr>, [])
   | Returns (n, Ready (Err _)) \<Rightarrow> Returns (c\<lparr>sc_conn := n, sc_reader := False\<rparr>, [])
   | Returns (n, Ready (Ok req)) \<Rightarrow> (case handle_req D codec req (c\<lparr>sc_conn := n\<rparr>) of
        Panic \<Rightarrow> Panic | Returns c' \<Rightarrow> Returns (c', [req])))"

text \<open>The writer's \<open>process!\<close>, and its end: the receiving side of the channel is dropped.\<close>

definition process ::
  "('c, 'r, 'n) ServerTransport \<Rightarrow> 'c \<Rightarrow> 'r resp_item \<Rightarrow> 'n \<Rightarrow> ('n \<times> (unit, unit) result) panics" where
  "process TR codec item n = (case item of
     Ok task \<Rightarrow> st_write_resp TR codec task n
   | Err (seq, err) \<Rightarrow> st_write_resp_internal TR seq err n)"

definition writer_stop :: "('n, 'r, 'j) SvrConn \<Rightarrow> ('n, 'r, 'j) SvrConn" where
  "writer_stop c = c\<lparr>sc_noti := \<lparr>noti_queue = [], noti_rx_alive = False\<rparr>, sc_writer := W_Stopped\<rparr>"

definition writer_process ::
  "('c, 'r, 'n) ServerTransport \<Rightarrow> 'c \<Rightarrow> 'r resp_item \<Rightarrow> 'r resp_item list \<Rightarrow> ('n, 'r, 'j) SvrConn
   \<Rightarrow> (('n, 'r, 'j) SvrConn \<times> 'r resp_item list) panics" where
  "writer_process TR codec x xs c = (case process TR codec x (sc_conn c) of
     Panic \<Rightarrow> Panic
   | Returns (n, Ok _) \<Rightarrow>
       Returns (c\<lparr>sc_conn := n, sc_noti := (sc_noti c)\<lparr>noti_queue := xs\<rparr>, sc_writer := W_Drain\<rparr>, [x])
   | Returns (n, Err _) \<Rightarrow> Returns (writer_stop (c\<lparr>sc_conn := n\<rparr>), []))"

text \<open>
  One turn of \<open>Writer::run\<close>, with what it has sent. \<open>recv\<close> ends once the channel is empty
  and nobody holds a sender: the reader has returned and no job is left.
\<close>

definition writer_turn ::
  "('c, 'r, 'n) ServerTransport \<Rightarrow> 'c \<Rightarrow> ('n, 'r, 'j) SvrConn
   \<Rightarrow> (('n, 'r, 'j) SvrConn \<times> 'r resp_item list) panics" where
  "writer_turn TR codec c = (case sc_writer c of
     W_Stopped \<Rightarrow> Returns (c, [])
   | W_Recv \<Rightarrow> (case noti_queue (sc_noti c) of
        x # xs \<Rightarrow> writer_process TR codec x xs c
      | [] \<Rightarrow> Returns (if \<not> sc_reader c \<and> sc_jobs c = []
                      then writer_stop (c\<lparr>sc_conn := st_close_conn TR (sc_conn c)\<rparr>) else c, []))
   | W_Drain \<Rightarrow> (case noti_queue (sc_noti c) of
        x # xs \<Rightarrow> writer_process TR codec x xs c
      | [] \<Rightarrow> (case st_flush_resp TR (sc_conn c) of
           (n, Ok _) \<Rightarrow> Returns (c\<lparr>sc_conn := n, sc_writer := W_Recv\<rparr>, [])
         | (n, Err _) \<Rightarrow> Returns (writer_stop (c\<lparr>sc_conn := n\<rparr>), []))))"

fun writer_run ::
  "('c, 'r, 'n) ServerTransport \<Rightarrow> 'c \<Rightarrow> nat \<Rightarrow> ('n, 'r, 'j) SvrConn \<Rightarrow> ('n, 'r, 'j) SvrConn panics" where
  "writer_run TR codec 0 c = Returns c"
| "writer_run TR codec (Suc k) c = (case writer_turn TR codec c of
     Panic \<Rightarrow> Panic
   | Returns (c', _) \<Rightarrow> writer_run TR codec k c')"

section \<open>The server\<close>

text \<open>
  \<open>RpcServer\<close>: the running listeners by address, the close channel, and the strong count of
  \<open>conn_ref_count\<close>, of which the server, every listener and every connection hold a clone.
\<close>

record RpcServer =
  listeners_abort :: "rstr list"
  server_close_tx :: bool
  conn_ref_count :: nat

definition rpc_server_new :: RpcServer where
  "rpc_server_new = \<lparr>listeners_abort = [], server_close_tx = True, conn_ref_count = 1\<rparr>"

datatype io_error = AddrNotAvailable | Other_Io

text \<open>\<open>listen\<close>; binding and the socket's own address are operating system calls.\<close>

definition listen ::
  "('l, io_error) result \<Rightarrow> ('l \<Rightarrow> (rstr, io_error) result) \<Rightarrow> rstr \<Rightarrow> RpcServer
   \<Rightarrow> RpcServer \<times> (rstr, io_error) result" where
  "listen bound local_addr addr sv = (case bound of
     Err e \<Rightarrow> (sv, Err e)
   | Ok l \<Rightarrow>
       (let started = sv\<lparr>conn_ref_count := conn_ref_count sv + 1, listeners_abort := listeners_abort sv @ [addr]\<rparr>
        in case local_addr l of
             Ok a \<Rightarrow> (started, Ok a)
           | Err AddrNotAvailable \<Rightarrow> (started, Ok (lit ''0.0.0.0:0''))
           | Err e \<Rightarrow> (sv, Err e)))"

text \<open>A listener accepts a connection, or ends on an error and drops its clone of the count.\<close>

definition accept_turn :: "('n, unit) result \<Rightarrow> RpcServer \<Rightarrow> RpcServer \<times> ('n, 'r, 'j) SvrConn option" where
  "accept_turn accepted sv = (case accepted of
     Err _ \<Rightarrow> (sv\<lparr>conn_ref_count := conn_ref_count sv - 1\<rparr>, None)
   | Ok peer \<Rightarrow> (sv\<lparr>conn_ref_count := conn_ref_count sv + 1\<rparr>, Some (server_conn peer)))"

definition get_alive_conn :: "RpcServer \<Rightarrow> nat" where
  "get_alive_conn sv = conn_ref_count sv - 1"

text \<open>
  The waiting loop of \<open>close\<close>: after each sleep it sees the number of connections left and
  the time since the start. The result is the number it reports; \<open>None\<close> while it waits.
\<close>

fun close_wait :: "nat \<Rightarrow> nat \<Rightarrow> (nat \<times> nat) list \<Rightarrow> nat option" where
  "close_wait limit 0 obs = Some 0"
| "close_wait limit (Suc n) [] = None"
| "close_wait limit (Suc n) ((cnt, elapsed) # obs) =
    (if elapsed > limit then Some cnt else close_wait limit cnt obs)"

text \<open>\<open>dropped\<close>: how many of the aborted listeners the runtime has dropped when the wait begins.\<close>

definition close :: "nat \<Rightarrow> nat \<Rightarrow> (nat \<times> nat) list \<Rightarrow> RpcServer \<Rightarrow> RpcServer \<times> nat option" where
  "close server_close_wait dropped obs sv =
    (let sv' = sv\<lparr>listeners_abort := [], server_close_tx := False, conn_ref_count := conn_ref_count sv - dropped\<rparr>
     in (sv', close_wait server_close_wait (get_alive_conn sv') obs))"

section \<open>Runs of a connection\<close>

text \<open>
  The reader or the writer takes a turn, a worker finishes a job and answers, or drops it
  without an answer. \<open>answers\<close> relates a job to the answers it may give.
\<close>

datatype ('r, 'j) conn_label = L_Read "RpcSvrReq list" | L_Write "'r resp_item list" | L_Answer 'r | L_Abandon 'j

inductive conn_step ::
  "('c, 'r, 'n) ServerTransport \<Rightarrow> ('c, 'r, 'j) Dispatch \<Rightarrow> ('j \<Rightarrow> 'r \<Rightarrow> bool) \<Rightarrow> 'c
   \<Rightarrow> ('n, 'r, 'j) SvrConn \<Rightarrow> ('r, 'j) conn_label \<Rightarrow> ('n, 'r, 'j) SvrConn \<Rightarrow> bool"
  for TR D answers codec where
  cst_read: "sc_reader c \<Longrightarrow> reader_turn TR D codec cancel c = Returns (c', rs)
    \<Longrightarrow> conn_step TR D answers codec c (L_Read rs) c'"
| cst_write: "writer_turn TR codec c = Returns (c', ws) \<Longrightarrow> conn_step TR D answers codec c (L_Write ws) c'"
| cst_answer: "sc_jobs c = js @ j # js' \<Longrightarrow> answers j r
    \<Longrightarrow> conn_step TR D answers codec c (L_Answer r) (c\<lparr>sc_jobs := js @ js', sc_noti := noti_done r (sc_noti c)\<rparr>)"
| cst_abandon: "sc_jobs c = js @ j # js'
    \<Longrightarrow> conn_step TR D answers codec c (L_Abandon j) (c\<lparr>sc_jobs := js @ js'\<rparr>)"

inductive conn_run ::
  "('c, 'r, 'n) ServerTransport \<Rightarrow> ('c, 'r, 'j) Dispatch \<Rightarrow> ('j \<Rightarrow> 'r \<Rightarrow> bool) \<Rightarrow> 'c
   \<Rightarrow> ('n, 'r, 'j) SvrConn \<Rightarrow> ('r, 'j) conn_label list \<Rightarrow> ('n, 'r, 'j) SvrConn \<Rightarrow> bool"
  for TR D answers codec where
  crn_nil: "conn_run TR D answers codec c [] c"
| crn_snoc: "conn_run TR D answers codec c ls c' \<Longrightarrow> conn_step TR D answers codec c' l c''
    \<Longrightarrow> conn_run TR D answers codec c (ls @ [l]) c''"

fun reads :: "('r, 'j) conn_label list \<Rightarrow> RpcSvrReq list" where
  "reads [] = []" | "reads (L_Read rs # ls) = rs @ reads ls" | "reads (_ # ls) = reads ls"

fun writes :: "('r, 'j) conn_label list \<Rightarrow> 'r resp_item list" where
  "writes [] = []" | "writes (L_Write ws # ls) = ws @ writes ls" | "writes (_ # ls) = writes ls"

fun abandoned :: "('r, 'j) conn_label list \<Rightarrow> 'j list" where
  "abandoned [] = []" | "abandoned (L_Abandon j # ls) = j # abandoned ls" | "abandoned (_ # ls) = abandoned ls"

lemma reads_append [simp]: "reads (ls @ ls') = reads ls @ reads ls'"
  by (induction ls rule: reads.induct) simp_all

lemma writes_append [simp]: "writes (ls @ ls') = writes ls @ writes ls'"
  by (induction ls rule: writes.induct) simp_all

lemma abandoned_append [simp]: "abandoned (ls @ ls') = abandoned ls @ abandoned ls'"
  by (induction ls rule: abandoned.induct) simp_all

section \<open>The contract of a dispatcher\<close>

fun item_seq :: "('r \<Rightarrow> u64) \<Rightarrow> 'r resp_item \<Rightarrow> u64" where
  "item_seq f (Ok t) = f t"
| "item_seq f (Err (seq, err)) = seq"

definition enqueue :: "'r resp_item list \<Rightarrow> 'r RespNoti \<Rightarrow> 'r RespNoti" where
  "enqueue items q = (if noti_rx_alive q then q\<lparr>noti_queue := noti_queue q @ items\<rparr> else q)"

lemma enqueue_alive [simp]: "noti_rx_alive (enqueue items q) = noti_rx_alive q"
  by (simp add: enqueue_def)

lemma noti_done_enqueue: "noti_done t q = enqueue [Ok t] q"
  by (simp add: noti_done_def noti_send_def enqueue_def)

lemma send_quick_resp_eq:
  "send_quick_resp seq err c = (if noti_rx_alive (sc_noti c) then c\<lparr>sc_noti := enqueue [Err (seq, err)] (sc_noti c)\<rparr>
     else c\<lparr>sc_reader := False\<rparr>)"
  by (simp add: send_quick_resp_def noti_send_err_def noti_send_def enqueue_def)

text \<open>The sequence numbers that still wait to be answered or sent.\<close>

definition pend :: "('r \<Rightarrow> u64) \<Rightarrow> ('j \<Rightarrow> u64) \<Rightarrow> ('n, 'r, 'j) SvrConn \<Rightarrow> u64 multiset" where
  "pend task_seq_of job_seq c =
    mset (map (item_seq task_seq_of) (noti_queue (sc_noti c))) + mset (map job_seq (sc_jobs c))"

text \<open>
  A request that is accepted is answered at once or handed to one job, under its own
  sequence number; one that is refused leaves nothing behind.
\<close>

locale dispatch_laws =
  fixes D :: "('c, 'r, 'j) Dispatch"
    and answers :: "'j \<Rightarrow> 'r \<Rightarrow> bool"
    and task_seq_of :: "'r \<Rightarrow> u64"
    and job_seq :: "'j \<Rightarrow> u64"
  assumes one_answer: "dispatch_req D codec req q = Returns (q', js, r) \<Longrightarrow>
      \<exists>items. q' = enqueue items q
        \<and> map (item_seq task_seq_of) items @ map job_seq js = (if is_Ok r then [req_seq req] else [])"
    and answers_seq: "answers j t \<Longrightarrow> task_seq_of t = job_seq j"
begin

text \<open>What \<open>handle_req\<close> does to the connection, by cases.\<close>

lemma handle_req_cases:
  assumes "handle_req D codec req c = Returns c'"
  obtains (quick) err where "c' = send_quick_resp (req_seq req) err c"
  | (dispatched) items js where "c' = c\<lparr>sc_noti := enqueue items (sc_noti c), sc_jobs := sc_jobs c @ js\<rparr>"
      "map (item_seq task_seq_of) items @ map job_seq js = [req_seq req]"
      "\<exists>codec q' r. dispatch_req D codec req (sc_noti c) = Returns (q', js, r)"
proof (cases "is_ping req")
  case True
  then show thesis using assms quick [of None] by (simp add: handle_req_def)
next
  case False
  then obtain q js r where d: "dispatch_req D codec req (sc_noti c) = Returns (q, js, r)"
    using assms by (auto simp: handle_req_def split: panics.splits)
  obtain items where i: "q = enqueue items (sc_noti c)"
      "map (item_seq task_seq_of) items @ map job_seq js = (if is_Ok r then [req_seq req] else [])"
    using one_answer [OF d] by blast
  show thesis
  proof (cases r)
    case (Ok u)
    then show thesis using assms False d i by (intro dispatched [of js items]) (auto simp: handle_req_def)
  next
    case (Err u)
    then have "items = []" "js = []" using i(2) by simp_all
    then have "q = sc_noti c" using i(1) by (simp add: enqueue_def)
    then show thesis using assms False d Err \<open>js = []\<close> quick [of "Some Decode"] by (simp add: handle_req_def)
  qed
qed

lemma handle_req_pend:
  assumes "handle_req D codec req c = Returns c'"
  shows "pend task_seq_of job_seq c' \<subseteq># pend task_seq_of job_seq c + {#req_seq req#}
   \<and> (noti_rx_alive (sc_noti c) \<longrightarrow> pend task_seq_of job_seq c' = pend task_seq_of job_seq c + {#req_seq req#})
   \<and> noti_rx_alive (sc_noti c') = noti_rx_alive (sc_noti c)"
  using assms
proof (cases rule: handle_req_cases)
  case (quick err)
  then show ?thesis by (simp add: send_quick_resp_eq pend_def enqueue_def)
next
  case (dispatched items js)
  have m: "mset (map (item_seq task_seq_of) items) + mset (map job_seq js) = {#req_seq req#}"
    using arg_cong [OF dispatched(2), of mset] by simp
  then have "mset (map job_seq js) \<subseteq># {#req_seq req#}" by (metis mset_subset_eq_add_right)
  then show ?thesis using dispatched(1) m
    by (auto simp: pend_def enqueue_def ac_simps intro: subset_mset.add_left_mono)
qed

lemma writer_process_pend:
  assumes "writer_process TR codec x xs c = Returns (c', ws)" "noti_queue (sc_noti c) = x # xs"
  shows "mset (map (item_seq task_seq_of) ws) + pend task_seq_of job_seq c' \<subseteq># pend task_seq_of job_seq c
    \<and> (noti_rx_alive (sc_noti c') \<longrightarrow> noti_rx_alive (sc_noti c)
        \<and> mset (map (item_seq task_seq_of) ws) + pend task_seq_of job_seq c' = pend task_seq_of job_seq c)"
  using assms by (auto simp: writer_process_def writer_stop_def pend_def split: panics.splits result.splits prod.splits)

lemma writer_turn_pend:
  assumes "writer_turn TR codec c = Returns (c', ws)"
  shows "mset (map (item_seq task_seq_of) ws) + pend task_seq_of job_seq c' \<subseteq># pend task_seq_of job_seq c
    \<and> (noti_rx_alive (sc_noti c') \<longrightarrow> noti_rx_alive (sc_noti c)
        \<and> mset (map (item_seq task_seq_of) ws) + pend task_seq_of job_seq c' = pend task_seq_of job_seq c)"
proof (cases "noti_queue (sc_noti c)")
  case Nil
  then show ?thesis using assms
    by (auto simp: writer_turn_def writer_stop_def pend_def split: writer_state.splits result.splits prod.splits if_splits)
next
  case (Cons x xs)
  have "writer_process TR codec x xs c = Returns (c', ws) \<or> (c' = c \<and> ws = [])"
    using assms Cons by (auto simp: writer_turn_def split: writer_state.splits)
  then show ?thesis using writer_process_pend [OF _ Cons, of TR codec c' ws] by auto
qed

text \<open>The books: what was read is sent, pending or abandoned, as long as the writer lives.\<close>

definition balanced :: "('r, 'j) conn_label list \<Rightarrow> ('n, 'r, 'j) SvrConn \<Rightarrow> bool" where
  "balanced ls c \<longleftrightarrow>
     (let used = mset (map (item_seq task_seq_of) (writes ls)) + pend task_seq_of job_seq c + mset (map job_seq (abandoned ls));
          all = mset (map req_seq (reads ls))
      in used \<subseteq># all \<and> (noti_rx_alive (sc_noti c) \<longrightarrow> used = all))"

lemma balancedI:
  assumes "balanced ls c"
    and "w + p' + a \<subseteq># pend task_seq_of job_seq c + r"
    and "noti_rx_alive (sc_noti c') \<Longrightarrow> noti_rx_alive (sc_noti c) \<and> w + p' + a = pend task_seq_of job_seq c + r"
    and "w = mset (map (item_seq task_seq_of) (writes [l]))" "p' = pend task_seq_of job_seq c'"
      "a = mset (map job_seq (abandoned [l]))" "r = mset (map req_seq (reads [l]))"
  shows "balanced (ls @ [l]) c'"
proof -
  let ?W = "mset (map (item_seq task_seq_of) (writes ls))" and ?A = "mset (map job_seq (abandoned ls))"
    and ?R = "mset (map req_seq (reads ls))" and ?p = "pend task_seq_of job_seq c"
  have b: "?W + ?p + ?A \<subseteq># ?R" "noti_rx_alive (sc_noti c) \<Longrightarrow> ?W + ?p + ?A = ?R"
    using assms(1) by (simp_all add: balanced_def Let_def)
  have e: "(?W + w) + p' + (?A + a) = (?W + ?A) + (w + p' + a)" "(?W + ?A) + (?p + r) = (?W + ?p + ?A) + r"
    by (simp_all add: ac_simps)
  have "(?W + ?A) + (w + p' + a) \<subseteq># (?W + ?A) + (?p + r)" using assms(2) by simp
  also have "\<dots> \<subseteq># ?R + r" unfolding e(2) using b(1) by simp
  finally have "(?W + w) + p' + (?A + a) \<subseteq># ?R + r" unfolding e(1) .
  moreover have "(?W + w) + p' + (?A + a) = ?R + r" if al: "noti_rx_alive (sc_noti c')"
  proof -
    have c: "noti_rx_alive (sc_noti c)" and eq: "w + p' + a = ?p + r" using assms(3) [OF al] by simp_all
    show ?thesis unfolding e(1) eq e(2) b(2) [OF c] ..
  qed
  ultimately show ?thesis using assms(4-7) by (simp add: balanced_def Let_def)
qed

lemma conn_step_balanced:
  assumes "conn_step TR D answers codec c l c'" "balanced ls c"
  shows "balanced (ls @ [l]) c'"
  using assms(1)
proof cases
  case (cst_read cancel rs)
  show ?thesis
  proof (rule balancedI [OF assms(2) _ _ refl refl refl refl])
    obtain n where "(rs = [] \<and> (c' = c\<lparr>sc_conn := n\<rparr> \<or> c' = c\<lparr>sc_conn := n, sc_reader := False\<rparr>))
        \<or> (\<exists>req. rs = [req] \<and> handle_req D codec req (c\<lparr>sc_conn := n\<rparr>) = Returns c')"
      using cst_read(3) by (auto simp: reader_turn_def split: panics.splits prod.splits poll.splits result.splits)
    then have "pend task_seq_of job_seq c' \<subseteq># pend task_seq_of job_seq c + mset (map req_seq rs)
        \<and> noti_rx_alive (sc_noti c') = noti_rx_alive (sc_noti c)
        \<and> (noti_rx_alive (sc_noti c) \<longrightarrow> pend task_seq_of job_seq c' = pend task_seq_of job_seq c + mset (map req_seq rs))"
      using handle_req_pend [of codec _ "c\<lparr>sc_conn := n\<rparr>" c'] by (auto simp: pend_def)
    then show "mset (map (item_seq task_seq_of) (writes [l])) + pend task_seq_of job_seq c' + mset (map job_seq (abandoned [l]))
        \<subseteq># pend task_seq_of job_seq c + mset (map req_seq (reads [l]))"
      and "noti_rx_alive (sc_noti c') \<Longrightarrow> noti_rx_alive (sc_noti c)
        \<and> mset (map (item_seq task_seq_of) (writes [l])) + pend task_seq_of job_seq c' + mset (map job_seq (abandoned [l]))
          = pend task_seq_of job_seq c + mset (map req_seq (reads [l]))"
      using cst_read(1) by auto
  qed
next
  case (cst_write ws)
  show ?thesis
    by (rule balancedI [OF assms(2) _ _ refl refl refl refl])
       (use writer_turn_pend [OF cst_write(2)] cst_write(1) in auto)
next
  case (cst_answer js j js' r)
  have "task_seq_of r = job_seq j" by (rule answers_seq [OF cst_answer(4)])
  then show ?thesis using cst_answer(1-3)
    by (intro balancedI [OF assms(2) _ _ refl refl refl refl]) (auto simp: pend_def noti_done_enqueue enqueue_def split: if_splits)
next
  case (cst_abandon js j js')
  then show ?thesis by (intro balancedI [OF assms(2) _ _ refl refl refl refl]) (auto simp: pend_def)
qed

lemma conn_run_balanced:
  "conn_run TR D answers codec c ls c' \<Longrightarrow> c = server_conn peer \<Longrightarrow> balanced ls c'"
proof (induction rule: conn_run.induct)
  case (crn_nil c)
  then show ?case by (simp add: balanced_def pend_def server_conn_def)
next
  case (crn_snoc c ls c' l c'')
  then show ?case using conn_step_balanced by blast
qed

end

text \<open>
  C6: the server answers every request exactly once. For a dispatcher that gives each
  request one answer, no response is ever sent without its request or twice; and while the
  writer is running, every request that was read has been answered on the wire, waits in
  the response channel, is with a worker, or was dropped by its worker. Pings and requests
  that cannot be dispatched are included.
\<close>

theorem every_request_answered_once:
  assumes "dispatch_laws D answers task_seq_of job_seq"
    and "conn_run TR D answers codec (server_conn peer) ls c"
  shows "mset (map (item_seq task_seq_of) (writes ls)) \<subseteq># mset (map req_seq (reads ls))
    \<and> (noti_rx_alive (sc_noti c) \<longrightarrow> mset (map req_seq (reads ls))
        = mset (map (item_seq task_seq_of) (writes ls)) + pend task_seq_of job_seq c
          + mset (map job_seq (abandoned ls)))"
proof -
  let ?w = "mset (map (item_seq task_seq_of) (writes ls))" and ?p = "pend task_seq_of job_seq c"
    and ?a = "mset (map job_seq (abandoned ls))" and ?r = "mset (map req_seq (reads ls))"
  have b: "?w + ?p + ?a \<subseteq># ?r" "noti_rx_alive (sc_noti c) \<longrightarrow> ?w + ?p + ?a = ?r"
    using dispatch_laws.conn_run_balanced [OF assms refl]
    by (simp_all add: dispatch_laws.balanced_def [OF assms(1)] Let_def)
  have "?w \<subseteq># ?w + ?p + ?a" by (simp add: add.assoc)
  then have "?w \<subseteq># ?r" using b(1) by (rule subset_mset.order_trans)
  then show ?thesis using b(2) by auto
qed

section \<open>Order\<close>

text \<open>A dispatcher that answers in the connection's own coroutine.\<close>

locale inline_dispatch = dispatch_laws D answers task_seq_of job_seq
  for D :: "('c, 'r, 'j) Dispatch" and answers and task_seq_of and job_seq +
  assumes no_jobs: "dispatch_req D codec req q = Returns (q', js, r) \<Longrightarrow> js = []"
begin

lemma handle_req_order:
  assumes "handle_req D codec req c = Returns c'" "sc_jobs c = []"
  shows "sc_jobs c' = [] \<and> sc_writer c' = sc_writer c \<and> noti_rx_alive (sc_noti c') = noti_rx_alive (sc_noti c)
    \<and> (noti_rx_alive (sc_noti c) \<longrightarrow>
        map (item_seq task_seq_of) (noti_queue (sc_noti c'))
          = map (item_seq task_seq_of) (noti_queue (sc_noti c)) @ [req_seq req])"
  using assms(1)
proof (cases rule: handle_req_cases)
  case (quick err)
  then show ?thesis using assms(2) by (simp add: send_quick_resp_eq enqueue_def)
next
  case (dispatched items js)
  then have "js = []" using no_jobs by blast
  then show ?thesis using dispatched(1,2) assms(2) by (simp add: enqueue_def)
qed

definition in_order :: "('r, 'j) conn_label list \<Rightarrow> ('n, 'r, 'j) SvrConn \<Rightarrow> bool" where
  "in_order ls c \<longleftrightarrow> sc_jobs c = [] \<and> (noti_rx_alive (sc_noti c) \<or> sc_writer c = W_Stopped)
     \<and> (\<exists>rest. map req_seq (reads ls) = map (item_seq task_seq_of) (writes ls) @ rest
          \<and> (noti_rx_alive (sc_noti c) \<longrightarrow> rest = map (item_seq task_seq_of) (noti_queue (sc_noti c))))"

lemma read_in_order:
  assumes "reader_turn TR D codec cancel c = Returns (c', rs)" "in_order ls c"
  shows "in_order (ls @ [L_Read rs]) c'"
proof -
  obtain n where "(rs = [] \<and> (c' = c\<lparr>sc_conn := n\<rparr> \<or> c' = c\<lparr>sc_conn := n, sc_reader := False\<rparr>))
      \<or> (\<exists>req. rs = [req] \<and> handle_req D codec req (c\<lparr>sc_conn := n\<rparr>) = Returns c')"
    using assms(1) by (auto simp: reader_turn_def split: panics.splits prod.splits poll.splits result.splits)
  then consider "rs = []" "sc_jobs c' = sc_jobs c" "sc_noti c' = sc_noti c" "sc_writer c' = sc_writer c"
    | req where "rs = [req]" "handle_req D codec req (c\<lparr>sc_conn := n\<rparr>) = Returns c'" by auto
  then show ?thesis
  proof cases
    case 1
    then show ?thesis using assms(2) by (simp add: in_order_def)
  next
    case 2
    then show ?thesis using assms(2) handle_req_order [OF 2(2)]
      by (auto simp: in_order_def)
  qed
qed

lemma process_in_order:
  assumes "writer_process TR codec x xs c = Returns (c', ws)" "in_order ls c"
    "noti_queue (sc_noti c) = x # xs" "sc_writer c \<noteq> W_Stopped"
  shows "in_order (ls @ [L_Write ws]) c'"
proof -
  have "noti_rx_alive (sc_noti c)" using assms(2,4) by (auto simp: in_order_def)
  then show ?thesis using assms
    by (auto simp: writer_process_def writer_stop_def in_order_def split: panics.splits result.splits prod.splits)
qed

lemma write_in_order:
  assumes "writer_turn TR codec c = Returns (c', ws)" "in_order ls c"
  shows "in_order (ls @ [L_Write ws]) c'"
proof (cases "sc_writer c = W_Stopped")
  case True
  then show ?thesis using assms by (simp add: writer_turn_def in_order_def)
next
  case False
  show ?thesis
  proof (cases "noti_queue (sc_noti c)")
    case Nil
    then show ?thesis using assms False
      by (auto simp: writer_turn_def writer_stop_def in_order_def
          split: writer_state.splits result.splits prod.splits if_splits)
  next
    case (Cons x xs)
    have "writer_process TR codec x xs c = Returns (c', ws)"
      using assms(1) Cons False by (auto simp: writer_turn_def split: writer_state.splits)
    then show ?thesis using assms(2) Cons False by (rule process_in_order)
  qed
qed

lemma conn_run_in_order:
  "conn_run TR D answers codec c ls c' \<Longrightarrow> c = server_conn peer \<Longrightarrow> in_order ls c'"
proof (induction rule: conn_run.induct)
  case (crn_nil c)
  then show ?case by (simp add: in_order_def server_conn_def)
next
  case (crn_snoc c ls c' l c'')
  then have "in_order ls c'" by simp
  with crn_snoc.hyps(2) show ?case
    by cases (auto intro: read_in_order write_in_order, auto simp: in_order_def)
qed

end

text \<open>
  C18: with a dispatcher that answers in the reader's coroutine the responses leave in the
  order of the requests: what has been sent is a prefix of what was read, and while the
  writer lives the rest is exactly what waits in the channel.
\<close>

theorem inline_answers_in_order:
  assumes "inline_dispatch D answers task_seq_of job_seq"
    and "conn_run TR D answers codec (server_conn peer) ls c"
  shows "\<exists>rest. map req_seq (reads ls) = map (item_seq task_seq_of) (writes ls) @ rest
    \<and> (noti_rx_alive (sc_noti c) \<longrightarrow> rest = map (item_seq task_seq_of) (noti_queue (sc_noti c)))"
  using inline_dispatch.conn_run_in_order [OF assms refl]
  by (simp add: inline_dispatch.in_order_def [OF assms(1)])

section \<open>Closing\<close>

text \<open>The bytes of a channel item on the wire.\<close>

fun item_frame ::
  "('r \<Rightarrow> u64) \<Rightarrow> ('c \<Rightarrow> 'r \<Rightarrow> (bytes \<times> bytes option, EncodedErr) result) \<Rightarrow> 'c \<Rightarrow> 'r resp_item \<Rightarrow> bytes" where
  "item_frame seq_of answer codec (Ok t) = answer_frame (seq_of t) (answer codec t)"
| "item_frame seq_of answer codec (Err (seq, err)) =
    answer_frame seq (case err of None \<Rightarrow> Ok ([], None) | Some e \<Rightarrow> Err (ERpc e))"

definition item_ready ::
  "('r \<Rightarrow> bool) \<Rightarrow> ('c \<Rightarrow> 'r \<Rightarrow> (bytes \<times> bytes option, EncodedErr) result) \<Rightarrow> 'c \<Rightarrow> 'r resp_item \<Rightarrow> bool" where
  "item_ready ready answer codec x \<longleftrightarrow> (\<forall>t. x = Ok t \<longrightarrow> ready t \<and> answer_fits (answer codec t))"

lemma writer_run_stopped: "sc_writer c = W_Stopped \<Longrightarrow> writer_run TR codec k c = Returns c"
  by (induction k) (simp_all add: writer_turn_def)

lemma process_sink:
  assumes "server_task_laws S ready seq_of answer" "byte_sink io written" "item_ready ready answer codec x"
  shows "\<exists>n'. process (tcp_server_transport S io) codec x n = Returns (n', Ok ())
    \<and> written (sv_stream n') = written (sv_stream n) @ item_frame seq_of answer codec x"
proof (cases x)
  case (Ok t)
  then show ?thesis using write_resp_frame [OF assms(1,2), of t codec n] assms(3)
    by (simp add: process_def tcp_server_transport_def item_ready_def)
next
  case (Err p)
  then show ?thesis using write_resp_internal_frame [OF assms(2), of "fst p" "snd p" n]
    by (cases p) (simp add: process_def tcp_server_transport_def)
qed

lemma writer_run_close:
  assumes "sc_writer d = W_Recv" "noti_queue (sc_noti d) = []" "\<not> sc_reader d" "sc_jobs d = []"
  shows "\<exists>c'. writer_run (tcp_server_transport S io) codec (Suc m) d = Returns c' \<and> sc_writer c' = W_Stopped
    \<and> sc_conn c' = sv_close_conn io (sc_conn d)"
  using assms writer_run_stopped [of "writer_stop (d\<lparr>sc_conn := sv_close_conn io (sc_conn d)\<rparr>)"
      "tcp_server_transport S io" codec m]
  by (simp add: writer_turn_def writer_stop_def tcp_server_transport_def)

lemma writer_run_empty:
  assumes io: "byte_sink io written" and c: "noti_queue (sc_noti c) = []" "\<not> sc_reader c" "sc_jobs c = []"
    "sc_writer c \<noteq> W_Stopped"
  shows "\<exists>c' sv. writer_run (tcp_server_transport S io) codec (Suc (Suc m)) c = Returns c' \<and> sc_writer c' = W_Stopped
    \<and> sc_conn c' = sv_close_conn io sv \<and> written (sv_stream sv) = written (sv_stream (sc_conn c))"
proof (cases "sc_writer c")
  case W_Recv
  then show ?thesis using writer_run_close [of c S io codec "Suc m"] c by auto
next
  case W_Drain
  let ?TR = "tcp_server_transport S io"
  obtain s where s: "io_flush io (sv_stream (sc_conn c)) = (s, Ok ())" "written s = written (sv_stream (sc_conn c))"
    using io unfolding byte_sink_def by (metis prod.collapse)
  let ?d = "c\<lparr>sc_conn := (sc_conn c)\<lparr>sv_stream := s\<rparr>, sc_writer := W_Recv\<rparr>"
  have t: "writer_turn ?TR codec c = Returns (?d, [])"
    using W_Drain c s by (simp add: writer_turn_def tcp_server_transport_def flush_resp_def)
  obtain c' where c': "writer_run ?TR codec (Suc m) ?d = Returns c'" "sc_writer c' = W_Stopped"
      "sc_conn c' = sv_close_conn io (sc_conn ?d)"
    using writer_run_close [of ?d S io codec m] c(1-3) by auto
  have "writer_run ?TR codec (Suc (Suc m)) c = Returns c'"
    unfolding writer_run.simps(2) [of ?TR codec "Suc m" c] t using c'(1) by simp
  then show ?thesis using c'(2,3) s(2) by (intro exI [of _ c'] exI [of _ "sc_conn ?d"]) simp
qed (use c in simp)

text \<open>
  C19: closing loses no answer. Once the reader has returned and the workers are done, the
  writer sends the frames of everything in the response channel in order, flushes, closes
  the connection and stops, within one turn per answer and two more.
\<close>

theorem writer_drains_then_closes:
  assumes "server_task_laws S ready seq_of answer" "byte_sink io written"
    and "\<forall>x \<in> set (noti_queue (sc_noti c)). item_ready ready answer codec x"
    and "\<not> sc_reader c" "sc_jobs c = []" "sc_writer c \<noteq> W_Stopped"
    and "length (noti_queue (sc_noti c)) + 2 \<le> k"
  shows "\<exists>c' sv. writer_run (tcp_server_transport S io) codec k c = Returns c' \<and> sc_writer c' = W_Stopped
    \<and> sc_conn c' = sv_close_conn io sv
    \<and> written (sv_stream sv) = written (sv_stream (sc_conn c))
        @ concat (map (item_frame seq_of answer codec) (noti_queue (sc_noti c)))"
  using assms(3-)
proof (induction "noti_queue (sc_noti c)" arbitrary: c k)
  case Nil
  have "2 \<le> k" using Nil.prems(5) Nil.hyps [symmetric] by simp
  then obtain m where "k = Suc (Suc m)" using le_Suc_ex [of 2 k] by auto
  then show ?case using writer_run_empty [OF assms(2), of c S codec m] Nil.hyps [symmetric] Nil.prems(2-4) by auto
next
  case (Cons x xs)
  let ?TR = "tcp_server_transport S io"
  obtain n where n: "process ?TR codec x (sc_conn c) = Returns (n, Ok ())"
      "written (sv_stream n) = written (sv_stream (sc_conn c)) @ item_frame seq_of answer codec x"
    using process_sink [OF assms(1,2), of codec x "sc_conn c"] Cons.prems(1) Cons.hyps(2) [symmetric] by auto
  let ?d = "c\<lparr>sc_conn := n, sc_noti := (sc_noti c)\<lparr>noti_queue := xs\<rparr>, sc_writer := W_Drain\<rparr>"
  obtain m where m: "k = Suc m" "length xs + 2 \<le> m" using Cons.prems(5) Cons.hyps(2) [symmetric] by (cases k) auto
  have t: "writer_turn ?TR codec c = Returns (?d, [x])"
    using Cons.hyps(2) [symmetric] Cons.prems(4) n(1)
    by (cases "sc_writer c") (simp_all add: writer_turn_def writer_process_def)
  have "\<exists>c' sv. writer_run ?TR codec m ?d = Returns c' \<and> sc_writer c' = W_Stopped \<and> sc_conn c' = sv_close_conn io sv
      \<and> written (sv_stream sv) = written (sv_stream (sc_conn ?d))
          @ concat (map (item_frame seq_of answer codec) (noti_queue (sc_noti ?d)))"
    by (rule Cons.hyps(1)) (use Cons.prems(1-3) Cons.hyps(2) [symmetric] m(2) in auto)
  then show ?case using t m(1) n(2) Cons.hyps(2) [symmetric] by auto
qed

text \<open>\<open>close\<close> ends: with every observation at least a second later than the one before.\<close>

lemma close_wait_ends:
  assumes "\<forall>i < length obs. base + i < snd (obs ! i)" "limit < base + length obs" "base \<le> limit"
  shows "\<exists>r. close_wait limit n obs = Some r"
  using assms
proof (induction limit n obs arbitrary: base rule: close_wait.induct)
  case (3 limit n cnt elapsed obs)
  show ?case
  proof (cases "elapsed > limit")
    case False
    have 0: "base < elapsed" using 3(2) by force
    then have "base + 1 \<le> limit" using False by simp
    moreover have "\<forall>i < length obs. (base + 1) + i < snd (obs ! i)" using 3(2) by force
    ultimately show ?thesis using 3(1) [OF False, of "base + 1"] 3(3) False by simp
  qed simp
qed auto

text \<open>
  Closing the server ends. \<open>close\<close> stops all listeners, tells the readers, and returns
  after at most \<open>server_close_wait\<close> further seconds whatever the connections do.
\<close>

lemma close_returns:
  assumes "\<forall>i < length obs. i < snd (obs ! i)" "wait < length obs"
  shows "\<exists>n. snd (close wait dropped obs sv) = Some n
    \<and> listeners_abort (fst (close wait dropped obs sv)) = [] \<and> \<not> server_close_tx (fst (close wait dropped obs sv))"
  using close_wait_ends [of obs 0 wait] assms by (auto simp: close_def Let_def)

section \<open>Witnesses\<close>

text \<open>A handler that echoes the message, run by the closure dispatcher over a socket.\<close>

definition echo_dispatch :: "(unit, RpcSvrResp, unit) Dispatch" where
  "echo_dispatch = closure_dispatch (\<lambda>_ action seq msg blob. Ok (seq, msg))
     (\<lambda>(seq, msg) q. Returns (noti_done \<lparr>resp_seq = seq, resp_msg = Some msg, resp_blob = None, resp_res = Some (Ok ())\<rparr> q,
        [], Ok ()))"

lemma echo_inline: "inline_dispatch echo_dispatch (\<lambda>_ _. False) resp_seq (\<lambda>_. 0)"
  by unfold_locales
     (auto simp: echo_dispatch_def closure_dispatch_def closure_dispatch_req_def noti_done_enqueue
        intro!: exI [of _ "[Ok \<lparr>resp_seq = _, resp_msg = Some _, resp_blob = None, resp_res = Some (Ok ())\<rparr>]"])

abbreviation "echo_req \<equiv> \<lparr>req_seq = 3, req_action = Num 1, req_msg = [5], req_blob = None\<rparr>"
abbreviation "echo_resp \<equiv> \<lparr>resp_seq = 3, resp_msg = Some [5], resp_blob = None, resp_res = Some (Ok ())\<rparr>"

lemma echo_run:
  "\<exists>c. conn_run (tcp_server_transport svr_resp_task duplex_io) echo_dispatch (\<lambda>_ _. False) ()
        (server_conn (duplex_server (req_frame 9 3 (Num 1) [5] None))) [L_Read [echo_req], L_Write [Ok echo_resp]] c
    \<and> noti_rx_alive (sc_noti c) \<and> pend resp_seq (\<lambda>_. 0) c = {#}"
proof -
  let ?TR = "tcp_server_transport svr_resp_task duplex_io"
  let ?c0 = "server_conn (duplex_server (req_frame 9 3 (Num 1) [5] None)) :: (_, _, unit) SvrConn"
  obtain n1 where n1: "read_req duplex_io False (sc_conn ?c0) = Returns (n1, Ready (Ok echo_req))"
    using read_req_frame [OF duplex_io_stream, of "Num 1" "[5]" None "sc_conn ?c0" 9 3 "[]" False]
    by (auto simp: server_conn_def duplex_server_def opt_bytes_def u32_max_def)
  let ?c1 = "?c0\<lparr>sc_conn := n1, sc_noti := \<lparr>noti_queue = [Ok echo_resp], noti_rx_alive = True\<rparr>\<rparr>"
  have r: "reader_turn ?TR echo_dispatch () False ?c0 = Returns (?c1, [echo_req])"
    using n1 by (simp add: reader_turn_def tcp_server_transport_def handle_req_def is_ping_def echo_dispatch_def
        closure_dispatch_def closure_dispatch_req_def noti_done_enqueue enqueue_def server_conn_def)
  obtain n2 where n2: "process ?TR () (Ok echo_resp) n1 = Returns (n2, Ok ())"
    using process_sink [OF svr_resp.server_task_laws_axioms duplex_io_sink, of "()" "Ok echo_resp" n1]
    by (auto simp: item_ready_def svr_resp_ready_def svr_resp_answer_def opt_bytes_def u32_max_def i32_max_def)
  let ?c2 = "?c1\<lparr>sc_conn := n2, sc_noti := \<lparr>noti_queue = [], noti_rx_alive = True\<rparr>, sc_writer := W_Drain\<rparr>"
  have w: "writer_turn ?TR () ?c1 = Returns (?c2, [Ok echo_resp])"
    using n2 by (simp add: writer_turn_def writer_process_def server_conn_def)
  have "conn_run ?TR echo_dispatch (\<lambda>_ _. False) () ?c0 ([] @ [L_Read [echo_req]] @ [L_Write [Ok echo_resp]]) ?c2"
    unfolding append_assoc [symmetric]
    by (rule crn_snoc [OF crn_snoc [OF crn_nil cst_read [OF _ r]] cst_write [OF w]]) (simp add: server_conn_def)
  then show ?thesis by (intro exI [of _ ?c2]) (simp add: server_conn_def pend_def)
qed

theorem every_request_answered_once_witness:
  "\<exists>c. conn_run (tcp_server_transport svr_resp_task duplex_io) echo_dispatch (\<lambda>_ _. False) ()
        (server_conn (duplex_server (req_frame 9 3 (Num 1) [5] None))) [L_Read [echo_req], L_Write [Ok echo_resp]] c
    \<and> {#3#} = mset (map (item_seq resp_seq) [Ok echo_resp]) + pend resp_seq (\<lambda>_. 0) c"
  using echo_run every_request_answered_once [OF inline_dispatch.axioms(1) [OF echo_inline]] by fastforce

theorem inline_answers_in_order_witness:
  "\<exists>c rest. conn_run (tcp_server_transport svr_resp_task duplex_io) echo_dispatch (\<lambda>_ _. False) ()
        (server_conn (duplex_server (req_frame 9 3 (Num 1) [5] None))) [L_Read [echo_req], L_Write [Ok echo_resp]] c
    \<and> [3] = map (item_seq resp_seq) [Ok echo_resp] @ rest
    \<and> rest = map (item_seq resp_seq) (noti_queue (sc_noti c))"
  using echo_run inline_answers_in_order [OF echo_inline] by fastforce

definition closing_conn :: "((bytes \<times> bytes) TcpServer, RpcSvrResp, unit) SvrConn" where
  "closing_conn = \<lparr>sc_conn = duplex_server [], sc_noti = \<lparr>noti_queue = [Ok echo_resp, Err (4, None)], noti_rx_alive = True\<rparr>,
     sc_reader = False, sc_writer = W_Recv, sc_jobs = []\<rparr>"

theorem writer_drains_then_closes_witness:
  "\<exists>c' sv. writer_run (tcp_server_transport svr_resp_task duplex_io) () 4 closing_conn = Returns c'
    \<and> sc_writer c' = W_Stopped \<and> sc_conn c' = sv_close_conn duplex_io sv
    \<and> snd (sv_stream sv) = ok_frame 3 [5] None @ ok_frame 4 [] None"
proof -
  have r: "\<forall>x \<in> set (noti_queue (sc_noti closing_conn)). item_ready svr_resp_ready svr_resp_answer () x"
    by (simp add: closing_conn_def item_ready_def svr_resp_ready_def svr_resp_answer_def opt_bytes_def u32_max_def i32_max_def)
  show ?thesis
    using writer_drains_then_closes [OF svr_resp.server_task_laws_axioms duplex_io_sink r, of 4]
    by (simp add: closing_conn_def duplex_server_def svr_resp_answer_def opt_bytes_def)
qed

end
