(* ===== verification/Api_Server.thy ===== *)
theory Api_Server
  imports Rpc_Server
begin

text \<open>
  The API layer of the server: \<open>src/src/server/{task,dispatch,service}.rs\<close>, and the code
  that the \<open>service\<close> and \<open>service_mux_struct\<close> macros generate (the quoted code of
  \<open>src/macros/src/service.rs\<close> and \<open>service_mux_struct.rs\<close>). A request names a service and a
  method; the service decodes the argument, calls the user's method and answers through the
  connection's response channel. User methods are functions from the argument to their
  result.
\<close>

section \<open>Requests and responses\<close>

record APIServerReq =
  as_seq :: u64
  as_service :: rstr
  as_method :: rstr
  as_req :: "bytes option"

record APIServerResp =
  ar_seq :: u64
  ar_msg :: "bytes option"
  ar_res :: "(unit, EncodedErr) result option"

definition api_req_decode :: "('c, 'a) Codec \<Rightarrow> 'c \<Rightarrow> bytes \<Rightarrow> ('a, unit) result" where
  "api_req_decode A codec buf = codec_decode A codec buf"

definition api_set_result ::
  "('c, 'p) Codec \<Rightarrow> 'c \<Rightarrow> 'p \<Rightarrow> APIServerReq \<Rightarrow> APIServerResp RespNoti \<Rightarrow> APIServerResp RespNoti" where
  "api_set_result P codec resp req noti = (case codec_encode P codec resp of
     Err _ \<Rightarrow> noti_done \<lparr>ar_seq = as_seq req, ar_msg = None, ar_res = Some (Err (ERpc Encode))\<rparr> noti
   | Ok msg \<Rightarrow> noti_done \<lparr>ar_seq = as_seq req, ar_msg = Some msg, ar_res = Some (Ok ())\<rparr> noti)"

definition api_set_rpc_error :: "RpcIntErr \<Rightarrow> APIServerReq \<Rightarrow> APIServerResp RespNoti \<Rightarrow> APIServerResp RespNoti" where
  "api_set_rpc_error e req noti = noti_done \<lparr>ar_seq = as_seq req, ar_msg = None, ar_res = Some (Err (ERpc e))\<rparr> noti"

definition api_set_error ::
  "('c, 'e) RpcErrCodec \<Rightarrow> 'c \<Rightarrow> 'e RpcError \<Rightarrow> APIServerReq \<Rightarrow> APIServerResp RespNoti \<Rightarrow> APIServerResp RespNoti" where
  "api_set_error E codec e req noti =
    (let encoded_err = (case e of Rpc rpc_int_err \<Rightarrow> ERpc rpc_int_err | User user_err \<Rightarrow> err_encode E codec user_err)
     in noti_done \<lparr>ar_seq = as_seq req, ar_msg = None, ar_res = Some (Err encoded_err)\<rparr> noti)"

definition api_encode_resp ::
  "'c \<Rightarrow> APIServerResp \<Rightarrow> bytes \<Rightarrow> (bytes \<times> u64 \<times> (nat \<times> bytes option, EncodedErr) result) panics" where
  "api_encode_resp codec t buf = (case ar_res t of
     None \<Rightarrow> Panic
   | Some (Ok _) \<Rightarrow> (case ar_msg t of
        Some msg \<Rightarrow> Returns (buf @ msg, ar_seq t, Ok (length msg, None))
      | None \<Rightarrow> Returns (buf, ar_seq t, Ok (0, None)))
   | Some (Err e) \<Rightarrow> Returns (buf, ar_seq t, Err e))"

definition api_resp_task :: "('c, APIServerResp) ServerTaskEncode" where
  "api_resp_task = \<lparr>encode_resp = api_encode_resp\<rparr>"

section \<open>Services\<close>

text \<open>\<open>ServiceStatic\<close>: the name and the \<open>serve\<close> method.\<close>

type_synonym 'c serve_fun = "'c \<Rightarrow> APIServerReq \<Rightarrow> APIServerResp RespNoti \<Rightarrow> APIServerResp RespNoti panics"

record 'c ServiceStatic =
  SERVICE_NAME :: rstr
  serve :: "'c serve_fun"

text \<open>The generated \<open>__handle_\<close> function of a method.\<close>

definition handle_method ::
  "('c, 'a) Codec \<Rightarrow> ('c, 'p) Codec \<Rightarrow> ('c, 'e) RpcErrCodec \<Rightarrow> ('a \<Rightarrow> ('p, 'e RpcError) result) \<Rightarrow> 'c serve_fun" where
  "handle_method A P E user_method codec req noti = (case as_req req of
     None \<Rightarrow> Panic
   | Some buf \<Rightarrow> (case codec_decode A codec buf of
        Err _ \<Rightarrow> Returns (api_set_rpc_error Decode req noti)
      | Ok arg \<Rightarrow> (case user_method arg of
           Ok resp \<Rightarrow> Returns (api_set_result P codec resp req noti)
         | Err e \<Rightarrow> Returns (api_set_error E codec e req noti))))"

text \<open>The generated \<open>serve\<close>: the arms of the \<open>match\<close> on the method name, in order.\<close>

fun service_serve :: "(rstr \<times> 'c serve_fun) list \<Rightarrow> 'c serve_fun" where
  "service_serve [] codec req noti = Returns (api_set_rpc_error Method req noti)"
| "service_serve ((name, handle) # arms) codec req noti =
    (if as_method req = name then handle codec req noti else service_serve arms codec req noti)"

definition service_expand :: "rstr \<Rightarrow> (rstr \<times> 'c serve_fun) list \<Rightarrow> 'c ServiceStatic" where
  "service_expand name arms = \<lparr>SERVICE_NAME = name, serve = service_serve arms\<rparr>"

text \<open>The \<open>match\<close> generated for a struct of services, one arm per field.\<close>

fun mux_struct_serve :: "'c ServiceStatic list \<Rightarrow> 'c serve_fun" where
  "mux_struct_serve [] codec req noti = Returns (api_set_rpc_error Service req noti)"
| "mux_struct_serve (s # svcs) codec req noti =
    (if as_service req = SERVICE_NAME s then serve s codec req noti else mux_struct_serve svcs codec req noti)"

definition service_mux_struct :: "'c ServiceStatic list \<Rightarrow> 'c ServiceStatic" where
  "service_mux_struct svcs = \<lparr>SERVICE_NAME = [], serve = mux_struct_serve svcs\<rparr>"

text \<open>\<open>ServiceMuxDyn\<close>: a hash map from names to services.\<close>

type_synonym 'c ServiceMuxDyn = "rstr \<rightharpoonup> 'c ServiceStatic"

definition mux_new :: "'c ServiceMuxDyn" where
  "mux_new = Map.empty"

definition mux_add :: "'c ServiceStatic \<Rightarrow> 'c ServiceMuxDyn \<Rightarrow> 'c ServiceMuxDyn" where
  "mux_add service m = m(SERVICE_NAME service \<mapsto> service)"

definition mux_dyn_serve :: "'c ServiceMuxDyn \<Rightarrow> 'c serve_fun" where
  "mux_dyn_serve m codec req noti = (case m (as_service req) of
     Some service \<Rightarrow> serve service codec req noti
   | None \<Rightarrow> Returns (api_set_rpc_error Service req noti))"

definition mux_dyn :: "'c ServiceMuxDyn \<Rightarrow> 'c ServiceStatic" where
  "mux_dyn m = \<lparr>SERVICE_NAME = [], serve = mux_dyn_serve m\<rparr>"

section \<open>Dispatch\<close>

fun split_once :: "u8 \<Rightarrow> bytes \<Rightarrow> (bytes \<times> bytes) option" where
  "split_once d [] = None"
| "split_once d (x # xs) = (if x = d then Some ([], xs)
     else (case split_once d xs of None \<Rightarrow> None | Some (a, b) \<Rightarrow> Some (x # a, b)))"

definition dot :: u8 where "dot = 0x2E"

text \<open>\<open>Inline::dispatch\<close>, and \<open>APIDispatch::dispatch_req\<close> over a dispatcher.\<close>

definition inline_dispatch_fn ::
  "'c ServiceStatic \<Rightarrow> 'c \<Rightarrow> APIServerReq \<Rightarrow> APIServerResp RespNoti
   \<Rightarrow> (APIServerResp RespNoti \<times> 'j list \<times> (unit, unit) result) panics" where
  "inline_dispatch_fn S codec req noti = (case serve S codec req noti of
     Panic \<Rightarrow> Panic | Returns noti' \<Rightarrow> Returns (noti', [], Ok ()))"

definition api_dispatch_req ::
  "('c \<Rightarrow> APIServerReq \<Rightarrow> APIServerResp RespNoti \<Rightarrow> (APIServerResp RespNoti \<times> 'j list \<times> (unit, unit) result) panics)
   \<Rightarrow> 'c \<Rightarrow> RpcSvrReq \<Rightarrow> APIServerResp RespNoti
   \<Rightarrow> (APIServerResp RespNoti \<times> 'j list \<times> (unit, unit) result) panics" where
  "api_dispatch_req dispatch codec req noti = (case req_action req of
     Str action \<Rightarrow> (case split_once dot action of
        Some (service, method) \<Rightarrow>
          dispatch codec \<lparr>as_seq = req_seq req, as_service = service, as_method = method,
            as_req = Some (req_msg req)\<rparr> noti
      | None \<Rightarrow> Returns (noti, [], Err ()))
   | Num _ \<Rightarrow> Returns (noti, [], Err ()))"

definition api_dispatch :: "'c ServiceStatic \<Rightarrow> ('c, APIServerResp, unit) Dispatch" where
  "api_dispatch S = \<lparr>dispatch_req = api_dispatch_req (inline_dispatch_fn S)\<rparr>"

section \<open>The contract of a service\<close>

definition api_ready :: "APIServerResp \<Rightarrow> bool" where
  "api_ready t \<longleftrightarrow> ar_res t \<noteq> None"

definition api_answer :: "'c \<Rightarrow> APIServerResp \<Rightarrow> (bytes \<times> bytes option, EncodedErr) result" where
  "api_answer c t = (case ar_res t of Some (Err e) \<Rightarrow> Err e | _ \<Rightarrow> Ok (opt_bytes (ar_msg t), None))"

interpretation api_resp: server_task_laws api_resp_task api_ready ar_seq api_answer
  by unfold_locales
     (auto simp: api_resp_task_def api_encode_resp_def api_ready_def api_answer_def opt_bytes_def
        split: option.splits result.splits)

text \<open>A service never panics on a request from the wire and gives it exactly one answer.\<close>

locale serves_once =
  fixes h :: "'c serve_fun"
  assumes one_response: "as_req req = Some buf \<Longrightarrow>
    \<exists>resp. h codec req noti = Returns (noti_done resp noti) \<and> ar_seq resp = as_seq req \<and> api_ready resp"

text \<open>What the three ways to answer put into the channel.\<close>

lemmas api_answer_defs = api_set_result_def api_set_rpc_error_def api_set_error_def api_ready_def Let_def

interpretation handler: serves_once "handle_method A P E f" for A P E f
  by unfold_locales
     (auto simp: handle_method_def api_answer_defs split: result.splits intro: exI [of _ "\<lparr>ar_seq = _, ar_msg = _, ar_res = Some _\<rparr>"])

lemma service_serve_once:
  assumes "\<forall>(name, h) \<in> set arms. serves_once h"
  shows "serves_once (service_serve arms)"
proof
  fix req :: APIServerReq and buf codec noti
  assume "as_req req = Some buf"
  then show "\<exists>resp. service_serve arms codec req noti = Returns (noti_done resp noti)
      \<and> ar_seq resp = as_seq req \<and> api_ready resp"
    using assms
  proof (induction arms)
    case Nil
    then show ?case by (auto simp: api_answer_defs)
  next
    case (Cons a arms)
    obtain name h where "a = (name, h)" by fastforce
    then show ?case using Cons serves_once.one_response [of h req buf codec noti] by auto
  qed
qed

lemma mux_struct_once:
  assumes "\<forall>s \<in> set svcs. serves_once (serve s)"
  shows "serves_once (mux_struct_serve svcs)"
proof
  fix req :: APIServerReq and buf codec noti
  assume "as_req req = Some buf"
  then show "\<exists>resp. mux_struct_serve svcs codec req noti = Returns (noti_done resp noti)
      \<and> ar_seq resp = as_seq req \<and> api_ready resp"
    using assms
  proof (induction svcs)
    case Nil
    then show ?case by (auto simp: api_answer_defs)
  next
    case (Cons s svcs)
    then show ?case using serves_once.one_response [of "serve s" req buf codec noti] by auto
  qed
qed

text \<open>Every service generated by the macros, and every mux of such, keeps the contract.\<close>

lemma service_expand_once:
  "\<forall>(name, h) \<in> set arms. serves_once h \<Longrightarrow> serves_once (serve (service_expand name arms))"
  by (simp add: service_expand_def service_serve_once)

lemma mux_dyn_once:
  assumes "\<forall>s \<in> ran m. serves_once (serve s)"
  shows "serves_once (serve (mux_dyn m))"
proof
  fix req :: APIServerReq and buf codec noti
  assume r: "as_req req = Some buf"
  show "\<exists>resp. serve (mux_dyn m) codec req noti = Returns (noti_done resp noti)
      \<and> ar_seq resp = as_seq req \<and> api_ready resp"
  proof (cases "m (as_service req)")
    case None
    then show ?thesis by (auto simp: mux_dyn_def mux_dyn_serve_def api_answer_defs)
  next
    case (Some s)
    then have "serves_once (serve s)" using assms by (auto intro: ranI)
    from serves_once.one_response [OF this r] Some show ?thesis by (simp add: mux_dyn_def mux_dyn_serve_def)
  qed
qed

text \<open>A service that answers once makes an inline dispatcher of the connection.\<close>

lemma api_inline_dispatch:
  assumes "serves_once (serve S)"
  shows "inline_dispatch (api_dispatch S) (\<lambda>_ _. False) ar_seq (\<lambda>_. 0)"
proof
  fix codec req q q' js r
  assume d: "dispatch_req (api_dispatch S) codec req q = Returns (q', js, r)"
  have s: "\<exists>resp. serve S codec a q = Returns (enqueue [Ok resp] q) \<and> ar_seq resp = as_seq a"
    if "as_req a = Some buf" for a buf
    using serves_once.one_response [OF assms that, of codec q] by (auto simp: noti_done_enqueue)
  have c: "(q' = q \<and> js = [] \<and> r = Err ()) \<or> (\<exists>resp. q' = enqueue [Ok resp] q \<and> js = [] \<and> r = Ok () \<and> ar_seq resp = req_seq req)"
  proof (cases "\<exists>action a b. req_action req = Str action \<and> split_once dot action = Some (a, b)")
    case True
    then obtain action a b where a: "req_action req = Str action" "split_once dot action = Some (a, b)" by blast
    let ?a = "\<lparr>as_seq = req_seq req, as_service = a, as_method = b, as_req = Some (req_msg req)\<rparr>"
    obtain resp where "serve S codec ?a q = Returns (enqueue [Ok resp] q)" "ar_seq resp = req_seq req"
      using s [of ?a "req_msg req"] by auto
    then show ?thesis using d a by (auto simp: api_dispatch_def api_dispatch_req_def inline_dispatch_fn_def)
  next
    case False
    then show ?thesis using d by (auto simp: api_dispatch_def api_dispatch_req_def split: RpcAction.splits option.splits)
  qed
  then show "\<exists>items. q' = enqueue items q
      \<and> map (item_seq ar_seq) items @ map (\<lambda>_. 0) js = (if is_Ok r then [req_seq req] else [])"
  proof
    assume "q' = q \<and> js = [] \<and> r = Err ()"
    then show ?thesis by (intro exI [of _ "[]"]) (simp add: enqueue_def)
  next
    assume "\<exists>resp. q' = enqueue [Ok resp] q \<and> js = [] \<and> r = Ok () \<and> ar_seq resp = req_seq req"
    then obtain resp where "q' = enqueue [Ok resp] q" "js = []" "r = Ok ()" "ar_seq resp = req_seq req" by blast
    then show ?thesis by (intro exI [of _ "[Ok resp]"]) simp
  qed
  show "js = []" using c by auto
qed simp

interpretation method_service: inline_dispatch
  "api_dispatch (service_expand name [(m, handle_method A P E f)])" "\<lambda>_ _. False" ar_seq "\<lambda>_. 0"
  for name m A P E f
  by (intro api_inline_dispatch service_expand_once) (simp add: handler.serves_once_axioms)

section \<open>Routing\<close>

lemma split_once_append [simp]: "d \<notin> set a \<Longrightarrow> split_once d (a @ d # b) = Some (a, b)"
  by (induction a) auto

lemma split_once_None: "split_once d s = None \<longleftrightarrow> d \<notin> set s"
  by (induction s) (auto split: option.splits)

lemma split_once_notin [simp]: "d \<notin> set s \<Longrightarrow> split_once d s = None"
  by (simp add: split_once_None)

lemma service_serve_map_of:
  "service_serve arms codec req noti = (case map_of arms (as_method req) of
     Some h \<Rightarrow> h codec req noti | None \<Rightarrow> Returns (api_set_rpc_error Method req noti))"
  by (induction arms) auto

text \<open>
  C23: a request reaches the method it names. The action \<open>Service.method\<close> is split at its
  first dot and answered by that method of that service; an unknown service or method is
  answered with its own internal error; an action without a dot, or a numeric one, is
  refused, which the connection answers with \<open>Decode\<close>.
\<close>

theorem api_routes_to_method:
  assumes "dot \<notin> set service" and "m = (\<lambda>s. map_option (service_expand s) (table s))"
    and "areq = \<lparr>as_seq = seq, as_service = service, as_method = method, as_req = Some msg\<rparr>"
  shows "dispatch_req (api_dispatch (mux_dyn m)) codec
        \<lparr>req_seq = seq, req_action = Str (service @ dot # method), req_msg = msg, req_blob = blob\<rparr> noti
      = (case table service of
           None \<Rightarrow> Returns (api_set_rpc_error Service areq noti, [], Ok ())
         | Some arms \<Rightarrow> (case map_of arms method of
             None \<Rightarrow> Returns (api_set_rpc_error Method areq noti, [], Ok ())
           | Some h \<Rightarrow> (case h codec areq noti of Panic \<Rightarrow> Panic | Returns q \<Rightarrow> Returns (q, [], Ok ()))))
    \<and> (\<forall>a. (\<forall>s. a = Str s \<longrightarrow> dot \<notin> set s) \<longrightarrow> dispatch_req (api_dispatch S) codec
        \<lparr>req_seq = seq, req_action = a, req_msg = msg, req_blob = blob\<rparr> noti = Returns (noti, [], Err ()))"
  using assms
  by (auto simp: api_dispatch_def api_dispatch_req_def inline_dispatch_fn_def mux_dyn_def mux_dyn_serve_def
      service_expand_def service_serve_map_of split: option.splits panics.splits RpcAction.splits)


section \<open>Witnesses\<close>

definition demo_table :: "rstr \<rightharpoonup> (rstr \<times> unit serve_fun) list" where
  "demo_table = [lit ''Echo'' \<mapsto> [(lit ''run'', handle_method raw_codec raw_codec unit_err Ok)]]"

theorem api_routes_to_method_witness:
  "dispatch_req (api_dispatch (mux_dyn (\<lambda>s. map_option (service_expand s) (demo_table s)))) ()
      \<lparr>req_seq = 3, req_action = Str (lit ''Echo.run''), req_msg = [5], req_blob = None\<rparr> \<lparr>noti_queue = [], noti_rx_alive = True\<rparr>
    = Returns (\<lparr>noti_queue = [Ok \<lparr>ar_seq = 3, ar_msg = Some [5], ar_res = Some (Ok ())\<rparr>], noti_rx_alive = True\<rparr>, [], Ok ())"
proof -
  have d: "dot \<notin> set (lit ''Echo'')" by (simp add: dot_def lit_def)
  have n: "lit ''Echo.run'' = lit ''Echo'' @ dot # lit ''run''" by (simp add: dot_def lit_def)
  show ?thesis unfolding n
    using conjunct1 [OF api_routes_to_method [OF d refl refl, of demo_table "()" 3 "lit ''run''" "[5]" None]]
    by (simp add: demo_table_def handle_method_def raw_codec_def api_set_result_def noti_done_enqueue enqueue_def)
qed


end
