(* ===== verification/Remote_Call.thy ===== *)
theory Remote_Call
  imports Api_Client Api_Server
begin

text \<open>
  The way of a call through both sides: what the result of a method is on the wire, that the
  server's connection turns the bytes of a request into the frame of that answer, and that the
  client turns the frame back into the method's result. The property itself is in
  \<open>Spec2Isabelle\<close>.
\<close>

section \<open>What a method's result is on the wire\<close>

definition method_answer ::
  "('c, 'p) Codec \<Rightarrow> ('c, 'e) RpcErrCodec \<Rightarrow> 'c \<Rightarrow> ('p, 'e RpcError) result \<Rightarrow> (bytes \<times> bytes option, EncodedErr) result" where
  "method_answer P E codec r = (case r of
     Ok p \<Rightarrow> (case codec_encode P codec p of Ok b \<Rightarrow> Ok (b, None) | Err _ \<Rightarrow> Err (ERpc Encode))
   | Err (Rpc i) \<Rightarrow> Err (ERpc i)
   | Err (User e) \<Rightarrow> Err (err_encode E codec e))"

text \<open>
  The results that survive the way back: a response that its codec can carry (one that is
  encoded as no bytes comes back as the default value), any internal error, and a user error
  that its error codec can carry; all within the sizes of a frame.
\<close>

definition returnable ::
  "('c, 'p) Codec \<Rightarrow> ('p \<Rightarrow> bool) \<Rightarrow> ('c, 'e) RpcErrCodec \<Rightarrow> ('e \<Rightarrow> bool) \<Rightarrow> 'p \<Rightarrow> 'c \<Rightarrow> ('p, 'e RpcError) result \<Rightarrow> bool" where
  "returnable P valid_p E valid_e dflt codec r \<longleftrightarrow> sendable (method_answer P E codec r)
     \<and> (case r of Ok p \<Rightarrow> valid_p p \<and> (codec_encode P codec p = Ok [] \<longrightarrow> p = dflt)
        | Err (Rpc i) \<Rightarrow> True | Err (User e) \<Rightarrow> valid_e e)"

lemma sendable_fits: "sendable ans \<Longrightarrow> answer_fits ans"
  by (cases ans rule: answer_fits.cases) simp_all

lemma codec_okD:
  assumes "codec_ok C valid" "valid m"
  obtains b where "codec_encode C c m = Ok b" "codec_decode C c b = Ok m"
  using assms unfolding codec_ok_def by blast

lemma method_answers:
  assumes "codec_decode A codec buf = Ok a" "as_req req = Some buf"
  obtains resp where "\<And>noti. handle_method A P E f codec req noti = Returns (noti_done resp noti)"
    "ar_seq resp = as_seq req" "api_ready resp" "api_answer codec resp = method_answer P E codec (f a)"
proof -
  let ?resp = "\<lambda>msg res. \<lparr>ar_seq = as_seq req, ar_msg = msg, ar_res = Some res\<rparr>"
  have h: "\<And>noti. handle_method A P E f codec req noti = Returns (noti_done (case method_answer P E codec (f a) of
      Ok (b, _) \<Rightarrow> ?resp (Some b) (Ok ()) | Err e \<Rightarrow> ?resp None (Err e)) noti)"
    using assms by (auto simp: handle_method_def method_answer_def api_answer_defs split: result.splits RpcError.splits)
  have blob: "blob = None" if "method_answer P E codec (f a) = Ok (b, blob)" for b blob
    using that by (auto simp: method_answer_def split: result.splits RpcError.splits)
  show thesis
    by (rule that [OF h]) (auto simp: api_ready_def api_answer_def opt_bytes_def dest: blob split: result.splits)
qed

lemma delivered_result:
  assumes "codec_ok P valid_p" "rpc_err_codec E valid_e" "returnable P valid_p E valid_e dflt codec r" "ac_resp t = None"
  shows "\<exists>t'. process_res P E dflt codec (fact_task (deliver api_client_task codec (method_answer P E codec r) t)) = Returns (t', r)"
proof (cases r)
  case (Ok p)
  obtain b where "codec_encode P codec p = Ok b" "codec_decode P codec b = Ok p"
    using codec_okD [OF assms(1)] assms(3) Ok by (auto simp: returnable_def)
  then show ?thesis using assms(3,4) Ok
    by (auto simp: returnable_def method_answer_def deliver_def deliver_msg_def opt_bytes_def ac_defs process_res_def)
next
  case (Err err)
  show ?thesis
  proof (cases err)
    case (Rpc i)
    then show ?thesis using Err by (simp add: method_answer_def deliver_def deliver_err_def ac_defs process_res_def)
  next
    case (User e)
    have "valid_e e" using assms(3) Err User by (simp add: returnable_def)
    from rpc_err_codec.received_num_or_buf [OF assms(2) this, of codec] show ?thesis using Err User
      by (auto simp: method_answer_def deliver_def deliver_err_def ac_defs process_res_def)
  qed
qed

section \<open>A remote call\<close>

lemma api_task_frame:
  assumes "length room = RPC_REQ_HEADER_LEN" "ac_req_msg t = Some msg" "length msg \<le> u32_max"
  shows "req_encode api_client_task codec room cid t
    = Returns (req_frame cid (common_seq (ac_common t)) (Str (ac_action t)) msg None, Ok None)"
  using req_encode_Ok [of room api_client_task codec t msg cid] assms by (simp add: ac_defs opt_bytes_def)

lemma api_call_frame:
  fixes codec :: 'c
  assumes "codec_ok A valid" "valid a" "api_req_new A codec name a = Returns t0"
    "t = set_seq (api_client_task :: ('c, APIClientReq) ClientTask) seq (api_set_noti t0)" "length (the (ac_req_msg t0)) \<le> u32_max" "length room = 32"
  obtains msg where "codec_decode A codec msg = Ok a" "length msg \<le> u32_max" "ac_resp t = None"
    "req_encode api_client_task codec room cid t = Returns (req_frame cid seq (Str name) msg None, Ok None)"
proof -
  obtain msg where msg: "codec_encode A codec a = Ok msg" "codec_decode A codec msg = Ok a"
    by (rule codec_okD [OF assms(1,2)])
  have t0: "ac_req_msg t0 = Some msg" "ac_action t0 = name" "ac_resp t0 = None"
    using assms(3) msg(1) by (auto simp: api_req_new_def)
  have t: "ac_req_msg t = Some msg" "ac_action t = name" "ac_resp t = None" "common_seq (ac_common t) = seq"
    using t0 assms(4) by (simp_all add: api_set_noti_def ac_defs)
  show thesis
    using that [of msg] msg(2) t t0 assms(5,6) api_task_frame [of room t msg codec cid] by (simp add: RPC_REQ_HEADER_LEN_def)
qed

lemma api_reserves: "reserves_exactly api_client_task"
  by (simp add: reserves_exactly_def ac_defs)

lemma api_call_handled:
  assumes "codec_decode A codec msg = Ok a" "dot \<notin> set service" "table service = Some arms"
    "map_of arms method = Some (handle_method A P E f)"
  obtains resp where "\<And>q. dispatch_req (api_dispatch (mux_dyn (\<lambda>s. map_option (service_expand s) (table s)))) codec
      \<lparr>req_seq = seq, req_action = Str (service @ dot # method), req_msg = msg, req_blob = blob\<rparr> q
      = Returns (noti_done resp q, [], Ok ())"
    "ar_seq resp = seq" "api_ready resp" "api_answer codec resp = method_answer P E codec (f a)"
proof -
  let ?req = "\<lparr>as_seq = seq, as_service = service, as_method = method, as_req = Some msg\<rparr>"
  obtain resp where "\<And>q. handle_method A P E f codec ?req q = Returns (noti_done resp q)"
    "ar_seq resp = as_seq ?req" "api_ready resp" "api_answer codec resp = method_answer P E codec (f a)"
    by (rule method_answers [OF assms(1), of ?req P E f]) auto
  then show thesis using assms(2-4)
    by (intro that [of resp]) (simp_all add: api_dispatch_def api_dispatch_req_def
        inline_dispatch_fn_def mux_dyn_def mux_dyn_serve_def service_expand_def service_serve_map_of)
qed

definition conn_idle :: "('n, 'r, 'j) SvrConn \<Rightarrow> bool" where
  "conn_idle c \<longleftrightarrow> sc_noti c = \<lparr>noti_queue = [], noti_rx_alive = True\<rparr> \<and> sc_writer c = W_Recv"

text \<open>
  One request on an idle connection: when the dispatcher answers it at once, the reader takes it
  off the wire and the writer puts the frame of the answer on it.
\<close>

lemma conn_turns:
  assumes laws: "server_task_laws S ready seq_of answer"
    and io: "byte_stream io arrived" "byte_sink io written" and idle: "conn_idle c"
    and arr: "arrived (sv_stream (sc_conn c)) = req_frame cid seq action msg blob @ rest"
    and fits: "action_ok action" "length msg \<le> u32_max" "length (opt_bytes blob) \<le> i32_max"
      "\<not> (action = Num 0 \<and> msg = [])"
    and served: "\<And>q. dispatch_req D codec \<lparr>req_seq = seq, req_action = action, req_msg = msg,
        req_blob = if opt_bytes blob = [] then None else blob\<rparr> q = Returns (noti_done resp q, [], Ok ())"
    and ans: "ready resp" "seq_of resp = seq" "answer codec resp = ans" "answer_fits ans"
  shows "\<exists>c1 c2 req. reader_turn (tcp_server_transport S io) D codec cancel c = Returns (c1, [req])
    \<and> arrived (sv_stream (sc_conn c1)) = rest
    \<and> writer_turn (tcp_server_transport S io) codec c1 = Returns (c2, [Ok resp])
    \<and> written (sv_stream (sc_conn c2)) = written (sv_stream (sc_conn c1)) @ answer_frame seq ans"
proof -
  let ?req = "\<lparr>req_seq = seq, req_action = action, req_msg = msg, req_blob = if opt_bytes blob = [] then None else blob\<rparr>"
  obtain n where n: "read_req io cancel (sc_conn c) = Returns (n, Ready (Ok ?req))" "arrived (sv_stream n) = rest"
    using read_req_frame [OF io(1) fits(1-3) arr, of cancel] by blast
  let ?c1 = "c\<lparr>sc_conn := n, sc_noti := \<lparr>noti_queue = [Ok resp], noti_rx_alive = True\<rparr>\<rparr>"
  have "\<not> is_ping ?req" using fits(4) by (simp add: is_ping_def)
  then have "handle_req D codec ?req (c\<lparr>sc_conn := n\<rparr>) = Returns ?c1"
    using served [of "sc_noti c"] idle unfolding handle_req_def
    by (simp add: conn_idle_def noti_done_enqueue enqueue_def)
  then have c1: "reader_turn (tcp_server_transport S io) D codec cancel c = Returns (?c1, [?req])"
    using n(1) by (simp add: reader_turn_def tcp_server_transport_def)
  obtain n2 where n2: "process (tcp_server_transport S io) codec (Ok resp) n = Returns (n2, Ok ())"
      "written (sv_stream n2) = written (sv_stream n) @ answer_frame seq ans"
    using process_sink [OF laws io(2), of codec "Ok resp" n] ans by (auto simp: item_ready_def)
  have "writer_turn (tcp_server_transport S io) codec ?c1
      = Returns (?c1\<lparr>sc_conn := n2, sc_noti := \<lparr>noti_queue = [], noti_rx_alive = True\<rparr>, sc_writer := W_Drain\<rparr>, [Ok resp])"
    using n2(1) idle by (simp add: writer_turn_def writer_process_def conn_idle_def)
  then show ?thesis using c1 n n2(2) by (intro exI conjI) (assumption | simp)+
qed

lemma server_turns:
  assumes io: "byte_stream io arrived" "byte_sink io written" and idle: "conn_idle c"
    and arr: "arrived (sv_stream (sc_conn c)) = req_frame cid seq (Str (service @ dot # method)) msg None @ rest"
    and fits: "action_ok (Str (service @ dot # method))" "length msg \<le> u32_max"
    and served: "codec_decode A codec msg = Ok a" "dot \<notin> set service" "table service = Some arms"
      "map_of arms method = Some (handle_method A P E f)"
    and ans: "answer_fits (method_answer P E codec (f a))"
  shows "\<exists>c1 c2 req resp. reader_turn (tcp_server_transport api_resp_task io)
        (api_dispatch (mux_dyn (\<lambda>s. map_option (service_expand s) (table s)))) codec cancel c = Returns (c1, [req])
    \<and> arrived (sv_stream (sc_conn c1)) = rest
    \<and> writer_turn (tcp_server_transport api_resp_task io) codec c1 = Returns (c2, [Ok resp])
    \<and> written (sv_stream (sc_conn c2)) = written (sv_stream (sc_conn c1))
        @ answer_frame seq (method_answer P E codec (f a))"
proof -
  obtain resp where r: "\<And>q. dispatch_req (api_dispatch (mux_dyn (\<lambda>s. map_option (service_expand s) (table s)))) codec
      \<lparr>req_seq = seq, req_action = Str (service @ dot # method), req_msg = msg, req_blob = None\<rparr> q
      = Returns (noti_done resp q, [], Ok ())"
      "api_ready resp" "ar_seq resp = seq" "api_answer codec resp = method_answer P E codec (f a)"
    by (rule api_call_handled [where table = table and seq = seq and blob = None, OF served]) auto
  show ?thesis
    using conn_turns [where D = "api_dispatch (mux_dyn (\<lambda>s. map_option (service_expand s) (table s)))" and blob = None
        and cancel = cancel, OF api_resp.server_task_laws_axioms io idle arr fits _ _ _ r(2,3,4) ans] r(1)
    by (force simp: opt_bytes_def)
qed

end
