(* ===== verification/Client_Facts.thy ===== *)
theory Client_Facts
  imports Api_Client Client_Stream
begin

text \<open>
  The customisable parts of a client, \<open>ClientFacts\<close> of \<open>src/stream/src/client/mod.rs\<close>, with the
  trait's default methods and its three implementations: \<open>ClientDefault\<close> (same file), \<open>APIFact\<close>
  (\<open>src/src/client/mod.rs\<close>) and \<open>FailoverFacts\<close> (\<open>src/stream/src/client/failover.rs\<close>), which
  wraps the user's facts. The method \<open>error_handle\<close> is with its callers: the default in
  \<open>Rpc_Task\<close>, that of the failover pool in \<open>Failover\<close>. Loggers are not modelled.
\<close>

section \<open>The facts\<close>

text \<open>The clock is given in nanoseconds since the Unix epoch.\<close>

record ClientFacts =
  get_config :: ClientConfig
  get_client_id :: u64
  get_timestamp :: "int \<Rightarrow> u64 panics"

definition default_client_id :: u64 where
  "default_client_id = 0"

definition default_timestamp :: "int \<Rightarrow> u64 panics" where
  "default_timestamp now = (if now < 0 then Panic else Returns (word_of_int (now div 1000000000)))"

definition default_error_handle :: "'t \<Rightarrow> 't fact" where
  "default_error_handle t = Task_Done t"

definition ClientDefault_new :: "ClientConfig \<Rightarrow> ClientFacts" where
  "ClientDefault_new config = \<lparr>get_config = config, get_client_id = default_client_id, get_timestamp = default_timestamp\<rparr>"

definition APIFact_new :: "ClientConfig \<Rightarrow> ClientFacts" where
  "APIFact_new config = \<lparr>get_config = config, get_client_id = default_client_id, get_timestamp = default_timestamp\<rparr>"

text \<open>\<open>FailoverFacts\<close> forwards the configuration only.\<close>

definition FailoverFacts :: "ClientFacts \<Rightarrow> ClientFacts" where
  "FailoverFacts facts = \<lparr>get_config = get_config facts, get_client_id = default_client_id, get_timestamp = default_timestamp\<rparr>"

section \<open>Connections and pools\<close>

definition facts_connect ::
  "(rstr \<Rightarrow> ClientConfig \<Rightarrow> ('n, RpcIntErr) result) \<Rightarrow> ClientFacts \<Rightarrow> rstr \<Rightarrow> u64 option
   \<Rightarrow> (('t, 'n) ClientStream, RpcIntErr) result" where
  "facts_connect tp_connect facts addr ts = stream_connect tp_connect (get_config facts) (get_client_id facts) addr ts"

definition pool_connect ::
  "(rstr \<Rightarrow> ClientConfig \<Rightarrow> ('n, RpcIntErr) result) \<Rightarrow> ClientFacts \<Rightarrow> rstr \<Rightarrow> (('t, 'n) ClientStream, RpcIntErr) result" where
  "pool_connect tp_connect facts addr = facts_connect tp_connect facts addr None"

text \<open>The connections of a failover pool are made by connection pools over \<open>FailoverFacts\<close>.\<close>

definition failover_connect ::
  "(rstr \<Rightarrow> ClientConfig \<Rightarrow> ('n, RpcIntErr) result) \<Rightarrow> ClientFacts \<Rightarrow> rstr
   \<Rightarrow> (('t FailoverTask, 'n) ClientStream, RpcIntErr) result" where
  "failover_connect tp_connect facts addr = pool_connect tp_connect (FailoverFacts facts) addr"

definition new_conn_pool :: "ClientFacts \<Rightarrow> APIClientReq ConnPool" where
  "new_conn_pool facts = pool_new (cfg_thresholds (get_config facts)) 0"

definition new_failover :: "ClientFacts \<Rightarrow> rstr list \<Rightarrow> bool \<Rightarrow> nat \<Rightarrow> APIClientReq FailoverPool" where
  "new_failover facts addrs stateless retry_limit
    = fo_new (cfg_thresholds (get_config facts)) addrs stateless retry_limit 0"

text \<open>The pools of the API always have room for a connection's worth of tasks.\<close>

lemma api_pools_have_room:
  "chan_cap (new_conn_pool facts) = effective_threshold (get_config facts)"
  "\<forall>p \<in> set (fo_store (new_failover facts addrs stateless retry_limit)).
     chan_cap p = effective_threshold (get_config facts)"
  by (simp_all add: new_conn_pool_def new_failover_def fo_new_def pool_new_def pool_spawn_def channel_size_of_def
      effective_threshold_def)

section \<open>The client's id on the wire\<close>

definition frame_client_id :: "bytes \<Rightarrow> u64 option" where
  "frame_client_id b = map_option rq_client_id (req_head_from_bytes (take RPC_REQ_HEADER_LEN b))"

lemma req_frame_client_id: "frame_client_id (req_frame cid seq action msg blob) = Some cid"
  by (simp add: frame_client_id_def req_frame_def req_head_def)

lemma encoded_client_id:
  assumes "client_task_laws T" "length room = RPC_REQ_HEADER_LEN" "req_encode T c room cid t = Returns (buf, Ok blob)"
  shows "frame_client_id buf = Some cid"
proof -
  obtain b n where e: "encode_req T c t (room @ action_text (get_action T t)) = (b, Ok n)" "n \<le> u32_max"
      "length (opt_bytes (get_req_blob T t)) \<le> i32_max" "blob = get_req_blob T t"
    using assms(3) by (auto simp: req_encode_eq split: prod.splits result.splits if_splits panics.splits)
  obtain msg where m: "b = room @ action_text (get_action T t) @ msg" "length msg = n"
    by (rule encode_req_appends [OF assms(1) e(1)])
  obtain buf' where b: "req_encode T c room cid t = Returns (buf', Ok (get_req_blob T t))"
      "buf' @ opt_bytes (get_req_blob T t)
        = req_frame cid (task_seq T t) (get_action T t) msg (get_req_blob T t)"
    using req_encode_Ok [OF assms(2), of T c t msg cid] e m by auto
  then have "buf = buf'" using assms(3) by simp
  moreover have "RPC_REQ_HEADER_LEN \<le> length buf'"
    using arg_cong [OF b(2), of length] by (simp add: req_frame_def)
  ultimately have "take RPC_REQ_HEADER_LEN buf = take RPC_REQ_HEADER_LEN (req_frame cid (task_seq T t) (get_action T t) msg blob)"
    using b(2) e(4) by (metis append_eq_conv_conj take_append take_take min.absorb1 append_take_drop_id take_all_iff nle_le)
  then show ?thesis using req_frame_client_id [of cid "task_seq T t" "get_action T t" msg blob]
    by (simp add: frame_client_id_def)
qed

lemma stream_keeps_client_id:
  assumes "client_transport T P" "\<forall>l n. wg_ready l n \<longrightarrow> l \<le> n"
    "facts_connect tp_connect facts addr ts = Ok s0" "stream_run T P c wg_ready s0 ls s"
  shows "client_id s = get_client_id facts"
proof -
  obtain cn where s0: "s0 = stream_new (get_config facts) cn (get_client_id facts) ts"
    using assms(3) by (auto simp: facts_connect_def stream_connect_def split: result.splits)
  from client_transport.run_inflight [OF assms(1,4) [unfolded s0] stream_new_inv timeline_stream_new assms(2)]
  show ?thesis by (simp add: same_setup_def) (simp add: stream_new_def Let_def)
qed


section \<open>Witness\<close>

text \<open>Facts with the id 9, on a transport where writes succeed and no response arrives.\<close>

definition idle_transport :: "('c, 't, unit) ClientTransport" where
  "idle_transport = \<lparr>close_conn = \<lambda>n. n, tp_flush_req = \<lambda>n. (n, Ok ()),
     write_req = \<lambda>_ _ _ n. (n, Ok ()), read_resp = \<lambda>_ _ tm n. Returns (tm, n, [], Pending)\<rparr>"

lemma idle_transport_laws: "client_task_laws T \<Longrightarrow> client_transport T idle_transport"
  by (intro client_transport.intro client_transport_axioms.intro) (auto simp: idle_transport_def)

definition demo_facts :: ClientFacts where
  "demo_facts = (ClientDefault_new ClientConfig_default)\<lparr>get_client_id := 9\<rparr>"

definition demo_fo_task :: "(u64 \<times> RpcIntErr option) FailoverTask" where
  "demo_fo_task = \<lparr>last_index = 0, config_ver = 0, inner = (1, None), retry = 0, should_retry = False, max_retries = 0\<rparr>"


end
