(* ===== verification/Query_Cluster.thy ===== *)
theory Query_Cluster
  imports Remote_Call Client_Facts
begin

text \<open>
  The service of \<open>src/test-suite/src/api/basic/test_failover_redirect.rs\<close>, a cluster whose
  followers redirect a query to the leader, run end to end: the client's call goes through the
  failover pool, a node's dispatcher answers, and the answer comes back through the task that
  the pool wraps. The exchange with a node is the ideal one: the connection is up, and what the
  node answers is what the task is given; \<open>Remote_Call\<close> shows that of the bytes on the wire.
\<close>

section \<open>The error type\<close>

datatype ClusterErr = Redirect rstr | RetryNext | Cluster_Internal

definition cluster_err_encode :: "'c \<Rightarrow> ClusterErr \<Rightarrow> EncodedErr" where
  "cluster_err_encode codec e = (case e of
     Redirect addr \<Rightarrow> EBuf (lit ''redirect_'' @ addr)
   | RetryNext \<Rightarrow> EStatic (lit ''retry_next'')
   | Cluster_Internal \<Rightarrow> EStatic (lit ''internal''))"

definition cluster_err_decode :: "'c \<Rightarrow> (u32, bytes) result \<Rightarrow> (ClusterErr, unit) result" where
  "cluster_err_decode codec buf = (case buf of
     Err s \<Rightarrow>
       if starts_with (lit ''redirect_'') s then Ok (Redirect (drop 9 s))
       else if s = lit ''retry_next'' then Ok RetryNext
       else if s = lit ''internal'' then Ok Cluster_Internal
       else Err ()
   | Ok _ \<Rightarrow> Err ())"

definition cluster_should_failover :: "ClusterErr \<Rightarrow> (rstr option, unit) result" where
  "cluster_should_failover e = (case e of
     Redirect addr \<Rightarrow> Ok (Some addr) | RetryNext \<Rightarrow> Ok None | Cluster_Internal \<Rightarrow> Err ())"

definition cluster_err :: "('c, ClusterErr) RpcErrCodec" where
  "cluster_err = \<lparr>err_encode = cluster_err_encode, err_decode = cluster_err_decode,
     should_failover = cluster_should_failover\<rparr>"

lemmas cluster_err_defs = cluster_err_def cluster_err_encode_def cluster_err_decode_def cluster_should_failover_def

lemma not_prefixed: "\<not> starts_with RPC_ERR_PREFIX s \<Longrightarrow> from_str s = Err ()"
  by (metis as_ref_prefix from_str_OkD result.exhaust old.unit.exhaust)

lemma cluster_err_prefix:
  "\<not> starts_with RPC_ERR_PREFIX (lit ''redirect_'' @ addr)" "\<not> starts_with RPC_ERR_PREFIX (lit ''retry_next'')"
  "\<not> starts_with RPC_ERR_PREFIX (lit ''internal'')"
  "\<not> starts_with (lit ''redirect_'') (lit ''retry_next'')" "\<not> starts_with (lit ''redirect_'') (lit ''internal'')"
  "lit ''retry_next'' \<noteq> lit ''internal''" "lit ''internal'' \<noteq> lit ''retry_next''"
  "lit ''redirect_'' @ addr \<noteq> lit ''retry_next''" "lit ''redirect_'' @ addr \<noteq> lit ''internal''"
  "length (lit ''redirect_'') = 9"
  by (simp_all add: starts_with_def RPC_ERR_PREFIX_def lit_def)

text \<open>Every error of the cluster survives the wire, whatever address it redirects to.\<close>

interpretation cluster_err: rpc_err_codec cluster_err "\<lambda>_. True"
  by unfold_locales (auto simp: cluster_err_defs not_prefixed cluster_err_prefix split: ClusterErr.splits)

lemma cluster_failover [simp]:
  "should_failover cluster_err (Redirect addr) = Ok (Some addr)" "should_failover cluster_err RetryNext = Ok None"
  by (simp_all add: cluster_err_defs)

section \<open>The state of the cluster and the service\<close>

record ClusterState =
  leader_index :: nat
  addrs :: "rstr list"

definition cluster_new :: "rstr list \<Rightarrow> nat \<Rightarrow> ClusterState" where
  "cluster_new as i = \<lparr>leader_index = i, addrs = as\<rparr>"

definition get_leader_addr :: "ClusterState \<Rightarrow> rstr panics" where
  "get_leader_addr st = (if leader_index st < length (addrs st) then Returns (addrs st ! leader_index st) else Panic)"

definition is_leader :: "nat \<Rightarrow> ClusterState \<Rightarrow> bool" where
  "is_leader node_index st \<longleftrightarrow> leader_index st = node_index"

definition set_leader :: "nat \<Rightarrow> ClusterState \<Rightarrow> ClusterState" where
  "set_leader i st = st\<lparr>leader_index := i\<rparr>"

definition add_addr :: "rstr \<Rightarrow> ClusterState \<Rightarrow> ClusterState \<times> nat" where
  "add_addr addr st = (st\<lparr>addrs := addrs st @ [addr]\<rparr>, length (addrs st))"

record QueryResp = server_id :: nat

definition new_failover_client :: "ClientConfig \<Rightarrow> rstr list \<Rightarrow> APIClientReq FailoverPool" where
  "new_failover_client config as = new_failover (APIFact_new config) as False 3"

text \<open>A method of the service may panic, which the connection's dispatcher does then.\<close>

definition query :: "nat \<Rightarrow> ClusterState \<Rightarrow> (QueryResp, ClusterErr RpcError) result panics" where
  "query node_index st = (if \<not> is_leader node_index st
     then (case get_leader_addr st of Panic \<Rightarrow> Panic | Returns leader_addr \<Rightarrow> Returns (Err (User (Redirect leader_addr))))
     else Returns (Ok \<lparr>server_id = node_index\<rparr>))"

definition always_error_query :: "(unit, ClusterErr RpcError) result panics" where
  "always_error_query = Returns (Err (User RetryNext))"

definition handle_panicking ::
  "('c, 'a) Codec \<Rightarrow> ('c, 'p) Codec \<Rightarrow> ('c, 'e) RpcErrCodec \<Rightarrow> ('a \<Rightarrow> ('p, 'e RpcError) result panics) \<Rightarrow> 'c serve_fun" where
  "handle_panicking A P E user_method codec req noti = (case as_req req of
     None \<Rightarrow> Panic
   | Some buf \<Rightarrow> (case codec_decode A codec buf of
        Err _ \<Rightarrow> Returns (api_set_rpc_error Decode req noti)
      | Ok arg \<Rightarrow> (case user_method arg of
           Panic \<Rightarrow> Panic
         | Returns r \<Rightarrow> handle_method A P E (\<lambda>_. r) codec req noti)))"

definition QueryServiceImpl ::
  "('c, unit) Codec \<Rightarrow> ('c, QueryResp) Codec \<Rightarrow> nat \<Rightarrow> ClusterState \<Rightarrow> 'c ServiceStatic" where
  "QueryServiceImpl U P node_index st = service_expand (lit ''QueryService'')
     [(lit ''query'', handle_panicking U P cluster_err (\<lambda>_. query node_index st)),
      (lit ''always_error_query'', handle_panicking U U cluster_err (\<lambda>_. always_error_query))]"

section \<open>Exchanges with the nodes\<close>

text \<open>What a node answers to the request of a task, through the dispatcher of its server.\<close>

definition node_reply :: "'c ServiceStatic \<Rightarrow> 'c \<Rightarrow> APIClientReq \<Rightarrow> (bytes \<times> bytes option, EncodedErr) result option" where
  "node_reply S codec t =
    (case dispatch_req (api_dispatch S) codec
       \<lparr>req_seq = common_seq (ac_common t), req_action = Str (ac_action t), req_msg = opt_bytes (ac_req_msg t), req_blob = None\<rparr>
       \<lparr>noti_queue = [], noti_rx_alive = True\<rparr> of
       Returns (q, _, Ok _) \<Rightarrow> (case noti_queue q of [Ok resp] \<Rightarrow> Some (api_answer codec resp) | _ \<Rightarrow> None)
     | _ \<Rightarrow> None)"

text \<open>What the caller's channel gets of the tasks that the pool is done with.\<close>

definition channel_of :: "APIClientReq list \<Rightarrow> APIClientReq option" where
  "channel_of told = (case told of [] \<Rightarrow> None
   | u # _ \<Rightarrow> (case ac_done u of Panic \<Rightarrow> None | Returns u' \<Rightarrow> Some u'))"

text \<open>
  The task that was routed last is taken to the node at its pool's address, and the node's answer
  is delivered to it.
\<close>

definition pool_addr :: "nat \<Rightarrow> (rstr \<times> nat) list \<Rightarrow> rstr option" where
  "pool_addr h ps = map_option fst (List.find (\<lambda>p. snd p = h) ps)"

definition exchange ::
  "(rstr \<Rightarrow> 'c ServiceStatic option) \<Rightarrow> 'c \<Rightarrow> APIClientReq FailoverPool \<times> APIClientReq list
   \<Rightarrow> APIClientReq FailoverPool \<times> APIClientReq option" where
  "exchange nodes codec r = (case r of
     (fp, u # told) \<Rightarrow> (fp, channel_of (u # told))
   | (fp, []) \<Rightarrow>
       (if fo_sending fp = [] then (fp, None) else
         (let (h, ft) = last (fo_sending fp);
              fp1 = fp\<lparr>fo_sending := butlast (fo_sending fp)\<rparr>
          in case Option.bind (pool_addr h (fo_pools fp)) nodes of
               None \<Rightarrow> (fp1, None)
             | Some S \<Rightarrow> (case node_reply S codec (inner ft) of
                 None \<Rightarrow> (fp1, None)
               | Some ans \<Rightarrow>
                   (let (fp2, told) = fo_fact (deliver (failover_task api_client_task) codec ans ft) fp1
                    in (fp2, channel_of told))))))"

definition cluster_env :: "(rstr \<Rightarrow> 'c ServiceStatic option) \<Rightarrow> 'c \<Rightarrow> APIClientReq FailoverPool call_env" where
  "cluster_env nodes codec fp t route n = exchange nodes codec (case route of
     None \<Rightarrow> fo_send_req (api_client_task :: ('c, APIClientReq) ClientTask) t fp
   | Some r \<Rightarrow> resubmit (api_client_task :: ('c, APIClientReq) ClientTask) t r n None fp)"

definition query_nodes ::
  "('c, unit) Codec \<Rightarrow> ('c, QueryResp) Codec \<Rightarrow> ClusterState \<Rightarrow> rstr \<Rightarrow> 'c ServiceStatic option" where
  "query_nodes U P st addr = map_option (\<lambda>i. QueryServiceImpl U P i st)
     (List.find (\<lambda>i. addrs st ! i = addr) [0 ..< length (addrs st)])"

definition query_action :: rstr where "query_action = lit ''QueryService.query''"

definition always_error_action :: rstr where "always_error_action = lit ''QueryService.always_error_query''"

definition call_query ::
  "('c, unit) Codec \<Rightarrow> ('c, QueryResp) Codec \<Rightarrow> 'c \<Rightarrow> ClusterState \<Rightarrow> nat \<Rightarrow> APIClientReq FailoverPool
   \<Rightarrow> (APIClientReq FailoverPool \<times> (rstr, nat) result list \<times> (QueryResp, ClusterErr RpcError) result option) panics" where
  "call_query U P codec st fuel fp = failover_call U P cluster_err \<lparr>server_id = 0\<rparr> codec (get_retry_limit fp)
     (cluster_env (query_nodes U P st) codec) fuel fp query_action ()"

definition call_always_error ::
  "('c, unit) Codec \<Rightarrow> ('c, QueryResp) Codec \<Rightarrow> 'c \<Rightarrow> ClusterState \<Rightarrow> nat \<Rightarrow> APIClientReq FailoverPool
   \<Rightarrow> (APIClientReq FailoverPool \<times> (rstr, nat) result list \<times> (unit, ClusterErr RpcError) result option) panics" where
  "call_always_error U P codec st fuel fp = failover_call U U cluster_err () codec (get_retry_limit fp)
     (cluster_env (query_nodes U P st) codec) fuel fp always_error_action ()"

section \<open>A node answers\<close>

text \<open>A task on its way: it has its request and nothing else yet.\<close>

definition asking :: "rstr \<Rightarrow> bytes \<Rightarrow> APIClientReq \<Rightarrow> bool" where
  "asking action msg t \<longleftrightarrow> ac_action t = action \<and> ac_req_msg t = Some msg \<and> ac_noti t \<and> ac_resp t = None"

lemma handle_panicking_answers:
  assumes "codec_decode A codec buf = Ok a" "as_req req = Some buf" "f a = Returns r"
  obtains resp where "\<And>noti. handle_panicking A P E f codec req noti = Returns (noti_done resp noti)"
    "api_answer codec resp = method_answer P E codec r"
  by (rule method_answers [OF assms(1,2), of P E "\<lambda>_. r"]) (use assms in \<open>auto simp: handle_panicking_def\<close>)

lemma query_actions:
  "split_once dot query_action = Some (lit ''QueryService'', lit ''query'')"
  "split_once dot always_error_action = Some (lit ''QueryService'', lit ''always_error_query'')"
  "lit ''always_error_query'' \<noteq> lit ''query''"
  by (simp_all add: query_action_def always_error_action_def lit_def dot_def)

lemma node_reply_query:
  assumes "codec_decode U codec msg = Ok ()" "asking query_action msg t" "query i st = Returns r"
  shows "node_reply (QueryServiceImpl U P i st) codec t = Some (method_answer P cluster_err codec r)"
proof -
  let ?req = "\<lparr>as_seq = common_seq (ac_common t), as_service = lit ''QueryService'', as_method = lit ''query'', as_req = Some msg\<rparr>"
  obtain resp where "\<And>noti. handle_panicking U P cluster_err (\<lambda>_. query i st) codec ?req noti = Returns (noti_done resp noti)"
      "api_answer codec resp = method_answer P cluster_err codec r"
    by (rule handle_panicking_answers [OF assms(1), of ?req "\<lambda>_. query i st" r P cluster_err]) (use assms(3) in auto)
  then show ?thesis using assms(2)
    by (simp add: node_reply_def asking_def opt_bytes_def api_dispatch_def api_dispatch_req_def query_actions
        inline_dispatch_fn_def QueryServiceImpl_def service_expand_def noti_done_enqueue enqueue_def)
qed

lemma node_reply_always_error:
  assumes "codec_decode U codec msg = Ok ()" "asking always_error_action msg t"
  shows "node_reply (QueryServiceImpl U P i st) codec t = Some (method_answer U cluster_err codec (Err (User RetryNext)))"
proof -
  let ?req = "\<lparr>as_seq = common_seq (ac_common t), as_service = lit ''QueryService'', as_method = lit ''always_error_query'',
    as_req = Some msg\<rparr>"
  obtain resp where "\<And>noti. handle_panicking U U cluster_err (\<lambda>_. always_error_query) codec ?req noti = Returns (noti_done resp noti)"
      "api_answer codec resp = method_answer U cluster_err codec (Err (User RetryNext))"
    by (rule handle_panicking_answers [OF assms(1), of ?req "\<lambda>_. always_error_query" "Err (User RetryNext)" U cluster_err])
       (auto simp: always_error_query_def)
  then show ?thesis using assms(2)
    by (simp add: node_reply_def asking_def opt_bytes_def api_dispatch_def api_dispatch_req_def query_actions
        inline_dispatch_fn_def QueryServiceImpl_def service_expand_def noti_done_enqueue enqueue_def)
qed


section \<open>Lemmas: one exchange\<close>

lemma failover_delivers:
  assumes "codec_ok P valid_p" "rpc_err_codec E valid_e" "returnable P valid_p E valid_e dflt codec r"
    "asking action msg (inner ft)" "\<forall>i. r \<noteq> Err (Rpc i)"
  shows "\<exists>u t'. fo_fact (deliver (failover_task api_client_task) codec (method_answer P E codec r) ft) fp = (fp, [u])
    \<and> ac_noti u \<and> process_res P E dflt codec (u\<lparr>ac_noti := False\<rparr>) = Returns (t', r)
    \<and> (\<forall>e. r = Err (User e) \<longrightarrow> asking action msg (api_set_noti t') \<and> ac_last_index t' = last_index ft)"
proof (cases r)
  case (Ok p)
  obtain b where "codec_encode P codec p = Ok b" "codec_decode P codec b = Ok p"
    using codec_okD [OF assms(1)] assms(3) Ok by (auto simp: returnable_def)
  then show ?thesis using assms(3,4) Ok
    by (auto simp: returnable_def method_answer_def deliver_def deliver_msg_def opt_bytes_def ac_defs process_res_def
        fo_task_defs asking_def)
next
  case (Err err)
  then obtain e where e: "r = Err (User e)" using assms(5) by (cases err) auto
  then have "valid_e e" using assms(3) by (simp add: returnable_def)
  from rpc_err_codec.received_num_or_buf [OF assms(2) this, of codec] show ?thesis using e assms(4)
    by (auto simp: method_answer_def deliver_def deliver_err_def ac_defs process_res_def fo_task_defs
        fo_error_handle_def asking_def api_set_noti_def)
qed

lemma exchange_routed:
  assumes "codec_ok P valid_p" "rpc_err_codec E valid_e" "returnable P valid_p E valid_e dflt codec r"
    and ask: "asking action msg (inner ft)" and "\<forall>i. r \<noteq> Err (Rpc i)"
    and at: "pool_addr h (fo_pools fp) = Some addr" "nodes addr = Some S"
      "node_reply S codec (inner ft) = Some (method_answer P E codec r)"
  shows "\<exists>u t'. exchange nodes codec (fo_route h ft fp, []) = (fp, Some u)
    \<and> process_res P E dflt codec u = Returns (t', r)
    \<and> (\<forall>e. r = Err (User e) \<longrightarrow> asking action msg (api_set_noti t') \<and> ac_last_index t' = last_index ft)"
proof -
  obtain u t' where u: "fo_fact (deliver (failover_task api_client_task) codec (method_answer P E codec r) ft) fp = (fp, [u])"
      "ac_noti u" "process_res P E dflt codec (u\<lparr>ac_noti := False\<rparr>) = Returns (t', r)"
      "\<forall>e. r = Err (User e) \<longrightarrow> asking action msg (api_set_noti t') \<and> ac_last_index t' = last_index ft"
    using failover_delivers [OF assms(1-5), of fp] by blast
  have "(fo_route h ft fp)\<lparr>fo_sending := fo_sending fp\<rparr> = fp" by (simp add: fo_route_def)
  moreover have "fo_sending (fo_route h ft fp) = fo_sending fp @ [(h, ft)]" "fo_pools (fo_route h ft fp) = fo_pools fp"
    by (simp_all add: fo_route_def)
  ultimately have "exchange nodes codec (fo_route h ft fp, []) = (fp, Some (u\<lparr>ac_noti := False\<rparr>))"
    using at u(1,2) by (simp add: exchange_def channel_of_def ac_done_def)
  then show ?thesis using u(3,4) by blast
qed

section \<open>Lemmas: routing in a cluster that is up\<close>

text \<open>The cluster's state is in order, and a client's pool knows healthy nodes of it only.\<close>

definition cluster_ok :: "ClusterState \<Rightarrow> bool" where
  "cluster_ok st \<longleftrightarrow> leader_index st < length (addrs st) \<and> distinct (addrs st)"

definition pool_of :: "ClusterState \<Rightarrow> 't FailoverPool \<Rightarrow> bool" where
  "pool_of st fp \<longleftrightarrow> \<not> fo_stateless fp \<and> all_healthy fp \<and> fo_next_node fp < length (fo_pools fp)
     \<and> distinct (map fst (fo_pools fp)) \<and> distinct (map snd (fo_pools fp))
     \<and> fst ` set (fo_pools fp) \<subseteq> set (addrs st) \<and> (\<forall>h \<in> snd ` set (fo_pools fp). h < length (fo_store fp))"

lemma pool_of_length:
  assumes "pool_of st fp"
  shows "length (fo_pools fp) \<le> length (addrs st)"
proof -
  have "length (fo_pools fp) = card (fst ` set (fo_pools fp))"
    using assms distinct_card [of "map fst (fo_pools fp)"] by (simp add: pool_of_def)
  also have "\<dots> \<le> card (set (addrs st))" using assms by (intro card_mono) (auto simp: pool_of_def)
  also have "\<dots> \<le> length (addrs st)" by (rule card_length)
  finally show ?thesis .
qed

lemma pool_addr_nth:
  assumes "distinct (map snd ps)" "i < length ps"
  shows "pool_addr (snd (ps ! i)) ps = Some (fst (ps ! i))"
proof -
  have "snd (ps ! j) \<noteq> snd (ps ! i)" if "j < i" for j
    using that assms nth_eq_iff_index_eq [of "map snd ps" j i] by simp
  then have "List.find (\<lambda>p. snd p = snd (ps ! i)) ps = Some (ps ! i)"
    unfolding find_Some_iff using assms(2) by (intro exI [of _ i]) simp
  then show ?thesis by (simp add: pool_addr_def)
qed

lemma query_nodes_nth:
  assumes "distinct (addrs st)" "i < length (addrs st)"
  shows "query_nodes U P st (addrs st ! i) = Some (QueryServiceImpl U P i st)"
proof -
  have "List.find (\<lambda>j. addrs st ! j = addrs st ! i) [0 ..< length (addrs st)] = Some i"
    unfolding find_Some_iff using assms by (auto simp: nth_eq_iff_index_eq)
  then show ?thesis by (simp add: query_nodes_def)
qed

text \<open>With every pool healthy the first one from the seed on is taken.\<close>

lemma select_first:
  assumes "all_healthy fp" "select_seed (fo_stateless fp) route (fo_next_node fp) = (nn, seed)"
    "seed + length (fo_pools fp) < 2 ^ 64"
  shows "fo_select fp route = (nn, Some (snd (fo_pools fp ! (seed mod length (fo_pools fp))), seed))"
proof -
  let ?l = "length (fo_pools fp)"
  have l: "0 < ?l" using assms(1) by (simp add: all_healthy_def)
  have "pool_ok fp (snd (fo_pools fp ! (seed mod ?l)))"
    using assms(1) nth_mem [of "seed mod ?l" "fo_pools fp"] l by (auto simp: all_healthy_def)
  moreover have "[seed ..< seed + ?l] = seed # [Suc seed ..< seed + ?l]" using l by (simp add: upt_conv_Cons)
  ultimately show ?thesis
    using select_find [OF assms(2,3), of "pool_ok fp"] l by (simp add: fo_select_def del: upt_Suc)
qed


section \<open>Lemmas: a query\<close>

abbreviation leader_addr :: "ClusterState \<Rightarrow> rstr" where
  "leader_addr st \<equiv> addrs st ! leader_index st"

definition query_codecs ::
  "('c, unit) Codec \<Rightarrow> ('c, QueryResp) Codec \<Rightarrow> (QueryResp \<Rightarrow> bool) \<Rightarrow> 'c \<Rightarrow> ClusterState \<Rightarrow> bool" where
  "query_codecs U P valid codec st \<longleftrightarrow> codec_ok U (\<lambda>_. True) \<and> codec_ok P valid
     \<and> returnable P valid cluster_err (\<lambda>_. True) \<lparr>server_id = 0\<rparr> codec (Ok \<lparr>server_id = leader_index st\<rparr>)
     \<and> length (leader_addr st) + 9 \<le> i32_max"

lemma redirect_returnable:
  "length addr + 9 \<le> i32_max \<Longrightarrow> returnable P valid cluster_err (\<lambda>_. True) dflt codec (Err (User (Redirect addr)))"
  by (simp add: returnable_def method_answer_def cluster_err_defs cluster_err_prefix)

definition node_result :: "ClusterState \<Rightarrow> rstr \<Rightarrow> (QueryResp, ClusterErr RpcError) result" where
  "node_result st addr = (if addr = leader_addr st then Ok \<lparr>server_id = leader_index st\<rparr>
     else Err (User (Redirect (leader_addr st))))"

lemma query_result:
  assumes "cluster_ok st" "i < length (addrs st)"
  shows "query i st = Returns (node_result st (addrs st ! i))"
  using assms by (auto simp: cluster_ok_def query_def is_leader_def get_leader_addr_def node_result_def nth_eq_iff_index_eq)

lemma query_exchange:
  assumes ok: "cluster_ok st" "pool_of st fp" "query_codecs U P valid codec st"
    and t: "asking query_action msg (inner ft)" "codec_decode U codec msg = Ok ()" and k: "k < length (fo_pools fp)"
  shows "\<exists>u t'. exchange (query_nodes U P st) codec (fo_route (snd (fo_pools fp ! k)) ft fp, []) = (fp, Some u)
    \<and> process_res P cluster_err \<lparr>server_id = 0\<rparr> codec u = Returns (t', node_result st (fst (fo_pools fp ! k)))
    \<and> (fst (fo_pools fp ! k) \<noteq> leader_addr st \<longrightarrow> asking query_action msg (api_set_noti t'))"
proof -
  let ?a = "fst (fo_pools fp ! k)" and ?r = "node_result st (fst (fo_pools fp ! k))"
  have "?a \<in> set (addrs st)" using ok(2) k by (auto simp: pool_of_def)
  then obtain i where i: "i < length (addrs st)" "?a = addrs st ! i" by (auto simp: in_set_conv_nth)
  have c: "codec_ok P valid" "returnable P valid cluster_err (\<lambda>_. True) \<lparr>server_id = 0\<rparr> codec ?r" "\<forall>j. ?r \<noteq> Err (Rpc j)"
    using ok(3) by (auto simp: query_codecs_def node_result_def redirect_returnable)
  have a: "pool_addr (snd (fo_pools fp ! k)) (fo_pools fp) = Some ?a"
    using ok(2) k by (intro pool_addr_nth) (simp_all add: pool_of_def)
  have n: "query_nodes U P st ?a = Some (QueryServiceImpl U P i st)"
    using ok(1) i query_nodes_nth [of st i U P] by (simp add: cluster_ok_def)
  have q: "node_reply (QueryServiceImpl U P i st) codec (inner ft) = Some (method_answer P cluster_err codec ?r)"
    using node_reply_query [OF t(2,1)] query_result [OF ok(1) i(1)] i(2) by simp
  show ?thesis using exchange_routed [where nodes = "query_nodes U P st" and fp = fp, OF c(1) cluster_err.rpc_err_codec_axioms c(2) t(1) c(3) a n q]
    by (auto simp: node_result_def)
qed

lemma send_first:
  assumes "pool_of st fp" "2 * length (addrs st) < 2 ^ 64"
  shows "\<exists>ft. fo_send_req T t fp = (fo_route (snd (fo_pools fp ! fo_next_node fp)) ft fp, []) \<and> inner ft = t
    \<and> last_index ft = fo_next_node fp"
proof -
  have p: "\<not> fo_stateless fp" "all_healthy fp" "fo_next_node fp < length (fo_pools fp)"
    using assms(1) by (simp_all add: pool_of_def)
  have "fo_next_node fp + length (fo_pools fp) < 2 ^ 64"
    using p(3) pool_of_length [OF assms(1)] assms(2) by simp
  from select_first [OF p(2), of "Ok ()", OF _ this] have
    "fo_select fp (Ok ()) = (fo_next_node fp, Some (snd (fo_pools fp ! fo_next_node fp), fo_next_node fp))"
    using p(1,3) by (simp add: select_seed_def)
  then show ?thesis
    by (intro exI [of _ "\<lparr>last_index = fo_next_node fp, config_ver = fo_ver fp, inner = t, retry = 0, should_retry = False,
          max_retries = 0\<rparr>"]) (simp add: fo_send_req_def)
qed

lemma redirect_pool:
  assumes "cluster_ok st" "pool_of st fp"
  obtains fp' ft k where "resubmit T t (Ok (leader_addr st)) n m fp = (fo_route (snd (fo_pools fp' ! k)) ft fp', [])"
    "inner ft = t" "pool_of st fp'" "fo_next_node fp' = k" "k < length (fo_pools fp')"
    "fst (fo_pools fp' ! k) = leader_addr st" "fo_retry_limit fp' = fo_retry_limit fp"
proof (cases "get_by_addr (leader_addr st) (fo_pools fp)")
  case (Some p)
  obtain h k where p: "p = (h, k)" by fastforce
  with get_by_addr_Some [of "leader_addr st" "fo_pools fp" h k] Some
  have k: "k < length (fo_pools fp)" "fo_pools fp ! k = (leader_addr st, h)" by auto
  have "pool_of st (fp\<lparr>fo_next_node := k\<rparr>)"
    using assms(2) k by (simp add: pool_of_def all_healthy_def pool_ok_def)
  then show thesis using Some p k by (intro that [of "fp\<lparr>fo_next_node := k\<rparr>" k]) (auto simp: resubmit_def get_or_add_addr_def)
next
  case None
  let ?st = "fo_store fp @ [pool_new (fo_thresholds fp) (fo_channel_size fp)]"
  let ?fp = "fp\<lparr>fo_store := ?st, fo_pools := (leader_addr st, length (fo_store fp)) # fo_pools fp, fo_ver := fo_ver fp + 1,
    fo_next_node := 0\<rparr>"
  have "leader_addr st \<notin> fst ` set (fo_pools fp)" using None by (simp add: get_by_addr_None)
  moreover have "leader_addr st \<in> set (addrs st)" using assms(1) by (simp add: cluster_ok_def)
  moreover have "length (fo_store fp) \<notin> snd ` set (fo_pools fp)" using assms(2) by (auto simp: pool_of_def)
  moreover have "is_healthy (?st ! snd p)" if "p \<in> set (fo_pools fp)" for p
    using that assms(2) by (auto simp: pool_of_def all_healthy_def pool_ok_def nth_append)
  moreover have "is_healthy (pool_new (fo_thresholds fp) (fo_channel_size fp))"
    by (simp add: is_healthy_def pool_new_def pool_spawn_def)
  ultimately have "pool_of st ?fp"
    using assms(2) by (auto simp: pool_of_def all_healthy_def pool_ok_def less_Suc_eq)
  then show thesis using None
    by (intro that [of ?fp 0]) (auto simp: resubmit_def get_or_add_addr_def fo_new_pool_eq Let_def)
qed


lemma call_task:
  assumes "codec_ok U (\<lambda>_. True)"
  obtains t msg where "api_req_new U codec action () = Returns t" "asking action msg (api_set_noti t)" "codec_decode U codec msg = Ok ()"
proof -
  obtain msg where "codec_encode U codec () = Ok msg" "codec_decode U codec msg = Ok ()"
    by (rule codec_okD [OF assms]) simp
  then show thesis by (intro that) (auto simp: api_req_new_def asking_def api_set_noti_def)
qed

lemma call_at_leader:
  assumes "cluster_ok st" "pool_of st fp" "query_codecs U P valid codec st" "2 * length (addrs st) < 2 ^ 64"
    and "fst (fo_pools fp ! fo_next_node fp) = leader_addr st" "0 < fuel"
  shows "call_query U P codec st fuel fp = Returns (fp, [], Some (Ok \<lparr>server_id = leader_index st\<rparr>))"
proof -
  obtain t msg where t: "api_req_new U codec query_action () = Returns t" "asking query_action msg (api_set_noti t)"
      "codec_decode U codec msg = Ok ()"
    using call_task [of U codec query_action] assms(3) by (auto simp: query_codecs_def)
  obtain ft where ft: "fo_send_req (api_client_task :: ('a, APIClientReq) ClientTask) (api_set_noti t) fp
        = (fo_route (snd (fo_pools fp ! fo_next_node fp)) ft fp, [])" "inner ft = api_set_noti t"
    using send_first [OF assms(2,4)] by metis
  have "fo_next_node fp < length (fo_pools fp)" using assms(2) by (simp add: pool_of_def)
  from query_exchange [OF assms(1-3) _ t(3) this, of ft] obtain u t' where
    u: "exchange (query_nodes U P st) codec (fo_route (snd (fo_pools fp ! fo_next_node fp)) ft fp, []) = (fp, Some u)"
      "process_res P cluster_err \<lparr>server_id = 0\<rparr> codec u = Returns (t', Ok \<lparr>server_id = leader_index st\<rparr>)"
    using ft(2) t(2) assms(5) by (auto simp: node_result_def)
  obtain fuel' where "fuel = Suc fuel'" using assms(6) by (cases fuel) auto
  then show ?thesis
    using t(1) ft(1) u by (simp add: call_query_def failover_call_def cluster_env_def call_turn_def)
qed

lemma call_redirected:
  assumes "cluster_ok st" "pool_of st fp" "query_codecs U P valid codec st" "2 * length (addrs st) < 2 ^ 64"
    and "fst (fo_pools fp ! fo_next_node fp) \<noteq> leader_addr st" "1 < fo_retry_limit fp" "1 < fuel"
  shows "\<exists>fp'. call_query U P codec st fuel fp = Returns (fp', [Ok (leader_addr st)], Some (Ok \<lparr>server_id = leader_index st\<rparr>))
    \<and> pool_of st fp' \<and> fst (fo_pools fp' ! fo_next_node fp') = leader_addr st \<and> fo_retry_limit fp' = fo_retry_limit fp"
proof -
  let ?T = "api_client_task :: ('a, APIClientReq) ClientTask"
  obtain t msg where t: "api_req_new U codec query_action () = Returns t" "asking query_action msg (api_set_noti t)"
      "codec_decode U codec msg = Ok ()"
    using call_task [of U codec query_action] assms(3) by (auto simp: query_codecs_def)
  obtain ft where ft: "fo_send_req ?T (api_set_noti t) fp = (fo_route (snd (fo_pools fp ! fo_next_node fp)) ft fp, [])"
      "inner ft = api_set_noti t"
    using send_first [OF assms(2,4)] by metis
  have "fo_next_node fp < length (fo_pools fp)" using assms(2) by (simp add: pool_of_def)
  from query_exchange [OF assms(1-3) _ t(3) this, of ft] obtain u t' where
    u: "exchange (query_nodes U P st) codec (fo_route (snd (fo_pools fp ! fo_next_node fp)) ft fp, []) = (fp, Some u)"
      "process_res P cluster_err \<lparr>server_id = 0\<rparr> codec u = Returns (t', Err (User (Redirect (leader_addr st))))"
      "asking query_action msg (api_set_noti t')"
    using ft(2) t(2) assms(5) by (auto simp: node_result_def)
  obtain fp' gt k where r: "resubmit ?T (api_set_noti t') (Ok (leader_addr st)) 1 None fp
        = (fo_route (snd (fo_pools fp' ! k)) gt fp', [])" "inner gt = api_set_noti t'"
      "pool_of st fp'" "fo_next_node fp' = k" "k < length (fo_pools fp')"
      "fst (fo_pools fp' ! k) = leader_addr st" "fo_retry_limit fp' = fo_retry_limit fp"
    by (rule redirect_pool [OF assms(1,2)])
  from query_exchange [OF assms(1) r(3) assms(3) _ t(3) r(5), of gt] obtain u' t'' where
    u': "exchange (query_nodes U P st) codec (fo_route (snd (fo_pools fp' ! k)) gt fp', []) = (fp', Some u')"
      "process_res P cluster_err \<lparr>server_id = 0\<rparr> codec u' = Returns (t'', Ok \<lparr>server_id = leader_index st\<rparr>)"
    using r(2,6) u(3) by (auto simp: node_result_def)
  obtain fuel' where "fuel = Suc (Suc fuel')" using assms(7) by (metis Suc_lessD less_imp_Suc_add add_Suc One_nat_def plus_1_eq_Suc)
  then show ?thesis using t(1) ft(1) u r u' assms(6)
    by (intro exI [of _ fp']) (simp add: call_query_def failover_call_def cluster_env_def call_turn_def get_retry_limit_def)
qed

text \<open>
  C7: a query reaches the leader. A client whose pool knows healthy nodes of the cluster gets the
  leader's answer, whichever node it asks first: a follower redirects it, once, to the leader's
  address, which joins the pool when the pool does not know it. The pool stays in order and its
  next query goes to the leader at once.
\<close>

theorem query_reaches_leader:
  assumes "cluster_ok st" "pool_of st fp" "query_codecs U P valid codec st" "2 * length (addrs st) < 2 ^ 64"
    and "1 < fo_retry_limit fp" "1 < fuel"
  shows "\<exists>fp' routes. call_query U P codec st fuel fp = Returns (fp', routes, Some (Ok \<lparr>server_id = leader_index st\<rparr>))
    \<and> routes = (if fst (fo_pools fp ! fo_next_node fp) = leader_addr st then [] else [Ok (leader_addr st)])
    \<and> pool_of st fp' \<and> fo_retry_limit fp' = fo_retry_limit fp
    \<and> call_query U P codec st fuel fp' = Returns (fp', [], Some (Ok \<lparr>server_id = leader_index st\<rparr>))"
proof (cases "fst (fo_pools fp ! fo_next_node fp) = leader_addr st")
  case True
  with call_at_leader [OF assms(1-4) True, of fuel] assms(2,6) show ?thesis by auto
next
  case False
  from call_redirected [OF assms(1-4) False assms(5,6)] call_at_leader [OF assms(1) _ assms(3,4), of _ fuel] assms(6)
  show ?thesis using False by fastforce
qed

section \<open>Lemmas: a query that every node refuses\<close>

lemma always_error_exchange:
  assumes ok: "cluster_ok st" "pool_of st fp" "codec_ok U (\<lambda>_. True)"
    and t: "asking always_error_action msg (inner ft)" "codec_decode U codec msg = Ok ()" and k: "k < length (fo_pools fp)"
  shows "\<exists>u t'. exchange (query_nodes U P st) codec (fo_route (snd (fo_pools fp ! k)) ft fp, []) = (fp, Some u)
    \<and> process_res U cluster_err () codec u = Returns (t', Err (User RetryNext))
    \<and> asking always_error_action msg (api_set_noti t') \<and> ac_last_index t' = last_index ft"
proof -
  let ?a = "fst (fo_pools fp ! k)"
  have "?a \<in> set (addrs st)" using ok(2) k by (auto simp: pool_of_def)
  then obtain i where i: "i < length (addrs st)" "?a = addrs st ! i" by (auto simp: in_set_conv_nth)
  have r: "returnable U (\<lambda>_. True) cluster_err (\<lambda>_. True) () codec (Err (User RetryNext))"
    by (simp add: returnable_def method_answer_def cluster_err_defs i32_max_def lit_def)
  have a: "pool_addr (snd (fo_pools fp ! k)) (fo_pools fp) = Some ?a"
    using ok(2) k by (intro pool_addr_nth) (simp_all add: pool_of_def)
  have n: "query_nodes U P st ?a = Some (QueryServiceImpl U P i st)"
    using ok(1) i query_nodes_nth [of st i U P] by (simp add: cluster_ok_def)
  show ?thesis
    using exchange_routed [where nodes = "query_nodes U P st" and fp = fp, OF ok(3) cluster_err.rpc_err_codec_axioms r t(1) _ a n
        node_reply_always_error [OF t(2,1)]] by auto
qed

lemma resubmit_next:
  assumes "all_healthy fp" "i + 1 + length (fo_pools fp) < 2 ^ 64"
  obtains ft where "resubmit T t (Err i) n m fp
      = (fo_route (snd (fo_pools fp ! ((i + 1) mod length (fo_pools fp)))) ft fp, [])" "inner ft = t" "last_index ft = i + 1"
proof -
  have "select_seed (fo_stateless fp) (Err i) (fo_next_node fp) = (fo_next_node fp, i + 1)"
    using assms(2) by (simp add: select_seed_def usize_add_def)
  from select_first [OF assms(1) this assms(2)] show thesis
    by (intro that [of "\<lparr>last_index = i + 1, config_ver = fo_ver fp, inner = t, retry = 0, should_retry = False,
          max_retries = 0\<rparr>"]) (simp_all add: resubmit_def)
qed

lemma always_error_loop:
  assumes "cluster_ok st" "pool_of st fp" "codec_ok U (\<lambda>_. True)" "codec_decode U codec msg = Ok ()"
    and "process_res U cluster_err () codec u = Returns (t, Err (User RetryNext))"
      "asking always_error_action msg (api_set_noti t)" "ac_last_index t = i"
    and "i + (max_r - n) + length (fo_pools fp) < 2 ^ 64" "max_r - n \<le> fuel" "0 < fuel"
  shows "call_loop U cluster_err () codec max_r (cluster_env (query_nodes U P st) codec) fuel n (fp, Some u)
    = Returns (fp, map Err [i ..< i + (max_r - 1 - n)], Some (Err (User RetryNext)))"
  using assms(5-)
proof (induction fuel arbitrary: n u t i)
  case (Suc fuel)
  show ?case
  proof (cases "n + 1 < max_r")
    case True
    have l: "0 < length (fo_pools fp)" and h: "all_healthy fp" using assms(2) by (auto simp: pool_of_def)
    have b: "i + 1 + length (fo_pools fp) < 2 ^ 64" using Suc.prems(4) True by simp
    obtain ft where ft: "resubmit (api_client_task :: ('a, APIClientReq) ClientTask) (api_set_noti t) (Err i) (n + 1) None fp
        = (fo_route (snd (fo_pools fp ! ((i + 1) mod length (fo_pools fp)))) ft fp, [])"
        "inner ft = api_set_noti t" "last_index ft = i + 1"
      by (rule resubmit_next [OF h b])
    obtain u' t' where u': "exchange (query_nodes U P st) codec
          (fo_route (snd (fo_pools fp ! ((i + 1) mod length (fo_pools fp)))) ft fp, []) = (fp, Some u')"
        "process_res U cluster_err () codec u' = Returns (t', Err (User RetryNext))"
        "asking always_error_action msg (api_set_noti t')" "ac_last_index t' = i + 1"
      using always_error_exchange [OF assms(1-3) _ assms(4), of ft "(i + 1) mod length (fo_pools fp)" P] ft(2,3) Suc.prems(2) l
      by auto
    have "call_loop U cluster_err () codec max_r (cluster_env (query_nodes U P st) codec) fuel (n + 1) (fp, Some u')
        = Returns (fp, map Err [i + 1 ..< i + 1 + (max_r - 1 - (n + 1))], Some (Err (User RetryNext)))"
      by (rule Suc.IH [OF u'(2-4)]) (use Suc.prems(4,5) True in auto)
    moreover have "cluster_env (query_nodes U P st) codec fp (api_set_noti t) (Some (Err i)) (n + 1) = (fp, Some u')"
      using ft(1) u'(1) by (simp add: cluster_env_def)
    moreover have "i + 1 + (max_r - 1 - (n + 1)) = i + (max_r - 1 - n)" "i < i + (max_r - 1 - n)" using True by simp_all
    then have "i # [i + 1 ..< i + 1 + (max_r - 1 - (n + 1))] = [i ..< i + (max_r - 1 - n)]"
      using upt_conv_Cons [of i "i + (max_r - 1 - n)"] by (simp del: upt_Suc)
    ultimately show ?thesis using Suc.prems(1,3) True
      by (simp add: call_turn_def Let_def flip: list.map(2) del: upt_Suc)
  next
    case False
    then show ?thesis using Suc.prems(1) by (simp add: call_turn_def)
  qed
qed simp

text \<open>
  A call that every node refuses gives up with the nodes' error. It asks the next node of
  the pool each time, one after the other from the preferred one on, as often as the retry limit
  allows, and leaves the pool as it was.
\<close>

lemma refused_everywhere_gives_up:
  assumes "cluster_ok st" "pool_of st fp" "codec_ok U (\<lambda>_. True)"
    and "fo_next_node fp + fo_retry_limit fp + length (fo_pools fp) < 2 ^ 64" "fo_retry_limit fp < fuel"
    "2 * length (addrs st) < 2 ^ 64"
  shows "call_always_error U P codec st fuel fp = Returns (fp,
      map Err [fo_next_node fp ..< fo_next_node fp + (fo_retry_limit fp - 1)], Some (Err (User RetryNext)))"
proof -
  obtain t msg where t: "api_req_new U codec always_error_action () = Returns t"
      "asking always_error_action msg (api_set_noti t)" "codec_decode U codec msg = Ok ()"
    by (rule call_task [OF assms(3)])
  obtain ft where ft: "fo_send_req (api_client_task :: ('a, APIClientReq) ClientTask) (api_set_noti t) fp
        = (fo_route (snd (fo_pools fp ! fo_next_node fp)) ft fp, [])" "inner ft = api_set_noti t" "last_index ft = fo_next_node fp"
    using send_first [OF assms(2,6)] by metis
  have k: "fo_next_node fp < length (fo_pools fp)" using assms(2) by (simp add: pool_of_def)
  obtain u t' where u: "exchange (query_nodes U P st) codec (fo_route (snd (fo_pools fp ! fo_next_node fp)) ft fp, []) = (fp, Some u)"
      "process_res U cluster_err () codec u = Returns (t', Err (User RetryNext))"
      "asking always_error_action msg (api_set_noti t')" "ac_last_index t' = fo_next_node fp"
    using always_error_exchange [OF assms(1-3) _ t(3) k, of ft P] ft(2,3) t(2) by auto
  have "call_loop U cluster_err () codec (fo_retry_limit fp) (cluster_env (query_nodes U P st) codec) fuel 0 (fp, Some u)
      = Returns (fp, map Err [fo_next_node fp ..< fo_next_node fp + (fo_retry_limit fp - 1 - 0)], Some (Err (User RetryNext)))"
    by (rule always_error_loop [OF assms(1-3) t(3) u(2-4)]) (use assms(4,5) in auto)
  then show ?thesis using t(1) ft(1) u(1)
    by (simp add: call_always_error_def failover_call_def cluster_env_def get_retry_limit_def)
qed

section \<open>Witnesses\<close>

text \<open>A new client's pool is in order, and stays so when the cluster's leader or its nodes change.\<close>

lemma new_client_pool:
  assumes "as \<noteq> []" "distinct as" "set as \<subseteq> set (addrs st)"
  shows "pool_of st (new_failover_client config as)" "fo_retry_limit (new_failover_client config as) = 3"
  using assms
  by (auto simp: pool_of_def all_healthy_def pool_ok_def new_failover_client_def new_failover_def fo_new_def is_healthy_def
      pool_new_def pool_spawn_def in_set_zip map_fst_zip map_snd_zip dest: set_zip_leftD)

lemma pool_of_changes: "pool_of st fp \<Longrightarrow> pool_of (set_leader i st) fp" "pool_of st fp \<Longrightarrow> pool_of (fst (add_addr addr st)) fp"
  by (auto simp: pool_of_def set_leader_def add_addr_def)

definition void_codec :: "(unit, unit) Codec" where
  "void_codec = \<lparr>codec_encode = \<lambda>_ _. Ok [], codec_encode_into = \<lambda>_ _ buf. (buf, Ok 0), codec_decode = \<lambda>_ _. Ok ()\<rparr>"

definition resp_codec :: "(unit, QueryResp) Codec" where
  "resp_codec = \<lparr>codec_encode = \<lambda>_ r. Ok [of_nat (server_id r)],
     codec_encode_into = \<lambda>_ r buf. (buf @ [of_nat (server_id r)], Ok 1),
     codec_decode = \<lambda>_ b. (case b of [x] \<Rightarrow> Ok \<lparr>server_id = unat x\<rparr> | _ \<Rightarrow> Err ())\<rparr>"

text \<open>A cluster that grows by a node, which becomes the leader and which the client does not know.\<close>

definition demo_state :: ClusterState where
  "demo_state = set_leader 2 (fst (add_addr (lit ''c'') (cluster_new [lit ''a'', lit ''b''] 0)))"

definition demo_querier :: "APIClientReq FailoverPool" where
  "demo_querier = new_failover_client ClientConfig_default [lit ''a'', lit ''b'']"

lemma demo_in_order:
  "cluster_ok demo_state" "leader_index demo_state = 2" "addrs demo_state ! 2 = lit ''c''" "length (addrs demo_state) = 3"
  by (simp_all add: demo_state_def cluster_ok_def set_leader_def add_addr_def cluster_new_def lit_def)

lemma demo_querier_pool: "pool_of demo_state demo_querier" "fo_retry_limit demo_querier = 3"
  "fo_pools demo_querier = [(lit ''a'', 0), (lit ''b'', 1)]" "fo_next_node demo_querier = 0"
proof -
  have s: "distinct [lit ''a'', lit ''b'']" "set [lit ''a'', lit ''b''] \<subseteq> set (addrs demo_state)"
    by (simp_all add: demo_state_def set_leader_def add_addr_def cluster_new_def lit_def)
  show "pool_of demo_state demo_querier" "fo_retry_limit demo_querier = 3"
    using new_client_pool [OF _ s, of ClientConfig_default] by (simp_all add: demo_querier_def)
  show "fo_pools demo_querier = [(lit ''a'', 0), (lit ''b'', 1)]" "fo_next_node demo_querier = 0"
    by (simp_all add: demo_querier_def new_failover_client_def new_failover_def fo_new_def upt_rec)
qed

lemma demo_codecs:
  "codec_ok void_codec (\<lambda>_. True)" "codec_ok resp_codec (\<lambda>r. server_id r < 256)"
  "query_codecs void_codec resp_codec (\<lambda>r. server_id r < 256) () demo_state"
proof -
  show c: "codec_ok void_codec (\<lambda>_. True)" "codec_ok resp_codec (\<lambda>r. server_id r < 256)"
    by (auto simp: codec_ok_def void_codec_def resp_codec_def unat_of_nat take_bit_nat_eq_self)
  show "query_codecs void_codec resp_codec (\<lambda>r. server_id r < 256) () demo_state"
    using c demo_in_order
    by (simp add: query_codecs_def returnable_def method_answer_def resp_codec_def u32_max_def i32_max_def opt_bytes_def lit_def)
qed

theorem query_reaches_leader_witness:
  "\<exists>fp'. call_query void_codec resp_codec () demo_state 4 demo_querier
      = Returns (fp', [Ok (lit ''c'')], Some (Ok \<lparr>server_id = 2\<rparr>))
    \<and> call_query void_codec resp_codec () demo_state 4 fp' = Returns (fp', [], Some (Ok \<lparr>server_id = 2\<rparr>))"
proof -
  have "fst (fo_pools demo_querier ! fo_next_node demo_querier) \<noteq> leader_addr demo_state"
    by (simp add: demo_in_order demo_querier_pool) (simp add: lit_def)
  with query_reaches_leader [OF demo_in_order(1) demo_querier_pool(1) demo_codecs(3), of 4] show ?thesis
    by (auto simp: demo_in_order demo_querier_pool)
qed

end
