(* ===== verification/Macro_Syntax.thy ===== *)
theory Macro_Syntax
  imports Rpc_Task
begin

text \<open>
  The Rust syntax that the procedural macros of \<open>src/stream/macros\<close> and \<open>src/macros\<close> look
  at: types as the \<open>syn\<close> crate parses them, down to the parts the macros test, and the
  checks on types that the macros share. A macro that rejects its input panics.
\<close>

section \<open>Types\<close>

text \<open>
  A path has flags for a qualified self type and a leading colon, and its segments; a
  segment has an identifier and its arguments. Anything else keeps its text, so that two
  types are equal exactly when their tokens are.
\<close>

datatype ty =
    Ty_Path bool bool "seg list"
  | Ty_Tuple "ty list"
  | Ty_Impl_Trait "bound list"
  | Ty_Other rstr
and seg = Seg (seg_ident: rstr) (seg_args: path_args)
and path_args = No_Args | Angle "gen_arg list" | Parenthesized rstr
and gen_arg = Arg_Type ty | Arg_Binding rstr ty | Arg_Other rstr
and bound = Trait_Bound "seg list" | Bound_Other rstr

definition last_seg :: "seg list \<Rightarrow> seg option" where
  "last_seg segs = (if segs = [] then None else Some (last segs))"

text \<open>The arguments of a path type whose last segment has the given name.\<close>

definition path_args_of :: "rstr \<Rightarrow> ty \<Rightarrow> gen_arg list panics" where
  "path_args_of name t = (case t of
     Ty_Path q c segs \<Rightarrow> (case last_seg segs of
        None \<Rightarrow> Panic
      | Some s \<Rightarrow> if seg_ident s \<noteq> name then Panic
                 else (case seg_args s of Angle args \<Rightarrow> Returns args | _ \<Rightarrow> Panic))
   | _ \<Rightarrow> Panic)"

definition first_type :: "gen_arg list \<Rightarrow> ty panics" where
  "first_type args = (case args of Arg_Type t # _ \<Rightarrow> Returns t | _ \<Rightarrow> Panic)"

text \<open>\<open>path_type name args t\<close>: the type \<open>t\<close> is a path that ends in \<open>name<args>\<close>.\<close>

definition path_type :: "rstr \<Rightarrow> gen_arg list \<Rightarrow> ty \<Rightarrow> bool" where
  "path_type name args t \<longleftrightarrow> (\<exists>q c segs. t = Ty_Path q c (segs @ [Seg name (Angle args)]))"

lemma path_args_of_iff: "path_args_of name t = Returns args \<longleftrightarrow> path_type name args t"
proof
  assume "path_args_of name t = Returns args"
  then obtain q c segs s where "t = Ty_Path q c segs" "last_seg segs = Some s" "seg_ident s = name" "seg_args s = Angle args"
    by (auto simp: path_args_of_def split: ty.splits option.splits if_splits path_args.splits)
  then show "path_type name args t"
    by (cases s) (auto simp: path_type_def last_seg_def split: if_splits, metis append_butlast_last_id)
qed (auto simp: path_args_of_def path_type_def last_seg_def)

lemma first_type_iff: "first_type args = Returns t \<longleftrightarrow> (\<exists>rest. args = Arg_Type t # rest)"
  by (auto simp: first_type_def split: list.splits gen_arg.splits)

end
