(* ===== verification/Task_Macros.thy ===== *)
theory Task_Macros
  imports Macro_Syntax Tcp_Client Server_Task
begin

text \<open>
  The client macros of \<open>src/stream/macros\<close>: \<open>client_task\<close> (\<open>client_task.rs\<close>) and
  \<open>client_task_enum\<close> (\<open>client_task_enum.rs\<close>). Each is modelled twice: what it checks and
  collects at compile time (\<open>client_task_impl\<close>, \<open>client_enum_scan\<close>), and the methods of the
  code it generates (\<open>gen_client_task\<close>, \<open>client_enum_task\<close>), which are shown to meet the
  contract \<open>client_task_laws\<close> that the stream relies on.
\<close>

section \<open>client\_task: the attributes\<close>

text \<open>A named field with its type and the words of its \<open>#[field(...)]\<close> attributes.\<close>

record struct_field =
  sf_name :: rstr
  sf_ty :: ty
  sf_tags :: "rstr list"

text \<open>An action in an attribute: a literal, the path of a constant with its value, or another meta item.\<close>

datatype action_meta = Lit_Str rstr | Lit_Int int | Lit_Other | Const_Path i32 | Meta_Other

datatype macro_arg = Debug_Arg | Action_Arg action_meta

record collected =
  cf_common :: "(rstr \<times> ty) option"
  cf_req :: "rstr option"
  cf_resp :: "(rstr \<times> ty) option"
  cf_req_blob :: "rstr option"
  cf_resp_blob :: "(rstr \<times> ty) option"
  cf_action :: "(rstr \<times> ty) option"
  cf_res :: "(rstr \<times> ty) option"
  cf_noti :: "(rstr \<times> ty) option"

definition collect_tag :: "struct_field \<Rightarrow> rstr \<Rightarrow> collected \<Rightarrow> collected panics" where
  "collect_tag f tag c =
    (let nt = Some (sf_name f, sf_ty f)
     in if tag = lit ''common'' then Returns (c\<lparr>cf_common := nt\<rparr>)
        else if tag = lit ''req'' then Returns (c\<lparr>cf_req := Some (sf_name f)\<rparr>)
        else if tag = lit ''resp'' then Returns (c\<lparr>cf_resp := nt\<rparr>)
        else if tag = lit ''req_blob'' then Returns (c\<lparr>cf_req_blob := Some (sf_name f)\<rparr>)
        else if tag = lit ''resp_blob'' then Returns (c\<lparr>cf_resp_blob := nt\<rparr>)
        else if tag = lit ''action'' then
          (if cf_action c \<noteq> None then Panic else Returns (c\<lparr>cf_action := nt\<rparr>))
        else if tag = lit ''res'' then Returns (c\<lparr>cf_res := nt\<rparr>)
        else if tag = lit ''noti'' then Returns (c\<lparr>cf_noti := nt\<rparr>)
        else Returns c)"

fun collect_tags :: "struct_field \<Rightarrow> rstr list \<Rightarrow> collected \<Rightarrow> collected panics" where
  "collect_tags f [] c = Returns c"
| "collect_tags f (tag # tags) c = and_then (collect_tag f tag c) (collect_tags f tags)"

fun collect_fields :: "struct_field list \<Rightarrow> collected \<Rightarrow> collected panics" where
  "collect_fields [] c = Returns c"
| "collect_fields (f # fs) c = and_then (collect_tags f (sf_tags f) c) (collect_fields fs)"

text \<open>The macro's own arguments: \<open>debug\<close> and an action, each at most once.\<close>

fun collect_args :: "macro_arg list \<Rightarrow> bool \<Rightarrow> action_meta option \<Rightarrow> (bool \<times> action_meta option) panics" where
  "collect_args [] dbg act = Returns (dbg, act)"
| "collect_args (Debug_Arg # args) dbg act = (if dbg then Panic else collect_args args True act)"
| "collect_args (Action_Arg a # args) dbg act = (if act \<noteq> None then Panic else collect_args args dbg (Some a))"

section \<open>client\_task: the checks\<close>

fun check_option_inner_type :: "ty \<Rightarrow> bool" where
  "check_option_inner_type (Ty_Path False False [Seg i (Angle [Arg_Type t])]) \<longleftrightarrow> i = lit ''Option''"
| "check_option_inner_type _ \<longleftrightarrow> False"

text \<open>The \<open>E\<close> of \<open>Option<Result<(), RpcError<E>>>\<close>, and the \<open>T\<close> of \<open>Option<MTx<T>>\<close>.\<close>

definition unit_result_args :: "gen_arg list \<Rightarrow> ty panics" where
  "unit_result_args args = (case args of [Arg_Type (Ty_Tuple []), Arg_Type e] \<Rightarrow> Returns e | _ \<Rightarrow> Panic)"

definition res_error_type :: "ty \<Rightarrow> ty panics" where
  "res_error_type t =
    and_then (path_args_of (lit ''Option'') t) (\<lambda>args.
    and_then (first_type args) (\<lambda>r.
    and_then (path_args_of (lit ''Result'') r) (\<lambda>rargs.
    and_then (unit_result_args rargs) (\<lambda>e.
    and_then (path_args_of (lit ''RpcError'') e) first_type))))"

definition noti_item_type :: "ty \<Rightarrow> ty panics" where
  "noti_item_type t =
    and_then (path_args_of (lit ''Option'') t) (\<lambda>args.
    and_then (first_type args) (\<lambda>m. and_then (path_args_of (lit ''MTx'') m) first_type))"

text \<open>An action written in an attribute; integers are parsed as \<open>i32\<close>.\<close>

definition static_action :: "action_meta \<Rightarrow> RpcAction panics" where
  "static_action a = (case a of
     Lit_Str s \<Rightarrow> Returns (Str s)
   | Lit_Int i \<Rightarrow> if - (2 ^ 31) \<le> i \<and> i < 2 ^ 31 then Returns (Num (word_of_int i)) else Panic
   | Const_Path v \<Rightarrow> Returns (Num v)
   | _ \<Rightarrow> Panic)"

datatype action_src = String_Field | Number_Field | Static_Action RpcAction | By_Hand

definition field_action_src :: "ty \<Rightarrow> action_src panics" where
  "field_action_src t = (case t of
     Ty_Path q c segs \<Rightarrow> (case last_seg segs of
        Some s \<Rightarrow> Returns (if seg_ident s = lit ''String'' then String_Field else Number_Field)
      | None \<Rightarrow> Panic)
   | _ \<Rightarrow> Panic)"

text \<open>What the macro generates, as far as it depends on the input.\<close>

record client_task_code =
  ct_common :: rstr
  ct_req :: rstr
  ct_resp :: rstr
  ct_req_blob :: "rstr option"
  ct_resp_blob :: "rstr option"
  ct_action :: action_src
  ct_done :: "(rstr \<times> ty \<times> rstr \<times> ty) option"
  ct_debug :: bool

definition no_fields :: collected where
  "no_fields = \<lparr>cf_common = None, cf_req = None, cf_resp = None, cf_req_blob = None, cf_resp_blob = None,
     cf_action = None, cf_res = None, cf_noti = None\<rparr>"

definition client_task_action :: "(rstr \<times> ty) option \<Rightarrow> action_meta option \<Rightarrow> action_src panics" where
  "client_task_action fa sa = (case fa of
     Some (_, t) \<Rightarrow> field_action_src t
   | None \<Rightarrow> (case sa of
        Some a \<Rightarrow> and_then (static_action a) (\<lambda>x. Returns (Static_Action x))
      | None \<Rightarrow> Returns By_Hand))"

definition client_task_done ::
  "(rstr \<times> ty) option \<Rightarrow> (rstr \<times> ty) option \<Rightarrow> (rstr \<times> ty \<times> rstr \<times> ty) option panics" where
  "client_task_done res noti = (case (res, noti) of
     (Some (res_name, res_ty), Some (noti_name, noti_ty)) \<Rightarrow>
       and_then (res_error_type res_ty) (\<lambda>e.
       and_then (noti_item_type noti_ty) (\<lambda>n. Returns (Some (res_name, e, noti_name, n))))
   | _ \<Rightarrow> Returns None)"

definition client_task_impl :: "macro_arg list \<Rightarrow> struct_field list \<Rightarrow> client_task_code panics" where
  "client_task_impl args fs =
    and_then (collect_args args False None) (\<lambda>(dbg, sa).
    and_then (collect_fields fs no_fields) (\<lambda>c.
      if cf_action c \<noteq> None \<and> sa \<noteq> None then Panic
      else if (cf_res c \<noteq> None) \<noteq> (cf_noti c \<noteq> None) then Panic
      else (case (cf_common c, cf_req c, cf_resp c) of
        (Some (common, _), Some req, Some (resp, resp_ty)) \<Rightarrow>
          if \<not> check_option_inner_type resp_ty then Panic
          else and_then (client_task_action (cf_action c) sa) (\<lambda>act.
               and_then (client_task_done (cf_res c) (cf_noti c)) (\<lambda>dn.
                 Returns \<lparr>ct_common = common, ct_req = req, ct_resp = resp, ct_req_blob = cf_req_blob c,
                   ct_resp_blob = map_option fst (cf_resp_blob c), ct_action = act, ct_done = dn, ct_debug = dbg\<rparr>))
      | _ \<Rightarrow> Panic)))"

section \<open>client\_task: the generated code\<close>

text \<open>
  A value of the annotated struct, one slot per role. The response blob has a type with its
  own \<open>AllocateBuf\<close>; \<open>lend\<close> is its \<open>reserve\<close> (\<open>Alloc_Buf\<close>). A struct without an action
  attribute has a \<open>get_action\<close> written by hand, \<open>by_hand\<close>, which reads the request.
\<close>

record ('q, 'p, 'e, 'b) GenTask =
  g_common :: ClientTaskCommon
  g_req :: 'q
  g_resp :: "'p option"
  g_req_blob :: bytes
  g_resp_blob :: 'b
  g_action_str :: rstr
  g_action_num :: i32
  g_res :: "(unit, 'e RpcError) result option"
  g_noti :: bool

definition gen_get_action ::
  "client_task_code \<Rightarrow> ('q \<Rightarrow> RpcAction) \<Rightarrow> ('q, 'p, 'e, 'b) GenTask \<Rightarrow> RpcAction" where
  "gen_get_action code by_hand t = (case ct_action code of
     String_Field \<Rightarrow> Str (g_action_str t) | Number_Field \<Rightarrow> Num (g_action_num t)
   | Static_Action a \<Rightarrow> a | By_Hand \<Rightarrow> by_hand (g_req t))"

definition gen_encode_req ::
  "('c, 'q) Codec \<Rightarrow> 'c \<Rightarrow> ('q, 'p, 'e, 'b) GenTask \<Rightarrow> bytes \<Rightarrow> bytes \<times> (nat, unit) result" where
  "gen_encode_req A codec t buf = codec_encode_into A codec (g_req t) buf"

definition gen_get_req_blob :: "client_task_code \<Rightarrow> ('q, 'p, 'e, 'b) GenTask \<Rightarrow> bytes option" where
  "gen_get_req_blob code t = (case ct_req_blob code of Some _ \<Rightarrow> Some (g_req_blob t) | None \<Rightarrow> default_get_req_blob t)"

definition gen_decode_resp ::
  "('c, 'p) Codec \<Rightarrow> 'c \<Rightarrow> bytes \<Rightarrow> ('q, 'p, 'e, 'b) GenTask \<Rightarrow> ('q, 'p, 'e, 'b) GenTask \<times> (unit, unit) result" where
  "gen_decode_resp P codec buffer t = (case codec_decode P codec buffer of
     Err e \<Rightarrow> (t, Err e) | Ok resp \<Rightarrow> (t\<lparr>g_resp := Some resp\<rparr>, Ok ()))"

definition gen_reserve_resp_blob ::
  "client_task_code \<Rightarrow> (i32 \<Rightarrow> 'b \<Rightarrow> (nat \<times> (bytes \<Rightarrow> 'b)) option) \<Rightarrow> i32 \<Rightarrow> ('q, 'p, 'e, 'b) GenTask
   \<Rightarrow> (nat \<times> (bytes \<Rightarrow> ('q, 'p, 'e, 'b) GenTask)) option" where
  "gen_reserve_resp_blob code lend sz t = (case ct_resp_blob code of
     Some _ \<Rightarrow> (case lend sz (g_resp_blob t) of
        None \<Rightarrow> None | Some (n, fill) \<Rightarrow> Some (n, \<lambda>b. t\<lparr>g_resp_blob := fill b\<rparr>))
   | None \<Rightarrow> default_reserve_resp_blob sz t)"

definition gen_rpc_error :: "('c, 'e) RpcErrCodec \<Rightarrow> 'c \<Rightarrow> EncodedErr \<Rightarrow> 'e RpcError" where
  "gen_rpc_error E codec res = (case res of
     ERpc e \<Rightarrow> Rpc e
   | ENum n \<Rightarrow> (case err_decode E codec (Ok n) of Ok e \<Rightarrow> User e | Err _ \<Rightarrow> Rpc Decode)
   | EStatic s \<Rightarrow> (case err_decode E codec (Err s) of Ok e \<Rightarrow> User e | Err _ \<Rightarrow> Rpc Decode)
   | EBuf b \<Rightarrow> (case err_decode E codec (Err b) of Ok e \<Rightarrow> User e | Err _ \<Rightarrow> Rpc Decode))"

definition gen_set_custom_error ::
  "('c, 'e) RpcErrCodec \<Rightarrow> 'c \<Rightarrow> EncodedErr \<Rightarrow> nat \<Rightarrow> u64 \<Rightarrow> ('q, 'p, 'e, 'b) GenTask \<Rightarrow> ('q, 'p, 'e, 'b) GenTask" where
  "gen_set_custom_error E codec res last_idx ver t = t\<lparr>g_res := Some (Err (gen_rpc_error E codec res))\<rparr>"

definition gen_set_rpc_error :: "RpcIntErr \<Rightarrow> ('q, 'p, 'e, 'b) GenTask \<Rightarrow> ('q, 'p, 'e, 'b) GenTask" where
  "gen_set_rpc_error e t = t\<lparr>g_res := Some (Err (Rpc e))\<rparr>"

definition gen_set_ok :: "('q, 'p, 'e, 'b) GenTask \<Rightarrow> ('q, 'p, 'e, 'b) GenTask" where
  "gen_set_ok t = t\<lparr>g_res := Some (Ok ())\<rparr>"

text \<open>\<open>done\<close>: the task as it is sent to its owner, if it still has a channel.\<close>

definition gen_done :: "('q, 'p, 'e, 'b) GenTask \<Rightarrow> ('q, 'p, 'e, 'b) GenTask option" where
  "gen_done t = (if g_noti t then Some (t\<lparr>g_noti := False\<rparr>) else None)"

definition gen_get_result :: "('q, 'p, 'e, 'b) GenTask \<Rightarrow> (unit, 'e RpcError) result" where
  "gen_get_result t = (case g_res t of
     Some (Ok _) \<Rightarrow> Ok () | Some (Err e) \<Rightarrow> Err e | None \<Rightarrow> Err (Rpc Internal))"

definition gen_client_task ::
  "client_task_code \<Rightarrow> ('c, 'q) Codec \<Rightarrow> ('c, 'p) Codec \<Rightarrow> ('c, 'e) RpcErrCodec
   \<Rightarrow> (i32 \<Rightarrow> 'b \<Rightarrow> (nat \<times> (bytes \<Rightarrow> 'b)) option) \<Rightarrow> ('q \<Rightarrow> RpcAction)
   \<Rightarrow> ('c, ('q, 'p, 'e, 'b) GenTask) ClientTask" where
  "gen_client_task code A P E lend by_hand = \<lparr>get_action = gen_get_action code by_hand, encode_req = gen_encode_req A,
     get_req_blob = gen_get_req_blob code, decode_resp = gen_decode_resp P,
     reserve_resp_blob = gen_reserve_resp_blob code lend, set_custom_error = gen_set_custom_error E,
     set_rpc_error = gen_set_rpc_error, set_ok = gen_set_ok, task_seq = \<lambda>t. common_seq (g_common t),
     set_seq = \<lambda>n t. t\<lparr>g_common := (g_common t)\<lparr>common_seq := n\<rparr>\<rparr>\<rparr>"

lemmas gen_defs = gen_client_task_def gen_encode_req_def gen_get_req_blob_def gen_decode_resp_def
  gen_reserve_resp_blob_def gen_set_custom_error_def gen_set_rpc_error_def gen_set_ok_def gen_get_action_def
  default_get_req_blob_def default_reserve_resp_blob_def

section \<open>client\_task\_enum\<close>

text \<open>
  A variant with the types of its tuple fields (\<open>None\<close> if it is not tuple-style) and its
  attributes: the name of each, and its items if it has the form of a list.
\<close>

type_synonym variant_attr = "rstr \<times> action_meta list option"

record enum_variant =
  ev_name :: rstr
  ev_fields :: "ty list option"
  ev_attrs :: "variant_attr list"

definition variant_type :: "enum_variant \<Rightarrow> ty panics" where
  "variant_type v = (case ev_fields v of Some [t] \<Rightarrow> Returns t | _ \<Rightarrow> Panic)"

text \<open>
  The first \<open>#[action(...)]\<close> attribute whose first item can be an action. A literal must stand
  alone; a path is taken even if more items follow it.
\<close>

fun client_action_attribute :: "variant_attr list \<Rightarrow> action_meta option panics" where
  "client_action_attribute [] = Returns None"
| "client_action_attribute ((n, items) # attrs) =
    (if n \<noteq> lit ''action'' then client_action_attribute attrs
     else (case items of
             None \<Rightarrow> client_action_attribute attrs
           | Some [] \<Rightarrow> client_action_attribute attrs
           | Some (Meta_Other # _) \<Rightarrow> client_action_attribute attrs
           | Some (Const_Path v # _) \<Rightarrow> Returns (Some (Const_Path v))
           | Some (l # rest) \<Rightarrow> if rest \<noteq> [] then Panic else Returns (Some l)))"

definition client_action_arm :: "variant_attr list \<Rightarrow> RpcAction option panics" where
  "client_action_arm attrs = and_then (client_action_attribute attrs) (\<lambda>a. case a of
     None \<Rightarrow> Returns None | Some m \<Rightarrow> and_then (static_action m) (\<lambda>x. Returns (Some x)))"

text \<open>The variants in order: the inner type, for which a \<open>From\<close> is generated, and the action arm.\<close>

record enum_arm =
  ea_name :: rstr
  ea_type :: ty
  ea_action :: "RpcAction option"

fun client_enum_scan :: "ty list \<Rightarrow> enum_variant list \<Rightarrow> enum_arm list panics" where
  "client_enum_scan seen [] = Returns []"
| "client_enum_scan seen (v # vs) =
    and_then (variant_type v) (\<lambda>t.
      if t \<in> set seen then Panic
      else and_then (client_action_arm (ev_attrs v)) (\<lambda>a.
           and_then (client_enum_scan (t # seen) vs) (\<lambda>arms.
             Returns (\<lparr>ea_name = ev_name v, ea_type = t, ea_action = a\<rparr> # arms))))"

definition client_task_enum_impl :: "bool \<Rightarrow> enum_variant list \<Rightarrow> enum_arm list panics" where
  "client_task_enum_impl has_error_type vs = (if has_error_type then client_enum_scan [] vs else Panic)"

text \<open>\<open>From\<close>: the variant of an inner type.\<close>

definition enum_from :: "enum_arm list \<Rightarrow> ty \<Rightarrow> 't \<Rightarrow> (rstr \<times> 't) option" where
  "enum_from arms t task = map_option (\<lambda>n. (n, task)) (map_of (map (\<lambda>a. (ea_type a, ea_name a)) arms) t)"

text \<open>
  The generated methods delegate to the task in the variant. A value is the variant's name
  with the inner task; \<open>impls\<close> has the methods of the inner task types.
\<close>

definition enum_get_action ::
  "enum_arm list \<Rightarrow> (rstr \<Rightarrow> ('c, 't) ClientTask) \<Rightarrow> rstr \<times> 't \<Rightarrow> RpcAction" where
  "enum_get_action arms impls = (\<lambda>(v, t).
     case map_of (map (\<lambda>a. (ea_name a, ea_action a)) arms) v of
       Some (Some a) \<Rightarrow> a | _ \<Rightarrow> get_action (impls v) t)"

definition client_enum_task ::
  "enum_arm list \<Rightarrow> (rstr \<Rightarrow> ('c, 't) ClientTask) \<Rightarrow> ('c, rstr \<times> 't) ClientTask" where
  "client_enum_task arms impls = \<lparr>get_action = enum_get_action arms impls,
     encode_req = \<lambda>codec (v, t) buf. encode_req (impls v) codec t buf,
     get_req_blob = \<lambda>(v, t). get_req_blob (impls v) t,
     decode_resp = \<lambda>codec buffer (v, t). (case decode_resp (impls v) codec buffer t of (t', r) \<Rightarrow> ((v, t'), r)),
     reserve_resp_blob = \<lambda>sz (v, t). (case reserve_resp_blob (impls v) sz t of
        None \<Rightarrow> None | Some (n, fill) \<Rightarrow> Some (n, \<lambda>b. (v, fill b))),
     set_custom_error = \<lambda>codec e i ver (v, t). (v, set_custom_error (impls v) codec e i ver t),
     set_rpc_error = \<lambda>e (v, t). (v, set_rpc_error (impls v) e t),
     set_ok = \<lambda>(v, t). (v, set_ok (impls v) t),
     task_seq = \<lambda>(v, t). task_seq (impls v) t,
     set_seq = \<lambda>n (v, t). (v, set_seq (impls v) n t)\<rparr>"

section \<open>The generated code meets the contract\<close>

text \<open>A codec that only appends, and returns the size it appended.\<close>

definition codec_appends :: "('c, 'm) Codec \<Rightarrow> bool" where
  "codec_appends C \<longleftrightarrow> (\<forall>c m buf. \<exists>w. fst (codec_encode_into C c m buf) = buf @ w
     \<and> (\<forall>n. snd (codec_encode_into C c m buf) = Ok n \<longrightarrow> length w = n))"

lemma msgp_appends: "codec_appends (MsgpCodec to_vec write_named from_slice)"
  unfolding codec_appends_def
proof (intro allI)
  fix c m buf
  show "\<exists>w. fst (codec_encode_into (MsgpCodec to_vec write_named from_slice) c m buf) = buf @ w
      \<and> (\<forall>n. snd (codec_encode_into (MsgpCodec to_vec write_named from_slice) c m buf) = Ok n \<longrightarrow> length w = n)"
    by (cases "write_named m") (auto simp: MsgpCodec_def msgp_encode_into_def Let_def split: result.splits)
qed

lemma gen_client_task_laws:
  assumes "codec_appends A"
  shows "client_task_laws (gen_client_task code A P E lend by_hand :: ('c, ('q, 'p, 'e, 'b) GenTask) ClientTask)"
proof
  fix c buf buf' k and t :: "('q, 'p, 'e, 'b) GenTask"
  have w: "\<exists>w. fst (codec_encode_into A c (g_req t) buf) = buf @ w
      \<and> (\<forall>n. snd (codec_encode_into A c (g_req t) buf) = Ok n \<longrightarrow> length w = n)"
    using assms by (simp add: codec_appends_def)
  then show "\<exists>w. fst (encode_req (gen_client_task code A P E lend by_hand) c t buf) = buf @ w"
    by (auto simp: gen_defs)
  show "\<exists>msg. buf' = buf @ msg \<and> length msg = k"
    if "encode_req (gen_client_task code A P E lend by_hand) c t buf = (buf', Ok k)"
    using w that by (auto simp: gen_defs)
qed (auto simp: gen_defs split: option.splits result.splits action_src.splits)

interpretation msgp_task: client_task_laws
  "gen_client_task code (MsgpCodec to_vec write_named from_slice) resp_codec err_codec lend by_hand"
  for code and to_vec :: "'req \<Rightarrow> (bytes, 'err) result" and write_named from_slice
    and resp_codec :: "('cod, 'resp) Codec" and err_codec :: "('cod, 'user) RpcErrCodec"
    and lend :: "i32 \<Rightarrow> 'blob \<Rightarrow> (nat \<times> (bytes \<Rightarrow> 'blob)) option" and by_hand
  by (rule gen_client_task_laws [OF msgp_appends])

lemma client_enum_task_laws:
  assumes "\<And>v. client_task_laws (impls v)"
  shows "client_task_laws (client_enum_task arms impls)"
proof -
  note laws = assms [THEN client_task_laws.seq_set_seq] assms [THEN client_task_laws.seq_set_rpc_error]
    assms [THEN client_task_laws.seq_set_custom_error] assms [THEN client_task_laws.seq_set_ok]
    assms [THEN client_task_laws.action_set_seq] assms [THEN client_task_laws.blob_set_seq]
    assms [THEN client_task_laws.encode_set_seq]
  have d: "task_seq (impls v) t' = task_seq (impls v) t" if "decode_resp (impls v) c msg t = (t', r)" for v c msg t t' r
    using client_task_laws.seq_decode_resp [OF assms, of v c msg t] that by simp
  show ?thesis
  proof
    show "\<exists>msg. buf' = buf @ msg \<and> length msg = k"
      if "encode_req (client_enum_task arms impls) c t buf = (buf', Ok k)" for c t buf buf' k
      using that client_task_laws.encode_appends [OF assms] by (auto simp: client_enum_task_def split: prod.splits)
    show "\<exists>w. fst (encode_req (client_enum_task arms impls) c t buf) = buf @ w" for c t buf
      using client_task_laws.encode_keeps [OF assms] by (auto simp: client_enum_task_def split: prod.splits)
  qed (auto simp: client_enum_task_def enum_get_action_def laws dest: d client_task_laws.seq_reserve [OF assms]
      split: prod.splits option.splits)
qed

interpretation msgp_enum: client_task_laws
  "client_enum_task arms (\<lambda>v. gen_client_task (code v) (MsgpCodec to_vec write_named from_slice) resp_codec err_codec lend by_hand)"
  for arms and code :: "rstr \<Rightarrow> client_task_code" and to_vec :: "'req \<Rightarrow> (bytes, 'err) result" and write_named from_slice
    and resp_codec :: "('cod, 'resp) Codec" and err_codec :: "('cod, 'user) RpcErrCodec"
    and lend :: "i32 \<Rightarrow> 'blob \<Rightarrow> (nat \<times> (bytes \<Rightarrow> 'blob)) option" and by_hand
  by (rule client_enum_task_laws [OF gen_client_task_laws [OF msgp_appends]])

section \<open>What the macros accept\<close>

lemma unit_result_args_iff: "unit_result_args args = Returns e \<longleftrightarrow> args = [Arg_Type (Ty_Tuple []), Arg_Type e]"
  by (auto simp: unit_result_args_def split: list.splits gen_arg.splits ty.splits)

text \<open>The types \<open>Option<Result<(), RpcError<e>>>\<close> and \<open>Option<MTx<m>>\<close>, under any path.\<close>

definition result_field_type :: "ty \<Rightarrow> ty \<Rightarrow> bool" where
  "result_field_type e t \<longleftrightarrow> (\<exists>r rest re rest'. path_type (lit ''Option'') (Arg_Type r # rest) t
     \<and> path_type (lit ''Result'') [Arg_Type (Ty_Tuple []), Arg_Type re] r
     \<and> path_type (lit ''RpcError'') (Arg_Type e # rest') re)"

definition noti_field_type :: "ty \<Rightarrow> ty \<Rightarrow> bool" where
  "noti_field_type m t \<longleftrightarrow> (\<exists>tx rest rest'. path_type (lit ''Option'') (Arg_Type tx # rest) t
     \<and> path_type (lit ''MTx'') (Arg_Type m # rest') tx)"

lemma res_error_type_iff: "res_error_type t = Returns e \<longleftrightarrow> result_field_type e t"
  unfolding res_error_type_def result_field_type_def and_then_Returns path_args_of_iff first_type_iff
    unit_result_args_iff by blast

lemma noti_item_type_iff: "noti_item_type t = Returns m \<longleftrightarrow> noti_field_type m t"
  unfolding noti_item_type_def noti_field_type_def and_then_Returns path_args_of_iff first_type_iff by blast

text \<open>Every slot holds the name and type of a field that carries its tag.\<close>

definition tagged :: "struct_field list \<Rightarrow> rstr \<Rightarrow> rstr \<Rightarrow> ty \<Rightarrow> bool" where
  "tagged fs tag n t \<longleftrightarrow> (\<exists>f \<in> set fs. sf_name f = n \<and> sf_ty f = t \<and> tag \<in> set (sf_tags f))"

definition slots_tagged :: "struct_field list \<Rightarrow> collected \<Rightarrow> bool" where
  "slots_tagged fs c \<longleftrightarrow>
     (\<forall>n t. cf_common c = Some (n, t) \<longrightarrow> tagged fs (lit ''common'') n t)
   \<and> (\<forall>n. cf_req c = Some n \<longrightarrow> (\<exists>t. tagged fs (lit ''req'') n t))
   \<and> (\<forall>n t. cf_resp c = Some (n, t) \<longrightarrow> tagged fs (lit ''resp'') n t)
   \<and> (\<forall>n t. cf_res c = Some (n, t) \<longrightarrow> tagged fs (lit ''res'') n t)
   \<and> (\<forall>n t. cf_noti c = Some (n, t) \<longrightarrow> tagged fs (lit ''noti'') n t)"

lemma collect_tag_slots:
  assumes "collect_tag f tag c = Returns c'" "slots_tagged fs c" "f \<in> set fs" "tag \<in> set (sf_tags f)"
  shows "slots_tagged fs c'"
proof -
  have t: "tagged fs tag (sf_name f) (sf_ty f)" using assms(3,4) by (auto simp: tagged_def)
  show ?thesis using assms(1,2) t by (auto simp: collect_tag_def slots_tagged_def Let_def split: if_splits)
qed

lemma collect_tags_slots:
  "collect_tags f tags c = Returns c' \<Longrightarrow> slots_tagged fs c \<Longrightarrow> f \<in> set fs \<Longrightarrow> set tags \<subseteq> set (sf_tags f) \<Longrightarrow> slots_tagged fs c'"
  by (induction tags arbitrary: c) (auto simp: and_then_Returns intro: collect_tag_slots)

lemma collect_fields_slots:
  "collect_fields gs c = Returns c' \<Longrightarrow> slots_tagged fs c \<Longrightarrow> set gs \<subseteq> set fs \<Longrightarrow> slots_tagged fs c'"
proof (induction gs arbitrary: c)
  case (Cons g gs)
  then obtain d where d: "collect_tags g (sf_tags g) c = Returns d" "collect_fields gs d = Returns c'"
    by (auto simp: and_then_Returns)
  have "slots_tagged fs d" using collect_tags_slots [OF d(1) Cons.prems(2)] Cons.prems(3) by simp
  then show ?case using Cons.IH [OF d(2)] Cons.prems(3) by simp
qed simp

lemma check_option_iff: "check_option_inner_type t \<longleftrightarrow> (\<exists>u. t = Ty_Path False False [Seg (lit ''Option'') (Angle [Arg_Type u])])"
  by (induction t rule: check_option_inner_type.induct) auto

text \<open>
  C40: what \<open>client_task\<close> accepts is well-formed. When it does not reject its input, the
  generated code reads and writes fields that carry the tags \<open>common\<close>, \<open>req\<close> and \<open>resp\<close>, the
  response field is an \<open>Option\<close>; and the completion methods are generated either not at all,
  or for a field of type \<open>Option<Result<(), RpcError<E>>>\<close> with exactly that \<open>E\<close>, together
  with a notification channel \<open>Option<MTx<T>>\<close>.
\<close>

theorem client_task_accepts_well_formed:
  assumes "client_task_impl args fs = Returns code"
  shows "(\<exists>t. tagged fs (lit ''common'') (ct_common code) t) \<and> (\<exists>t. tagged fs (lit ''req'') (ct_req code) t)
    \<and> (\<exists>u. tagged fs (lit ''resp'') (ct_resp code) (Ty_Path False False [Seg (lit ''Option'') (Angle [Arg_Type u])]))
    \<and> (\<forall>res e noti m. ct_done code = Some (res, e, noti, m) \<longrightarrow>
        (\<exists>t tn. tagged fs (lit ''res'') res t \<and> result_field_type e t
          \<and> tagged fs (lit ''noti'') noti tn \<and> noti_field_type m tn))"
proof -
  obtain c dbg sa common ct req resp rt act where c: "collect_fields fs no_fields = Returns c"
      "cf_common c = Some (common, ct)" "cf_req c = Some req" "cf_resp c = Some (resp, rt)"
      "check_option_inner_type rt" "client_task_done (cf_res c) (cf_noti c) = Returns (ct_done code)"
      "ct_common code = common" "ct_req code = req" "ct_resp code = resp"
    using assms by (auto simp: client_task_impl_def and_then_Returns split: if_splits option.splits prod.splits)
  have s: "slots_tagged fs c"
    by (rule collect_fields_slots [OF c(1)]) (simp_all add: slots_tagged_def no_fields_def)
  have "\<exists>t tn. tagged fs (lit ''res'') res t \<and> result_field_type e t \<and> tagged fs (lit ''noti'') noti tn
      \<and> noti_field_type m tn" if d: "ct_done code = Some (res, e, noti, m)" for res e noti m
  proof -
    obtain t tn where "cf_res c = Some (res, t)" "cf_noti c = Some (noti, tn)" "res_error_type t = Returns e"
        "noti_item_type tn = Returns m"
      using c(6) d by (auto simp: client_task_done_def and_then_Returns split: option.splits prod.splits)
    then show ?thesis using s by (auto simp: slots_tagged_def res_error_type_iff noti_item_type_iff)
  qed
  moreover have "\<exists>u. rt = Ty_Path False False [Seg (lit ''Option'') (Angle [Arg_Type u])]"
    using c(5) by (simp add: check_option_iff)
  ultimately show ?thesis using s c(2-4,7-9) by (auto simp: slots_tagged_def)
qed

section \<open>Enums\<close>

lemma client_enum_scan_types:
  "client_enum_scan seen vs = Returns arms \<Longrightarrow>
     distinct (map ea_type arms) \<and> set (map ea_type arms) \<inter> set seen = {} \<and> map ea_name arms = map ev_name vs"
proof (induction vs arbitrary: seen arms)
  case (Cons v vs)
  then obtain t a as where t: "t \<notin> set seen" "client_enum_scan (t # seen) vs = Returns as"
      "arms = \<lparr>ea_name = ev_name v, ea_type = t, ea_action = a\<rparr> # as"
    by (auto simp: and_then_Returns split: if_splits)
  show ?case using Cons.IH [OF t(2)] t(1,3) by auto
qed simp

text \<open>The generated \<open>From\<close> implementations do not overlap: each wraps its type in its own variant.\<close>

lemma enum_from_variant:
  assumes "client_task_enum_impl has_error vs = Returns arms" "arm \<in> set arms"
  shows "enum_from arms (ea_type arm) task = Some (ea_name arm, task)"
proof -
  have "distinct (map ea_type arms)"
    using assms(1) client_enum_scan_types [of "[]" vs arms] by (simp add: client_task_enum_impl_def split: if_splits)
  then have "map_of (map (\<lambda>a. (ea_type a, ea_name a)) arms) (ea_type arm) = Some (ea_name arm)"
    using assms(2) by (intro map_of_is_SomeI) (auto simp: comp_def)
  then show ?thesis by (simp add: enum_from_def)
qed

section \<open>Answers\<close>

lemma gen_rpc_error_received:
  assumes "rpc_err_codec E valid" "valid e"
  shows "\<exists>e'. received_err (err_encode E codec e) = e' \<and> (\<forall>i. e' \<noteq> ERpc i) \<and> gen_rpc_error E codec e' = User e"
  using rpc_err_codec.received_num_or_buf [OF assms, of codec] by (auto simp: gen_rpc_error_def)

text \<open>The buffer lent for a blob has the size of the blob.\<close>

definition lends_exactly :: "(i32 \<Rightarrow> 'b \<Rightarrow> (nat \<times> (bytes \<Rightarrow> 'b)) option) \<Rightarrow> bool" where
  "lends_exactly lend \<longleftrightarrow> (\<forall>sz b n fill. lend sz b = Some (n, fill) \<longrightarrow> 0 < sint sz \<longrightarrow> n = nat (sint sz))"

lemma gen_reserves: "lends_exactly lend \<Longrightarrow> reserves_exactly (gen_client_task code A P E lend by_hand)"
  by (auto simp: lends_exactly_def reserves_exactly_def gen_defs split: option.splits)

text \<open>What a handler's result becomes in a task of the client.\<close>

lemma gen_deliver_err:
  assumes "rpc_err_codec E valid_e" "valid_e e"
  shows "gen_get_result (fact_task (deliver (gen_client_task code A P E lend by_hand) codec (Err (err_encode E codec e)) t))
    = Err (User e)"
proof -
  obtain e' where e: "received_err (err_encode E codec e) = e'" "\<forall>i. e' \<noteq> ERpc i" "gen_rpc_error E codec e' = User e"
    using gen_rpc_error_received [OF assms] by blast
  then show ?thesis by (cases e') (simp_all add: deliver_def deliver_err_def gen_defs gen_get_result_def)
qed

section \<open>Witnesses\<close>

definition demo_ty :: ty where
  "demo_ty = Ty_Path False False [Seg (lit ''Option'') (Angle [Arg_Type (Ty_Tuple [])])]"

definition demo_fields :: "struct_field list" where
  "demo_fields = [\<lparr>sf_name = lit ''c'', sf_ty = Ty_Other [], sf_tags = [lit ''common'']\<rparr>,
     \<lparr>sf_name = lit ''q'', sf_ty = Ty_Other [], sf_tags = [lit ''req'']\<rparr>,
     \<lparr>sf_name = lit ''p'', sf_ty = demo_ty, sf_tags = [lit ''resp'']\<rparr>,
     \<lparr>sf_name = lit ''b'', sf_ty = Ty_Other [], sf_tags = [lit ''resp_blob'']\<rparr>]"

definition demo_code :: client_task_code where
  "demo_code = \<lparr>ct_common = lit ''c'', ct_req = lit ''q'', ct_resp = lit ''p'', ct_req_blob = None,
     ct_resp_blob = Some (lit ''b''), ct_action = Static_Action (Num 5), ct_done = None, ct_debug = False\<rparr>"

lemma demo_expands: "client_task_impl [Action_Arg (Lit_Int 5)] demo_fields = Returns demo_code"
  by (simp add: client_task_impl_def demo_fields_def demo_code_def demo_ty_def collect_tag_def no_fields_def
      client_task_action_def client_task_done_def static_action_def lit_def)

theorem client_task_accepts_well_formed_witness:
  "tagged demo_fields (lit ''resp'') (lit ''p'') demo_ty \<and> (\<exists>t. tagged demo_fields (lit ''req'') (lit ''q'') t)"
  using client_task_accepts_well_formed [OF demo_expands]
  by (auto simp: demo_code_def demo_ty_def demo_fields_def tagged_def)

end
