(* ===== verification/Server_Enum.thy ===== *)
theory Server_Enum
  imports Task_Macros
begin

text \<open>
  The macro \<open>server_task_enum\<close> of \<open>src/stream/macros/src/server_task_enum.rs\<close>: the checks it
  makes at compile time, and the code it generates for an enum of server tasks, which picks
  the variant of a request by its action and delegates encoding and completion to it.
\<close>

section \<open>The attributes\<close>

datatype attr_token = Tok_Req | Tok_Resp | Tok_Resp_Type ty | Tok_Error ty | Tok_Comma | Tok_Unexpected

record ServerTaskEnumAttrs =
  at_req :: bool
  at_resp :: bool
  at_resp_type :: "ty option"
  at_error :: ty

fun parse_attrs ::
  "attr_token list \<Rightarrow> bool \<Rightarrow> bool \<Rightarrow> ty option \<Rightarrow> ty option \<Rightarrow> ServerTaskEnumAttrs panics" where
  "parse_attrs [] req resp resp_type error = (case error of
     None \<Rightarrow> Panic
   | Some e \<Rightarrow> Returns \<lparr>at_req = req, at_resp = resp, at_resp_type = resp_type, at_error = e\<rparr>)"
| "parse_attrs (Tok_Req # ts) req resp resp_type error = parse_attrs ts True resp resp_type error"
| "parse_attrs (Tok_Resp # ts) req resp resp_type error = parse_attrs ts req True resp_type error"
| "parse_attrs (Tok_Resp_Type t # ts) req resp resp_type error = parse_attrs ts req resp (Some t) error"
| "parse_attrs (Tok_Error t # ts) req resp resp_type error = parse_attrs ts req resp resp_type (Some t)"
| "parse_attrs (Tok_Comma # ts) req resp resp_type error = parse_attrs ts req resp resp_type error"
| "parse_attrs (Tok_Unexpected # ts) req resp resp_type error = Panic"

section \<open>The variants\<close>

text \<open>A variant with its actions; without \<open>req\<close> the actions are not looked at.\<close>

record server_arm =
  sm_name :: rstr
  sm_type :: ty
  sm_actions :: "RpcAction list"

fun all_actions :: "action_meta list \<Rightarrow> RpcAction list panics" where
  "all_actions [] = Returns []"
| "all_actions (m # ms) = and_then (static_action m) (\<lambda>a. and_then (all_actions ms) (\<lambda>as. Returns (a # as)))"

text \<open>\<open>get_action_attribute\<close>: the items of the first \<open>#[action(...)]\<close> attribute that has any.\<close>

fun server_action_attribute :: "variant_attr list \<Rightarrow> action_meta list" where
  "server_action_attribute [] = []"
| "server_action_attribute ((n, items) # attrs) =
    (case items of
       Some (m # ms) \<Rightarrow> if n = lit ''action'' then m # ms else server_action_attribute attrs
     | _ \<Rightarrow> server_action_attribute attrs)"

definition variant_actions :: "bool \<Rightarrow> enum_variant \<Rightarrow> RpcAction list panics" where
  "variant_actions has_req v = (if \<not> has_req then Returns []
     else (let actions = server_action_attribute (ev_attrs v)
           in if actions = [] then Panic else all_actions actions))"

fun variant_types :: "enum_variant list \<Rightarrow> ty list panics" where
  "variant_types [] = Returns []"
| "variant_types (v # vs) = and_then (variant_type v) (\<lambda>t. and_then (variant_types vs) (\<lambda>ts. Returns (t # ts)))"

text \<open>\<open>types\<close> has the inner types of all variants; each must occur once.\<close>

fun server_enum_scan :: "bool \<Rightarrow> ty list \<Rightarrow> enum_variant list \<Rightarrow> server_arm list panics" where
  "server_enum_scan has_req types [] = Returns []"
| "server_enum_scan has_req types (v # vs) =
    and_then (variant_type v) (\<lambda>t.
    and_then (variant_actions has_req v) (\<lambda>as.
      if count_list types t > 1 then Panic
      else and_then (server_enum_scan has_req types vs) (\<lambda>arms.
             Returns (\<lparr>sm_name = ev_name v, sm_type = t, sm_actions = as\<rparr> # arms))))"

definition server_task_enum_impl :: "attr_token list \<Rightarrow> enum_variant list \<Rightarrow> (ServerTaskEnumAttrs \<times> server_arm list) panics" where
  "server_task_enum_impl toks vs =
    and_then (variant_types vs) (\<lambda>types.
    and_then (parse_attrs toks False False None None) (\<lambda>attrs.
      if (if at_resp attrs then at_resp_type attrs \<noteq> None else at_resp_type attrs = None) then Panic
      else and_then (server_enum_scan (at_req attrs) types vs) (\<lambda>arms. Returns (attrs, arms))))"

section \<open>The generated code\<close>

text \<open>
  A value is the name of the variant with the inner task. \<open>decode_req\<close> tries the arms in
  order; \<open>decoders\<close>, \<open>actions\<close> and \<open>impls\<close> are the inner types' own methods.
\<close>

type_synonym ('c, 't) decoder = "'c \<Rightarrow> RpcAction \<Rightarrow> u64 \<Rightarrow> bytes \<Rightarrow> bytes option \<Rightarrow> ('t, unit) result"

fun server_enum_decode :: "server_arm list \<Rightarrow> (rstr \<Rightarrow> ('c, 't) decoder) \<Rightarrow> ('c, rstr \<times> 't) decoder" where
  "server_enum_decode [] decoders codec action seq req blob = Err ()"
| "server_enum_decode (arm # arms) decoders codec action seq req blob =
    (if action \<in> set (sm_actions arm)
     then (case decoders (sm_name arm) codec action seq req blob of
             Err e \<Rightarrow> Err e | Ok task \<Rightarrow> Ok (sm_name arm, task))
     else server_enum_decode arms decoders codec action seq req blob)"

definition server_enum_get_action ::
  "server_arm list \<Rightarrow> (rstr \<Rightarrow> 't \<Rightarrow> RpcAction) \<Rightarrow> rstr \<times> 't \<Rightarrow> RpcAction" where
  "server_enum_get_action arms actions = (\<lambda>(v, t).
     case map_of (map (\<lambda>a. (sm_name a, sm_actions a)) arms) v of
       Some [a] \<Rightarrow> a | _ \<Rightarrow> actions v t)"

definition server_enum_task :: "(rstr \<Rightarrow> ('c, 't) ServerTaskEncode) \<Rightarrow> ('c, rstr \<times> 't) ServerTaskEncode" where
  "server_enum_task impls = \<lparr>encode_resp = \<lambda>codec (v, t) buf. encode_resp (impls v) codec t buf\<rparr>"

definition server_enum_set_result ::
  "(rstr \<Rightarrow> (unit, 'e) result \<Rightarrow> 't \<Rightarrow> 't panics) \<Rightarrow> (unit, 'e) result \<Rightarrow> rstr \<times> 't \<Rightarrow> (rstr \<times> 't) panics" where
  "server_enum_set_result set_results res = (\<lambda>(v, t). and_then (set_results v res t) (\<lambda>t'. Returns (v, t')))"

section \<open>The contract is met\<close>

lemma server_enum_laws:
  assumes "\<And>v. server_task_laws (impls v) (ready v) (seq_of v) (answer v)"
  shows "server_task_laws (server_enum_task impls) (\<lambda>(v, t). ready v t) (\<lambda>(v, t). seq_of v t) (\<lambda>c (v, t). answer v c t)"
  by unfold_locales
     (auto simp: server_enum_task_def server_task_laws.encode_resp_spec [OF assms] split: prod.splits)

interpretation enum_resp: server_task_laws "server_enum_task (\<lambda>_. svr_resp_task)"
  "\<lambda>(v, t). svr_resp_ready t" "\<lambda>(v, t). resp_seq t" "\<lambda>c (v, t). svr_resp_answer c t"
  by (rule server_enum_laws [OF svr_resp.server_task_laws_axioms])

section \<open>Dispatch by action\<close>

text \<open>Expansion accepts only variants with one inner type each, all different, and with actions.\<close>

lemma all_actions_Nil: "all_actions ms = Returns [] \<longleftrightarrow> ms = []"
  by (cases ms) (auto simp: and_then_Returns)

lemma server_enum_scan_arms:
  assumes "server_enum_scan has_req types vs = Returns arms"
  shows "map sm_name arms = map ev_name vs
    \<and> (\<forall>arm \<in> set arms. count_list types (sm_type arm) \<le> 1 \<and> (has_req \<longrightarrow> sm_actions arm \<noteq> []))"
  using assms
proof (induction vs arbitrary: arms)
  case (Cons v vs)
  then obtain t as arms' where t: "variant_actions has_req v = Returns as" "\<not> count_list types t > 1"
      "server_enum_scan has_req types vs = Returns arms'"
      "arms = \<lparr>sm_name = ev_name v, sm_type = t, sm_actions = as\<rparr> # arms'"
    by (auto simp: and_then_Returns split: if_splits)
  have "has_req \<longrightarrow> as \<noteq> []" using t(1) by (auto simp: variant_actions_def Let_def all_actions_Nil split: if_splits)
  then show ?case using Cons.IH [OF t(3)] t(2,4) by simp
qed simp

lemma server_enum_decode_find:
  "server_enum_decode arms decoders codec action seq req blob =
    (case find (\<lambda>arm. action \<in> set (sm_actions arm)) arms of
       None \<Rightarrow> Err ()
     | Some arm \<Rightarrow> (case decoders (sm_name arm) codec action seq req blob of
         Err e \<Rightarrow> Err e | Ok task \<Rightarrow> Ok (sm_name arm, task)))"
  by (induction arms) auto

lemma server_enum_action_of_arm:
  assumes "distinct (map sm_name arms)" "arm \<in> set arms" "action \<in> set (sm_actions arm)" "actions (sm_name arm) t = action"
  shows "server_enum_get_action arms actions (sm_name arm, t) = action"
proof -
  have "map_of (map (\<lambda>a. (sm_name a, sm_actions a)) arms) (sm_name arm) = Some (sm_actions arm)"
    using assms(1,2) by (intro map_of_is_SomeI) (auto simp: comp_def)
  then show ?thesis using assms(3,4) by (auto simp: server_enum_get_action_def split: list.splits)
qed

text \<open>
  C22: the generated enum serves each action by the first variant that lists it. A request is
  decoded by that variant's own decoder and remembers its action: \<open>get_action\<close> of the decoded
  task is the action of the request, whether the variant has one action or several. A request
  whose action no variant lists is refused. Expansion has made sure that every variant lists
  an action and that no two variants have the same inner type.
\<close>

theorem server_enum_serves_action:
  assumes "server_task_enum_impl toks vs = Returns (attrs, arms)" "at_req attrs" "distinct (map ev_name vs)"
    and "\<And>v codec a seq req blob t. decoders v codec a seq req blob = Ok t \<Longrightarrow> actions v t = a"
  shows "((\<forall>arm \<in> set arms. action \<notin> set (sm_actions arm)) \<longrightarrow>
        server_enum_decode arms decoders codec action seq req blob = Err ())
    \<and> (\<forall>i < length arms. action \<in> set (sm_actions (arms ! i)) \<and> (\<forall>j < i. action \<notin> set (sm_actions (arms ! j))) \<longrightarrow>
        (case decoders (sm_name (arms ! i)) codec action seq req blob of
           Err _ \<Rightarrow> server_enum_decode arms decoders codec action seq req blob = Err ()
         | Ok t \<Rightarrow> server_enum_decode arms decoders codec action seq req blob = Ok (sm_name (arms ! i), t)
             \<and> server_enum_get_action arms actions (sm_name (arms ! i), t) = action))
    \<and> (\<forall>arm \<in> set arms. sm_actions arm \<noteq> [])"
proof -
  obtain types where scan: "server_enum_scan (at_req attrs) types vs = Returns arms"
    using assms(1) by (auto simp: server_task_enum_impl_def and_then_Returns split: if_splits)
  have names: "distinct (map sm_name arms)" and acts: "\<forall>arm \<in> set arms. sm_actions arm \<noteq> []"
    using server_enum_scan_arms [OF scan] assms(2,3) by simp_all
  have none: "find (\<lambda>arm. action \<in> set (sm_actions arm)) arms = None" if "\<forall>arm \<in> set arms. action \<notin> set (sm_actions arm)"
    using that by (simp add: find_None_iff)
  have some: "find (\<lambda>arm. action \<in> set (sm_actions arm)) arms = Some (arms ! i)"
    if "i < length arms" "action \<in> set (sm_actions (arms ! i))" "\<forall>j < i. action \<notin> set (sm_actions (arms ! j))" for i
    using that by (auto simp: find_Some_iff)
  have "server_enum_get_action arms actions (sm_name (arms ! i), t) = action"
    if "i < length arms" "action \<in> set (sm_actions (arms ! i))" "decoders (sm_name (arms ! i)) codec action seq req blob = Ok t" for i t
    using server_enum_action_of_arm [OF names nth_mem [OF that(1)] that(2)] assms(4) [OF that(3)] .
  then show ?thesis using none some acts
    by (auto simp: server_enum_decode_find split: result.splits)
qed

definition demo_variants :: "enum_variant list" where
  "demo_variants = [\<lparr>ev_name = lit ''Open'', ev_fields = Some [Ty_Other [1]], ev_attrs = [(lit ''action'', Some [Lit_Int 1])]\<rparr>,
     \<lparr>ev_name = lit ''Data'', ev_fields = Some [Ty_Other [2]], ev_attrs = [(lit ''action'', Some [Lit_Str (lit ''read''), Lit_Str (lit ''write'')])]\<rparr>]"

definition demo_arms :: "server_arm list" where
  "demo_arms = [\<lparr>sm_name = lit ''Open'', sm_type = Ty_Other [1], sm_actions = [Num 1]\<rparr>,
     \<lparr>sm_name = lit ''Data'', sm_type = Ty_Other [2], sm_actions = [Str (lit ''read''), Str (lit ''write'')]\<rparr>]"

definition demo_attrs :: ServerTaskEnumAttrs where
  "demo_attrs = \<lparr>at_req = True, at_resp = True, at_resp_type = None, at_error = Ty_Tuple []\<rparr>"

lemma demo_enum_expands:
  "server_task_enum_impl [Tok_Req, Tok_Comma, Tok_Resp, Tok_Comma, Tok_Error (Ty_Tuple [])] demo_variants
    = Returns (demo_attrs, demo_arms)"
  by (simp add: server_task_enum_impl_def demo_variants_def demo_arms_def demo_attrs_def variant_type_def
      variant_actions_def static_action_def Let_def)

theorem server_enum_serves_action_witness:
  "server_enum_decode demo_arms (\<lambda>_. variant_decode_req raw_codec) () (Str (lit ''write'')) 3 [7] None
    = Ok (lit ''Data'', (\<lparr>v_seq = 3, v_action = StrOwned (lit ''write''), v_msg = [7], v_blob = None, v_res = None,
        v_has_noti = True\<rparr> :: (bytes, unit) ServerTaskVariant))"
proof -
  have d: "at_req demo_attrs" "distinct (map ev_name demo_variants)" by (simp_all add: demo_attrs_def demo_variants_def lit_def)
  have k: "variant_get_action t = a" if "variant_decode_req raw_codec codec a seq req blob = Ok t"
    for codec :: unit and a seq req blob and t :: "(bytes, unit) ServerTaskVariant"
    using that by (auto simp: variant_decode_req_def variant_get_action_def split: result.splits)
  show ?thesis
    using server_enum_serves_action [where decoders = "\<lambda>_. variant_decode_req raw_codec" and actions = "\<lambda>_. variant_get_action"
        and action = "Str (lit ''write'')" and seq = 3 and req = "[7]" and blob = None and codec = "()",
        OF demo_enum_expands d k]
    by (auto simp: demo_arms_def raw_codec_def variant_decode_req_def lit_def less_Suc_eq split: result.splits)
qed

end
