(* ===== verification/Typed_Call.thy ===== *)
theory Typed_Call
  imports Remote_Call Server_Enum
begin

text \<open>
  Typed requests through both sides: a task of a \<open>client_task_enum\<close> is served by the variant of
  a \<open>server_task_enum\<close> that lists its action, and gets back what the handler said.
\<close>

section \<open>The client's enum\<close>

lemma enum_fields [simp]:
  "get_req_blob (client_enum_task arms impls) (v, t) = get_req_blob (impls v) t"
  "task_seq (client_enum_task arms impls) (v, t) = task_seq (impls v) t"
  "set_seq (client_enum_task arms impls) n (v, t) = (v, set_seq (impls v) n t)"
  "encode_req (client_enum_task arms impls) codec (v, t) buf = encode_req (impls v) codec t buf"
  by (simp_all add: client_enum_task_def)

lemma enum_deliver:
  "deliver (client_enum_task arms impls) codec ans (v, t) = map_fact (Pair v) (deliver (impls v) codec ans t)"
  by (auto simp: deliver_def deliver_err_def deliver_msg_def client_enum_task_def
      split: result.splits prod.splits EncodedErr.splits option.splits)

lemma fact_task_map [simp]: "fact_task (map_fact f x) = f (fact_task x)"
  by (cases x) simp_all

lemma enum_reserves:
  "(\<And>v. reserves_exactly (impls v)) \<Longrightarrow> reserves_exactly (client_enum_task arms impls)"
  by (fastforce simp: reserves_exactly_def client_enum_task_def split: option.splits)

lemma decode_encoded:
  assumes "codec_ok C valid" "valid m"
  shows "codec_decode C codec (encoded C codec m) = Ok m"
proof -
  obtain b where "codec_encode C codec m = Ok b" "codec_decode C codec b = Ok m" by (rule codec_okD [OF assms])
  then show ?thesis by (simp add: encoded_def)
qed

section \<open>Handlers\<close>

text \<open>
  A handler of the server: it fills in the response and its blob and sets the result, which sends
  the task to the writer (\<open>ServerTaskDone::set_result\<close>).
\<close>

type_synonym ('q, 'p, 'e) handler =
  "rstr \<Rightarrow> ('q, 'p, 'e) ServerTaskVariantFull \<Rightarrow> 'p option \<times> bytes option \<times> (unit, 'e) result"

definition finish_task ::
  "('q, 'p, 'e) handler \<Rightarrow> rstr \<times> ('q, 'p, 'e) ServerTaskVariantFull \<Rightarrow> (rstr \<times> ('q, 'p, 'e) ServerTaskVariantFull) panics" where
  "finish_task h = (\<lambda>(s, st). case h s st of (p, b, r) \<Rightarrow>
     server_enum_set_result (\<lambda>_. full_set_result_only) r (s, st\<lparr>f_resp := p, f_resp_blob := b\<rparr>))"

definition typed_dispatch ::
  "server_arm list \<Rightarrow> (rstr \<Rightarrow> ('c, 'q) Codec) \<Rightarrow> ('q, 'p, 'e) handler
   \<Rightarrow> ('c, rstr \<times> ('q, 'p, 'e) ServerTaskVariantFull, 'j) Dispatch" where
  "typed_dispatch arms SA h = closure_dispatch (server_enum_decode arms (\<lambda>s. full_decode_req (SA s)))
     (\<lambda>task noti. and_then (finish_task h task) (\<lambda>task'. Returns (noti_done task' noti, [], Ok ())))"

text \<open>What the client finds in its task, by what the handler said.\<close>

definition blob_taken ::
  "client_task_code \<Rightarrow> (i32 \<Rightarrow> 'b \<Rightarrow> (nat \<times> (bytes \<Rightarrow> 'b)) option) \<Rightarrow> bytes option \<Rightarrow> 'b \<Rightarrow> 'b \<Rightarrow> bool" where
  "blob_taken code lend blob b b' \<longleftrightarrow> (if opt_bytes blob = [] then b' = b
     else ct_resp_blob code \<noteq> None
       \<and> (\<exists>n fill. lend (of_nat (length (opt_bytes blob))) b = Some (n, fill) \<and> b' = fill (opt_bytes blob)))"

definition task_result ::
  "client_task_code \<Rightarrow> (i32 \<Rightarrow> 'b \<Rightarrow> (nat \<times> (bytes \<Rightarrow> 'b)) option) \<Rightarrow> 'p option \<times> bytes option \<times> (unit, 'e) result
   \<Rightarrow> ('q, 'p, 'e, 'b) GenTask \<Rightarrow> ('q, 'p, 'e, 'b) GenTask \<Rightarrow> bool" where
  "task_result code lend said t t' \<longleftrightarrow> (case said of
     (p, blob, Err e) \<Rightarrow> gen_get_result t' = Err (User e)
   | (p, blob, Ok _) \<Rightarrow> gen_get_result t' = Ok () \<and> g_resp t' = (if p = None then g_resp t else p)
       \<and> blob_taken code lend blob (g_resp_blob t) (g_resp_blob t'))"

definition said_answer ::
  "('c, 'p) Codec \<Rightarrow> ('c, 'e) RpcErrCodec \<Rightarrow> 'c \<Rightarrow> 'p option \<times> bytes option \<times> (unit, 'e) result
   \<Rightarrow> (bytes \<times> bytes option, EncodedErr) result" where
  "said_answer P E codec said = (case said of (p, blob, Err e) \<Rightarrow> Err (err_encode E codec e)
     | (p, blob, Ok _) \<Rightarrow> Ok (case p of Some x \<Rightarrow> encoded P codec x | None \<Rightarrow> [], blob))"

text \<open>
  What a handler may say: a response its codec can carry as at least one byte, a blob only for a
  task that has a buffer for it, or an error its codec can carry.
\<close>

definition sayable ::
  "('c, 'p) Codec \<Rightarrow> ('p \<Rightarrow> bool) \<Rightarrow> ('c, 'e) RpcErrCodec \<Rightarrow> ('e \<Rightarrow> bool) \<Rightarrow> client_task_code
   \<Rightarrow> (i32 \<Rightarrow> 'b \<Rightarrow> (nat \<times> (bytes \<Rightarrow> 'b)) option) \<Rightarrow> 'c \<Rightarrow> ('q, 'p, 'e, 'b) GenTask
   \<Rightarrow> 'p option \<times> bytes option \<times> (unit, 'e) result \<Rightarrow> bool" where
  "sayable P valid_p E valid_e code lend codec t said \<longleftrightarrow> sendable (said_answer P E codec said)
     \<and> (case said of (p, blob, Err e) \<Rightarrow> valid_e e
       | (p, blob, Ok _) \<Rightarrow> (\<forall>x. p = Some x \<longrightarrow> valid_p x \<and> encoded P codec x \<noteq> [])
           \<and> (opt_bytes blob \<noteq> [] \<longrightarrow> ct_resp_blob code \<noteq> None
               \<and> lend (of_nat (length (opt_bytes blob))) (g_resp_blob t) \<noteq> None))"

lemma gen_deliver_said:
  assumes "codec_ok P valid_p" "rpc_err_codec E valid_e" "sayable P valid_p E valid_e code lend codec t said"
  shows "task_result code lend said t
    (fact_task (deliver (gen_client_task code A P E lend by_hand) codec (said_answer P E codec said) t))"
proof -
  obtain p blob r where said: "said = (p, blob, r)" by (cases said)
  show ?thesis
  proof (cases r)
    case (Err e)
    then show ?thesis using assms(3) said gen_deliver_err [OF assms(2), of e code A P lend by_hand codec t]
      by (simp add: task_result_def sayable_def said_answer_def)
  next
    case (Ok u)
    have d: "codec_decode P codec (encoded P codec x) = Ok x" if "p = Some x" for x
      using assms(3) that said Ok by (intro decode_encoded [OF assms(1)]) (simp add: sayable_def)
    show ?thesis using assms(3) said Ok d
      by (auto simp: sayable_def said_answer_def task_result_def blob_taken_def deliver_def deliver_msg_def gen_defs gen_get_result_def split: option.splits)
  qed
qed

section \<open>A typed call\<close>

lemma typed_request:
  assumes "codec_ok A valid" "valid (g_req t)" "length room = 32"
    "length (encoded A codec (g_req t)) \<le> u32_max" "length (opt_bytes (gen_get_req_blob code t)) \<le> i32_max"
    "impls v = gen_client_task code A P E lend by_hand" "CT = client_enum_task arms impls"
  obtains buf where "req_encode CT codec room cid (v, t) = Returns (buf, Ok (gen_get_req_blob code t))"
    "buf @ opt_bytes (gen_get_req_blob code t) = req_frame cid (common_seq (g_common t)) (get_action CT (v, t))
       (encoded A codec (g_req t)) (gen_get_req_blob code t)"
    "codec_decode A codec (encoded A codec (g_req t)) = Ok (g_req t)"
proof -
  let ?msg = "encoded A codec (g_req t)"
  have e: "encode_req CT codec (v, t) b = (b @ ?msg, Ok (length ?msg))" for b
    using codec_ok_into [OF assms(1,2)] assms(6,7) by (simp add: gen_client_task_def gen_encode_req_def)
  have f: "get_req_blob CT (v, t) = gen_get_req_blob code t" "task_seq CT (v, t) = common_seq (g_common t)"
    using assms(6,7) by (simp_all add: gen_client_task_def)
  obtain buf where "req_encode CT codec room cid (v, t) = Returns (buf, Ok (get_req_blob CT (v, t)))"
      "buf @ opt_bytes (get_req_blob CT (v, t))
        = req_frame cid (task_seq CT (v, t)) (get_action CT (v, t)) ?msg (get_req_blob CT (v, t))"
    using req_encode_Ok [of room CT codec "(v, t)" ?msg cid] e assms(3-5) unfolding f
    by (auto simp: RPC_REQ_HEADER_LEN_def)
  then show thesis unfolding f by (rule that) (rule decode_encoded [OF assms(1,2)])
qed

text \<open>The task a request becomes, and what it is once the handler has finished it.\<close>

definition decoded_task :: "u64 \<Rightarrow> RpcAction \<Rightarrow> 'q \<Rightarrow> bytes option \<Rightarrow> ('q, 'p, 'e) ServerTaskVariantFull" where
  "decoded_task seq action req blob = \<lparr>f_seq = seq, f_action = action_into_owned action, f_req = req,
     f_req_blob = if opt_bytes blob = [] then None else blob, f_resp = None, f_resp_blob = None, f_res = None,
     f_has_noti = True\<rparr>"

lemma typed_served:
  fixes st :: "('q, 'p, 'e) ServerTaskVariantFull"
  assumes "i < length arms" "action \<in> set (sm_actions (arms ! i))" "\<forall>j < i. action \<notin> set (sm_actions (arms ! j))"
    and "s = sm_name (arms ! i)" "codec_decode (SA s) codec msg = Ok req"
    and "st = decoded_task seq action req blob" "h s st = (p, b, r)"
  shows "dispatch_req (typed_dispatch arms SA h) codec
      \<lparr>req_seq = seq, req_action = action, req_msg = msg, req_blob = if opt_bytes blob = [] then None else blob\<rparr> q
    = Returns (noti_done (s, st\<lparr>f_resp := p, f_resp_blob := b, f_res := Some r, f_has_noti := False\<rparr>) q, [], Ok ())"
proof -
  have "find (\<lambda>arm. action \<in> set (sm_actions arm)) arms = Some (arms ! i)"
    using assms(1-3) by (auto simp: find_Some_iff)
  then have "server_enum_decode arms (\<lambda>s. full_decode_req (SA s)) codec action seq msg
      (if opt_bytes blob = [] then None else blob) = Ok (s, st)"
    using assms(4-6) by (simp add: server_enum_decode_find full_decode_req_def decoded_task_def)
  then show ?thesis using assms(6,7)
    by (simp add: typed_dispatch_def closure_dispatch_def closure_dispatch_req_def finish_task_def
        server_enum_set_result_def full_set_result_only_def decoded_task_def)
qed

lemma finished_answer:
  assumes "f_resp st = p" "f_resp_blob st = b" "f_res st = Some r"
  shows "full_answer P E codec st = said_answer P E codec (p, b, r)"
  using assms by (auto simp: full_answer_def said_answer_def split: result.splits option.splits)

lemma finished_ready:
  assumes "sayable P valid_p E valid_e code lend codec t (p, b, r)" "f_resp st = p" "f_res st = Some r"
  shows "full_ready valid_p st"
  using assms by (auto simp: full_ready_def sayable_def split: result.splits)

text \<open>
  The two halves of a typed call: what the server's connection does with the frame of a request,
  and what the client does with the frame of the handler's answer.
\<close>

lemma typed_server_turns:
  fixes c :: "(_ TcpServer, rstr \<times> ('q, 'p, 'e) ServerTaskVariantFull, 'j) SvrConn" and t :: "('q, 'p, 'e, 'b) GenTask"
  assumes "\<And>s. codec_ok (SP s) (valid_p s)"
    and arm: "i < length arms" "action \<in> set (sm_actions (arms ! i))" "\<forall>j < i. action \<notin> set (sm_actions (arms ! j))"
      "s = sm_name (arms ! i)"
    and decodes: "codec_decode (SA s) codec msg = Ok req"
    and said: "said = h s (decoded_task seq action req blob)" "sayable (SP s) (valid_p s) E valid_e code lend codec t said"
    and sockets: "byte_stream io arrived" "byte_sink io written"
    and c: "conn_idle c" "arrived (sv_stream (sc_conn c)) = req_frame cid seq action msg blob @ rest"
    and fits: "action_ok action" "length msg \<le> u32_max" "length (opt_bytes blob) \<le> i32_max" "\<not> (action = Num 0 \<and> msg = [])"
  shows "\<exists>c1 c2 rq st. reader_turn (tcp_server_transport (server_enum_task (\<lambda>s. full_task (SP s) E)) io)
            (typed_dispatch arms SA h :: ('c, _, 'j) Dispatch) codec cancel c = Returns (c1, [rq])
          \<and> arrived (sv_stream (sc_conn c1)) = rest
          \<and> writer_turn (tcp_server_transport (server_enum_task (\<lambda>s. full_task (SP s) E)) io) codec c1 = Returns (c2, [Ok (s, st)])
          \<and> f_req st = req
          \<and> written (sv_stream (sc_conn c2)) = written (sv_stream (sc_conn c1)) @ answer_frame seq (said_answer (SP s) E codec said)"
proof -
  obtain p b r where pbr: "h s (decoded_task seq action req blob) = (p, b, r)" by (metis prod_cases3)
  let ?st = "(decoded_task seq action req blob)\<lparr>f_resp := p, f_resp_blob := b, f_res := Some r, f_has_noti := False\<rparr>"
  let ?ans = "said_answer (SP s) E codec said"
  have fin: "f_resp ?st = p" "f_resp_blob ?st = b" "f_res ?st = Some r" "f_seq ?st = seq" "f_req ?st = req"
    by (simp_all add: decoded_task_def)
  have laws: "server_task_laws (server_enum_task (\<lambda>s. full_task (SP s) E)) (\<lambda>(s, st). full_ready (valid_p s) st)
      (\<lambda>(s, st). f_seq st) (\<lambda>c (s, st). full_answer (SP s) E c st)"
    by (rule server_enum_laws [OF full_laws [OF assms(1)]])
  have sayd: "sayable (SP s) (valid_p s) E valid_e code lend codec t (p, b, r)" using said pbr by simp
  have ans: "full_ready (valid_p s) ?st" "full_answer (SP s) E codec ?st = ?ans" "answer_fits ?ans"
    using finished_ready [OF sayd fin(1,3)] finished_answer [OF fin(1-3), of "SP s" E codec] said pbr sayd
      sendable_fits [of ?ans]
    by (simp_all add: sayable_def)
  have served: "\<And>q. dispatch_req (typed_dispatch arms SA h) codec \<lparr>req_seq = seq, req_action = action, req_msg = msg,
        req_blob = if opt_bytes blob = [] then None else blob\<rparr> q = Returns (noti_done (s, ?st) q, [], Ok ())"
    by (rule typed_served [OF arm]) (use decodes pbr in auto)
  from conn_turns [where D = "typed_dispatch arms SA h" and resp = "(s, ?st)" and ans = ?ans and cancel = cancel,
      OF laws sockets _ c(2) fits served] c(1) ans fin
  show ?thesis by auto
qed

lemma typed_reply_delivered:
  fixes CT :: "('c, rstr \<times> ('q, 'p, 'e, 'b) GenTask) ClientTask"
  assumes "codec_ok (P v) valid_p" "rpc_err_codec E valid_e" "lends_exactly lend"
    and CT: "CT = client_enum_task arms (\<lambda>v. gen_client_task (code v) (A v) (P v) E lend (by_hand v))"
    and said: "sayable (P v) valid_p E valid_e (code v) lend codec t said"
    and "byte_stream io arrived" "timer_inv CT tm" "task_with CT seq (timeline tm) = Some (v, t)"
      "\<not> reg_stopped_flag tm" "waiting_reg cl = None"
      "arrived (stream cl) = answer_frame seq (said_answer (P v) E codec said) @ rest"
  shows "\<exists>tm' cl' handed t'. tcp_read_resp CT io codec closing tm cl = Returns (tm', cl', [handed], Ready (Ok True))
          \<and> arrived (stream cl') = rest \<and> fact_task handed = (v, t') \<and> task_result (code v) lend said t t'"
proof -
  have "sendable (said_answer (P v) E codec said)" using said by (simp add: sayable_def)
  moreover have "reserves_exactly CT" unfolding CT by (rule enum_reserves [OF gen_reserves [OF assms(3)]])
  ultimately show ?thesis
    using read_resp_delivers [OF assms(6) _ assms(7,8) _ assms(10,11), of codec closing]
      gen_deliver_said [OF assms(1,2) said, of "A v" "by_hand v"] assms(9)
    by (fastforce simp: CT enum_deliver)
qed

end
