(* ===== verification/File_Service.thy ===== *)
theory File_Service
  imports Typed_Call Client_Facts
begin

text \<open>
  The file service of \<open>src/test-suite/src/stream\<close> (\<open>client.rs\<close>, \<open>server.rs\<close>), the repository's
  own use of the stream macros: its data, its three client tasks and two server tasks as the
  macros get them, and what the macros make of them. \<open>Write\<close> and \<open>Read\<close> of the client are one
  variant of the server. The requests of all variants share a HOL type with a case for each
  Rust type, as do the responses; a codec of one Rust type is a codec on its case.
\<close>

section \<open>Data\<close>

datatype FileAction = Open_Action | Read_Action | Write_Action

fun file_action_code :: "FileAction \<Rightarrow> u8" where
  "file_action_code Open_Action = 1"
| "file_action_code Read_Action = 2"
| "file_action_code Write_Action = 3"

definition file_action_try_from :: "u8 \<Rightarrow> (FileAction, 'e RpcError) result" where
  "file_action_try_from value = (if value = 1 then Ok Open_Action else if value = 2 then Ok Read_Action
     else if value = 3 then Ok Write_Action else Err (Rpc Method))"

record FileOpenReq =
  path :: rstr

record FileIOReq =
  inode :: u64
  offset :: "64 word"
  io_len :: nat

record FileIOResp =
  ret_size :: u64

datatype file_req = Open_Req FileOpenReq | IO_Req FileIOReq
datatype file_resp = Unit_Resp | IO_Resp FileIOResp

section \<open>The client's tasks\<close>

definition plain_ty :: "string \<Rightarrow> ty" where
  "plain_ty n = Ty_Path False False [Seg (lit n) No_Args]"

definition generic_ty :: "string \<Rightarrow> ty \<Rightarrow> ty" where
  "generic_ty n t = Ty_Path False False [Seg (lit n) (Angle [Arg_Type t])]"

definition file_field :: "string \<Rightarrow> ty \<Rightarrow> string \<Rightarrow> struct_field" where
  "file_field n t tag = \<lparr>sf_name = lit n, sf_ty = t, sf_tags = [lit tag]\<rparr>"

definition res_ty :: ty where
  "res_ty = generic_ty ''Option'' (Ty_Path False False
     [Seg (lit ''Result'') (Angle [Arg_Type (Ty_Tuple []), Arg_Type (generic_ty ''RpcError'' (plain_ty ''Errno''))])])"

definition queue_ty :: ty where
  "queue_ty = Ty_Path False False
     [Seg (lit ''mpsc'') No_Args, Seg (lit ''List'') (Angle [Arg_Type (plain_ty ''FileClientTask'')])]"

definition sender_ty :: ty where
  "sender_ty = generic_ty ''Option'' (generic_ty ''MTx'' queue_ty)"

definition FileClientTaskOpen :: "struct_field list" where
  "FileClientTaskOpen = [file_field ''common'' (plain_ty ''ClientTaskCommon'') ''common'',
     file_field ''req'' (plain_ty ''FileOpenReq'') ''req'', file_field ''resp'' (generic_ty ''Option'' (Ty_Tuple [])) ''resp'',
     file_field ''res'' res_ty ''res'', file_field ''sender'' sender_ty ''noti'']"

definition FileClientTaskRead :: "struct_field list" where
  "FileClientTaskRead = [file_field ''common'' (plain_ty ''ClientTaskCommon'') ''common'',
     file_field ''req'' (plain_ty ''FileIOReq'') ''req'',
     file_field ''resp'' (generic_ty ''Option'' (plain_ty ''FileIOResp'')) ''resp'',
     file_field ''read_data'' (generic_ty ''Option'' (plain_ty ''Buffer'')) ''resp_blob'',
     file_field ''res'' res_ty ''res'', file_field ''sender'' sender_ty ''noti'']"

definition FileClientTaskWrite :: "struct_field list" where
  "FileClientTaskWrite = [file_field ''common'' (plain_ty ''ClientTaskCommon'') ''common'',
     file_field ''req'' (plain_ty ''FileIOReq'') ''req'', file_field ''data'' (plain_ty ''Buffer'') ''req_blob'',
     file_field ''resp'' (generic_ty ''Option'' (plain_ty ''FileIOResp'')) ''resp'',
     file_field ''res'' res_ty ''res'', file_field ''sender'' sender_ty ''noti'']"

definition FileClientTask :: "enum_variant list" where
  "FileClientTask =
    [\<lparr>ev_name = lit ''Open'', ev_fields = Some [plain_ty ''FileClientTaskOpen''],
      ev_attrs = [(lit ''action'', Some [Const_Path (ucast (file_action_code Open_Action))])]\<rparr>,
     \<lparr>ev_name = lit ''Read'', ev_fields = Some [plain_ty ''FileClientTaskRead''],
      ev_attrs = [(lit ''action'', Some [Const_Path (ucast (file_action_code Read_Action))])]\<rparr>,
     \<lparr>ev_name = lit ''Write'', ev_fields = Some [plain_ty ''FileClientTaskWrite''],
      ev_attrs = [(lit ''action'', Some [Const_Path (ucast (file_action_code Write_Action))])]\<rparr>]"

text \<open>The constructors; a slot that a struct does not have stays empty.\<close>

definition file_task_new :: "file_req \<Rightarrow> bytes \<Rightarrow> (file_req, file_resp, 'e, bytes option) GenTask" where
  "file_task_new req data = \<lparr>g_common = \<lparr>common_seq = 0\<rparr>, g_req = req, g_resp = None, g_req_blob = data,
     g_resp_blob = None, g_action_str = [], g_action_num = 0, g_res = None, g_noti = True\<rparr>"

definition open_task_new :: "rstr \<Rightarrow> (file_req, file_resp, 'e, bytes option) GenTask" where
  "open_task_new p = file_task_new (Open_Req \<lparr>path = p\<rparr>) []"

definition read_task_new :: "u64 \<Rightarrow> 64 word \<Rightarrow> nat \<Rightarrow> (file_req, file_resp, 'e, bytes option) GenTask" where
  "read_task_new ino off n = file_task_new (IO_Req \<lparr>inode = ino, offset = off, io_len = n\<rparr>) []"

definition write_task_new :: "u64 \<Rightarrow> 64 word \<Rightarrow> bytes \<Rightarrow> (file_req, file_resp, 'e, bytes option) GenTask" where
  "write_task_new ino off data = file_task_new (IO_Req \<lparr>inode = ino, offset = off, io_len = length data\<rparr>) data"

section \<open>The server's tasks\<close>

definition FileServerTask :: "enum_variant list" where
  "FileServerTask =
    [\<lparr>ev_name = lit ''Open'', ev_fields = Some [plain_ty ''ServerTaskOpen''],
      ev_attrs = [(lit ''action'', Some [Const_Path (ucast (file_action_code Open_Action))])]\<rparr>,
     \<lparr>ev_name = lit ''IO'', ev_fields = Some [plain_ty ''ServerTaskIO''],
      ev_attrs = [(lit ''action'', Some [Const_Path (ucast (file_action_code Read_Action)), Const_Path (ucast (file_action_code Write_Action))])]\<rparr>]"

definition file_server_attrs :: "attr_token list" where
  "file_server_attrs = [Tok_Req, Tok_Comma, Tok_Resp, Tok_Comma, Tok_Error (plain_ty ''Errno'')]"

section \<open>Clients and servers\<close>

text \<open>A task of the enum is a variant's name with the task of that variant.\<close>

type_synonym 'e file_task = "rstr \<times> (file_req, file_resp, 'e, bytes option) GenTask"

definition init_client ::
  "(rstr \<Rightarrow> ClientConfig \<Rightarrow> ('n, RpcIntErr) result) \<Rightarrow> ClientConfig \<Rightarrow> rstr \<Rightarrow> u64 option
   \<Rightarrow> (('e file_task, 'n) ClientStream, RpcIntErr) result" where
  "init_client tp_connect config addr ts = facts_connect tp_connect (ClientDefault_new config) addr ts"

definition init_failover_client :: "ClientConfig \<Rightarrow> rstr list \<Rightarrow> bool \<Rightarrow> 'e file_task FailoverPool" where
  "init_failover_client config addrs round_robin
    = fo_new (cfg_thresholds (get_config (ClientDefault_new config))) addrs round_robin 3 100"

definition init_server :: RpcServer where
  "init_server = rpc_server_new"

section \<open>What the macros make of them\<close>

definition file_code :: "rstr \<Rightarrow> client_task_code" where
  "file_code v = \<lparr>ct_common = lit ''common'', ct_req = lit ''req'', ct_resp = lit ''resp'',
     ct_req_blob = if v = lit ''Write'' then Some (lit ''data'') else None,
     ct_resp_blob = if v = lit ''Read'' then Some (lit ''read_data'') else None, ct_action = By_Hand,
     ct_done = Some (lit ''res'', plain_ty ''Errno'', lit ''sender'', queue_ty), ct_debug = True\<rparr>"

lemmas file_fields_simps = file_field_def plain_ty_def generic_ty_def res_ty_def queue_ty_def sender_ty_def lit_def

lemma file_tasks_expand:
  "client_task_impl [Debug_Arg] FileClientTaskOpen = Returns (file_code (lit ''Open''))"
  "client_task_impl [Debug_Arg] FileClientTaskRead = Returns (file_code (lit ''Read''))"
  "client_task_impl [Debug_Arg] FileClientTaskWrite = Returns (file_code (lit ''Write''))"
  by (simp_all add: client_task_impl_def FileClientTaskOpen_def FileClientTaskRead_def FileClientTaskWrite_def
      file_code_def file_fields_simps collect_tag_def no_fields_def client_task_action_def client_task_done_def
      res_error_type_def unit_result_args_def noti_item_type_def path_args_of_def last_seg_def first_type_def)

definition file_client_arms :: "enum_arm list" where
  "file_client_arms = [\<lparr>ea_name = lit ''Open'', ea_type = plain_ty ''FileClientTaskOpen'', ea_action = Some (Num 1)\<rparr>,
     \<lparr>ea_name = lit ''Read'', ea_type = plain_ty ''FileClientTaskRead'', ea_action = Some (Num 2)\<rparr>,
     \<lparr>ea_name = lit ''Write'', ea_type = plain_ty ''FileClientTaskWrite'', ea_action = Some (Num 3)\<rparr>]"

definition file_server_arms :: "server_arm list" where
  "file_server_arms = [\<lparr>sm_name = lit ''Open'', sm_type = plain_ty ''ServerTaskOpen'', sm_actions = [Num 1]\<rparr>,
     \<lparr>sm_name = lit ''IO'', sm_type = plain_ty ''ServerTaskIO'', sm_actions = [Num 2, Num 3]\<rparr>]"

lemma file_enums_expand:
  "client_task_enum_impl True FileClientTask = Returns file_client_arms"
  "\<exists>attrs. server_task_enum_impl file_server_attrs FileServerTask = Returns (attrs, file_server_arms) \<and> at_req attrs"
  by (simp_all add: client_task_enum_impl_def FileClientTask_def file_client_arms_def variant_type_def plain_ty_def lit_def
      client_action_arm_def static_action_def server_task_enum_impl_def FileServerTask_def
      file_server_attrs_def file_server_arms_def variant_actions_def Let_def)

lemma file_action_codes: "file_action_try_from n = Ok a \<longleftrightarrow> file_action_code a = n"
  by (cases a) (auto simp: file_action_try_from_def)

text \<open>The server's variant for each variant of the client.\<close>

definition served_by :: "rstr \<Rightarrow> rstr" where
  "served_by v = (if v = lit ''Open'' then lit ''Open'' else lit ''IO'')"

lemma file_routes:
  assumes "v \<in> {lit ''Open'', lit ''Read'', lit ''Write''}"
    and "action = get_action (client_enum_task file_client_arms impls) (v, t)"
  shows "\<exists>i < length file_server_arms. action \<in> set (sm_actions (file_server_arms ! i))
    \<and> (\<forall>j < i. action \<notin> set (sm_actions (file_server_arms ! j))) \<and> sm_name (file_server_arms ! i) = served_by v"
    and "\<exists>n. action = Num n \<and> 0 < sint n"
proof -
  have "action = Num (if v = lit ''Open'' then 1 else if v = lit ''Read'' then 2 else 3)"
    using assms by (auto simp: client_enum_task_def enum_get_action_def file_client_arms_def lit_def)
  then show "\<exists>i < length file_server_arms. action \<in> set (sm_actions (file_server_arms ! i))
    \<and> (\<forall>j < i. action \<notin> set (sm_actions (file_server_arms ! j))) \<and> sm_name (file_server_arms ! i) = served_by v"
    and "\<exists>n. action = Num n \<and> 0 < sint n"
    using assms(1)
    by (auto simp: file_server_arms_def served_by_def lit_def intro: exI [of _ 0] exI [of _ "Suc 0"])
qed

section \<open>A service that runs\<close>

text \<open>
  Codecs, buffers, error numbers and a handler with which the service runs: fixed-width integers
  for MessagePack, a buffer that is replaced by what arrives, error numbers as they are. The
  handler answers a read with what is stored and a write with the size of its data.
\<close>

definition plain_codec :: "('m \<Rightarrow> bytes) \<Rightarrow> (bytes \<Rightarrow> ('m, unit) result) \<Rightarrow> ('c, 'm) Codec" where
  "plain_codec enc dec = \<lparr>codec_encode = \<lambda>_ m. Ok (enc m),
     codec_encode_into = \<lambda>_ m buf. (buf @ enc m, Ok (length (enc m))), codec_decode = \<lambda>_ b. dec b\<rparr>"

lemma plain_codec_ok: "(\<And>m. valid m \<Longrightarrow> dec (enc m) = Ok m) \<Longrightarrow> codec_ok (plain_codec enc dec) valid"
  by (simp add: codec_ok_def plain_codec_def)

fun file_req_bytes :: "file_req \<Rightarrow> bytes" where
  "file_req_bytes (Open_Req r) = path r"
| "file_req_bytes (IO_Req r) = to_le 8 (inode r) @ to_le 8 (offset r) @ to_le 8 (of_nat (io_len r) :: u64)"

definition io_req_of :: "bytes \<Rightarrow> (file_req, unit) result" where
  "io_req_of b = (if length b \<noteq> 24 then Err () else Ok (IO_Req \<lparr>inode = of_le (take 8 b),
     offset = of_le (take 8 (drop 8 b)), io_len = unat (of_le (drop 16 b) :: u64)\<rparr>))"

definition file_req_codec :: "rstr \<Rightarrow> ('c, file_req) Codec" where
  "file_req_codec s = plain_codec file_req_bytes
     (if s = lit ''Open'' then \<lambda>b. Ok (Open_Req \<lparr>path = b\<rparr>) else io_req_of)"

definition file_req_valid :: "rstr \<Rightarrow> file_req \<Rightarrow> bool" where
  "file_req_valid s r \<longleftrightarrow> (case r of Open_Req _ \<Rightarrow> s = lit ''Open'' | IO_Req q \<Rightarrow> s \<noteq> lit ''Open'' \<and> io_len q < 2 ^ 64)"

lemma file_req_codec_ok: "codec_ok (file_req_codec s) (file_req_valid s)"
  unfolding file_req_codec_def
proof (rule plain_codec_ok)
  fix r
  assume "file_req_valid s r"
  then show "(if s = lit ''Open'' then \<lambda>b. Ok (Open_Req \<lparr>path = b\<rparr>) else io_req_of) (file_req_bytes r) = Ok r"
    by (cases r) (auto simp: file_req_valid_def io_req_of_def unat_of_nat take_bit_nat_eq_self)
qed

fun file_resp_bytes :: "file_resp \<Rightarrow> bytes" where
  "file_resp_bytes Unit_Resp = [0xC0]"
| "file_resp_bytes (IO_Resp r) = to_le 8 (ret_size r)"

definition file_resp_codec :: "rstr \<Rightarrow> ('c, file_resp) Codec" where
  "file_resp_codec s = plain_codec file_resp_bytes
     (\<lambda>b. Ok (if s = lit ''Open'' then Unit_Resp else IO_Resp \<lparr>ret_size = of_le b\<rparr>))"

definition file_resp_valid :: "rstr \<Rightarrow> file_resp \<Rightarrow> bool" where
  "file_resp_valid s r \<longleftrightarrow> (r = Unit_Resp \<longleftrightarrow> s = lit ''Open'')"

lemma file_resp_codec_ok: "codec_ok (file_resp_codec s) (file_resp_valid s)"
  unfolding file_resp_codec_def
proof (rule plain_codec_ok)
  fix r
  assume "file_resp_valid s r"
  then show "Ok (if s = lit ''Open'' then Unit_Resp else IO_Resp \<lparr>ret_size = of_le (file_resp_bytes r)\<rparr>) = Ok r"
    by (cases r) (auto simp: file_resp_valid_def)
qed

definition file_lend :: "i32 \<Rightarrow> bytes option \<Rightarrow> (nat \<times> (bytes \<Rightarrow> bytes option)) option" where
  "file_lend sz b = Some (nat (sint sz), Some)"

abbreviation file_err :: "('c, u32) RpcErrCodec" where
  "file_err \<equiv> errno_err (\<lambda>e. e) (\<lambda>n. n)"

definition EINVAL :: u32 where "EINVAL = 22"
definition ENOSYS :: u32 where "ENOSYS = 38"

definition file_handler :: "bytes \<Rightarrow> (file_req, file_resp, u32) handler" where
  "file_handler stored s st = (if s = lit ''Open'' then (None, None, Ok ())
     else (case full_get_action st of
        Num n \<Rightarrow> (case file_action_try_from (ucast n) :: (FileAction, u32 RpcError) result of
           Ok Read_Action \<Rightarrow> (Some (IO_Resp \<lparr>ret_size = of_nat (length stored)\<rparr>), Some stored, Ok ())
         | Ok Write_Action \<Rightarrow> (case f_req_blob st of
              Some b \<Rightarrow> (Some (IO_Resp \<lparr>ret_size = of_nat (length b)\<rparr>), None, Ok ())
            | None \<Rightarrow> (None, None, Err EINVAL))
         | _ \<Rightarrow> (None, None, Err ENOSYS))
      | Str _ \<Rightarrow> (None, None, Err ENOSYS)))"

abbreviation file_impls :: "rstr \<Rightarrow> (unit, (file_req, file_resp, u32, bytes option) GenTask) ClientTask" where
  "file_impls \<equiv> \<lambda>v. gen_client_task (file_code v) (file_req_codec (served_by v)) (file_resp_codec (served_by v)) file_err file_lend
     (\<lambda>_. Num 0)"

abbreviation file_client :: "(unit, rstr \<times> (file_req, file_resp, u32, bytes option) GenTask) ClientTask" where
  "file_client \<equiv> client_enum_task file_client_arms file_impls"

text \<open>A write of two bytes, numbered 1, waiting for its answer.\<close>

definition demo_write :: "(file_req, file_resp, u32, bytes option) GenTask" where
  "demo_write = (write_task_new 7 0 [5, 6])\<lparr>g_common := \<lparr>common_seq = 1\<rparr>\<rparr>"

definition demo_write_timer :: "(rstr \<times> (file_req, file_resp, u32, bytes option) GenTask) ClientTaskTimer" where
  "demo_write_timer = (timer_new 1 4)\<lparr>pending_task_count := - 1, processed_seq := 1,
     sent_tasks := [(1, (lit ''Write'', demo_write))]\<rparr>"

lemma file_lends: "lends_exactly file_lend"
  by (simp add: lends_exactly_def file_lend_def)

lemma file_err_ok: "rpc_err_codec file_err (\<lambda>e. e \<le> of_nat i32_max)"
  by (rule errno_err_contract) simp_all

lemma demo_write_task:
  "get_action file_client (lit ''Write'', demo_write) = Num 3" "common_seq (g_common demo_write) = 1"
  "g_req demo_write = IO_Req \<lparr>inode = 7, offset = 0, io_len = 2\<rparr>" "g_resp_blob demo_write = None"
  "gen_get_req_blob (file_code (lit ''Write'')) demo_write = Some [5, 6]"
  by (simp_all add: client_enum_task_def enum_get_action_def file_client_arms_def demo_write_def write_task_new_def
      file_task_new_def gen_get_req_blob_def file_code_def lit_def)

lemma demo_write_waits:
  "timer_inv file_client demo_write_timer" "\<not> reg_stopped_flag demo_write_timer"
  "task_with file_client 1 (timeline demo_write_timer) = Some (lit ''Write'', demo_write)"
  by (simp_all add: demo_write_timer_def demo_write_def client_enum_task_def gen_client_task_def
      timer_new_def timer_inv_def newest_def timeline_def batch_tasks_def keyed_def)

lemma demo_write_said:
  "file_handler [] (lit ''IO'') (decoded_task 1 (Num 3) (g_req demo_write) (Some [5, 6]))
    = (Some (IO_Resp \<lparr>ret_size = 2\<rparr>), None, Ok ())"
  by (simp add: file_handler_def decoded_task_def full_get_action_def file_action_try_from_def opt_bytes_def lit_def)

lemma demo_write_sayable:
  "sayable (file_resp_codec (lit ''IO'')) (file_resp_valid (lit ''IO'')) file_err (\<lambda>e. e \<le> of_nat i32_max) (file_code (lit ''Write'')) file_lend ()
     demo_write (Some (IO_Resp \<lparr>ret_size = 2\<rparr>), None, Ok ())"
  by (simp add: sayable_def said_answer_def encoded_def file_resp_codec_def plain_codec_def file_resp_valid_def opt_bytes_def
      u32_max_def i32_max_def lit_def to_le_def)

end
