(* ===== verification/File_Store.thy ===== *)
theory File_Store
  imports File_Service
begin

text \<open>
  The server of \<open>test_client_server\<close> (\<open>src/test-suite/src/stream/basic/test_normal.rs\<close>), which keeps
  the data of the last write in a store that its connections share, and what its clients get from
  it. Error numbers are those of \<open>nix::errno\<close>, which is third-party: the two the closure names are
  arguments, as is their codec. The closure is run by \<open>DispatchClosure\<close>; the store is threaded through it. As in
  \<open>Typed_Call\<close> the requests of all variants share a HOL type, and a codec is given for each variant
  of the server.
\<close>

section \<open>The server\<close>

type_synonym 'e file_svr_task = "rstr \<times> (file_req, file_resp, 'e) ServerTaskVariantFull"

definition file_set_result :: "(unit, 'e) result \<Rightarrow> 'e file_svr_task \<Rightarrow> 'e file_svr_task RespNoti \<Rightarrow> 'e file_svr_task RespNoti panics" where
  "file_set_result res task noti =
    and_then (server_enum_set_result (\<lambda>_. full_set_result_only) res task) (\<lambda>task'. Returns (noti_done task' noti))"

definition dispatch_task ::
  "'e \<Rightarrow> 'e \<Rightarrow> bytes option \<Rightarrow> 'e file_svr_task \<Rightarrow> 'e file_svr_task RespNoti
   \<Rightarrow> (bytes option \<times> 'e file_svr_task RespNoti \<times> (unit, unit) result) panics" where
  "dispatch_task einval enosys store task noti = (case task of (s, t) \<Rightarrow>
     if s = lit ''Open'' then and_then (file_set_result (Ok ()) (s, t) noti) (\<lambda>noti'. Returns (store, noti', Ok ()))
     else (case full_get_action t of
       Num action_num \<Rightarrow>
         (case file_action_try_from (ucast action_num) :: (FileAction, 'e RpcError) result of
            Err _ \<Rightarrow> Returns (store, noti, Err ())
          | Ok Read_Action \<Rightarrow>
              (let data_to_read = (case store of Some b \<Rightarrow> b | None \<Rightarrow> []);
                   t' = t\<lparr>f_resp_blob := Some data_to_read, f_resp := Some (IO_Resp \<lparr>ret_size = of_nat (length data_to_read)\<rparr>)\<rparr>
               in and_then (file_set_result (Ok ()) (s, t') noti) (\<lambda>noti'. Returns (None, noti', Ok ())))
          | Ok Write_Action \<Rightarrow>
              (case f_req_blob t of
                 Some blob \<Rightarrow>
                   (let t' = t\<lparr>f_req_blob := None, f_resp := Some (IO_Resp \<lparr>ret_size = of_nat (length blob)\<rparr>)\<rparr>
                    in and_then (file_set_result (Ok ()) (s, t') noti) (\<lambda>noti'. Returns (Some blob, noti', Ok ())))
               | None \<Rightarrow> and_then (file_set_result (Err einval) (s, t) noti) (\<lambda>noti'. Returns (store, noti', Ok ())))
          | Ok Open_Action \<Rightarrow> Panic)
     | Str _ \<Rightarrow> and_then (file_set_result (Err enosys) (s, t) noti) (\<lambda>noti'. Returns (store, noti', Err ()))))"

text \<open>\<open>DispatchClosure::dispatch_req\<close> over the closure, with the store.\<close>

definition file_decode ::
  "(rstr \<Rightarrow> ('c, file_req) Codec) \<Rightarrow> 'c \<Rightarrow> RpcAction \<Rightarrow> u64 \<Rightarrow> bytes \<Rightarrow> bytes option \<Rightarrow> ('e file_svr_task, unit) result" where
  "file_decode A = server_enum_decode file_server_arms (\<lambda>s. full_decode_req (A s))"

definition file_serve ::
  "'e \<Rightarrow> 'e \<Rightarrow> (rstr \<Rightarrow> ('c, file_req) Codec) \<Rightarrow> 'c \<Rightarrow> bytes option \<Rightarrow> RpcSvrReq \<Rightarrow> 'e file_svr_task RespNoti
   \<Rightarrow> (bytes option \<times> 'e file_svr_task RespNoti \<times> (unit, unit) result) panics" where
  "file_serve einval enosys A codec store req noti =
    (case file_decode A codec (req_action req) (req_seq req) (req_msg req) (req_blob req) of
       Err _ \<Rightarrow> Returns (store, noti, Err ()) | Ok task \<Rightarrow> dispatch_task einval enosys store task noti)"

definition new_closure_dispatcher ::
  "(rstr \<Rightarrow> ('c, file_req) Codec) \<Rightarrow> ('e file_svr_task \<Rightarrow> 'e file_svr_task RespNoti
     \<Rightarrow> ('e file_svr_task RespNoti \<times> 'j list \<times> (unit, unit) result) panics) \<Rightarrow> ('c, 'e file_svr_task, 'j) Dispatch" where
  "new_closure_dispatcher A handle = closure_dispatch (file_decode A) handle"

text \<open>For a connection the closure is a dispatcher; the store is where it keeps its data.\<close>

lemma file_serve_dispatches:
  "dispatch_req (new_closure_dispatcher A (\<lambda>task noti. and_then (dispatch_task einval enosys store task noti)
      (\<lambda>(_, noti', r). Returns (noti', [], r)))) codec req noti
    = and_then (file_serve einval enosys A codec store req noti) (\<lambda>(_, noti', r). Returns (noti', [], r))"
  by (cases "file_serve einval enosys A codec store req noti")
     (auto simp: new_closure_dispatcher_def closure_dispatch_def closure_dispatch_req_def file_serve_def
      split: result.splits panics.splits elim: and_then.elims)

section \<open>A client and the server\<close>

definition file_impl ::
  "(rstr \<Rightarrow> ('c, file_req) Codec) \<Rightarrow> (rstr \<Rightarrow> ('c, file_resp) Codec)
   \<Rightarrow> ('c, 'e) RpcErrCodec
   \<Rightarrow> (i32 \<Rightarrow> bytes option \<Rightarrow> (nat \<times> (bytes \<Rightarrow> bytes option)) option) \<Rightarrow> rstr
   \<Rightarrow> ('c, (file_req, file_resp, 'e, bytes option) GenTask) ClientTask" where
  "file_impl A P E lend v = gen_client_task (file_code v) (A (served_by v)) (P (served_by v)) E lend (\<lambda>_. Num 0)"

text \<open>
  A task's request is served, and the answer is delivered to the task: the store after it, and the
  task. \<open>None\<close>: no answer, or several.
\<close>

definition file_exchange ::
  "'e \<Rightarrow> 'e \<Rightarrow> (rstr \<Rightarrow> ('c, file_req) Codec) \<Rightarrow> (rstr \<Rightarrow> ('c, file_resp) Codec)
   \<Rightarrow> ('c, 'e) RpcErrCodec
   \<Rightarrow> (i32 \<Rightarrow> bytes option \<Rightarrow> (nat \<times> (bytes \<Rightarrow> bytes option)) option) \<Rightarrow> 'c \<Rightarrow> bytes option \<Rightarrow> 'e file_task
   \<Rightarrow> (bytes option \<times> 'e file_task) option" where
  "file_exchange einval enosys A P E lend codec store task = (case task of (v, t) \<Rightarrow>
     let CT = client_enum_task file_client_arms (file_impl A P E lend);
         blob = gen_get_req_blob (file_code v) t
     in case file_serve einval enosys A codec store
          \<lparr>req_seq = task_seq CT (v, t), req_action = get_action CT (v, t), req_msg = encoded (A (served_by v)) codec (g_req t),
           req_blob = if opt_bytes blob = [] then None else blob\<rparr> \<lparr>noti_queue = [], noti_rx_alive = True\<rparr> of
          Returns (store', noti, Ok _) \<Rightarrow>
            (case noti_queue noti of
               [Ok (s, st)] \<Rightarrow> Some (store', fact_task (deliver CT codec (full_answer (P s) E codec st) (v, t)))
             | _ \<Rightarrow> None)
        | _ \<Rightarrow> None)"

lemma file_decoded:
  assumes "codec_ok (A (lit ''IO'')) valid" "valid req" "action \<in> {Num 2, Num 3}"
  shows "file_decode A codec action seq (encoded (A (lit ''IO'')) codec req) (if opt_bytes blob = [] then None else blob)
    = Ok (lit ''IO'', decoded_task seq action req blob)"
  using assms decode_encoded [OF assms(1,2), of codec]
  by (auto simp: file_decode_def file_server_arms_def full_decode_req_def decoded_task_def)

lemma file_actions:
  "get_action (client_enum_task file_client_arms impls) (lit ''Read'', t) = Num 2"
  "get_action (client_enum_task file_client_arms impls) (lit ''Write'', t) = Num 3"
  "served_by (lit ''Read'') = lit ''IO''" "served_by (lit ''Write'') = lit ''IO''" "lit ''IO'' \<noteq> lit ''Open''"
  by (simp_all add: client_enum_task_def enum_get_action_def file_client_arms_def served_by_def lit_def)

text \<open>What the server does with a write and a read that it has decoded.\<close>

lemma dispatch_write:
  "opt_bytes blob \<noteq> [] \<Longrightarrow> dispatch_task einval enosys store (lit ''IO'', decoded_task seq (Num 3) req blob) noti
    = Returns (blob, noti_done (lit ''IO'', (decoded_task seq (Num 3) req blob)\<lparr>f_req_blob := None,
        f_resp := Some (IO_Resp \<lparr>ret_size = of_nat (length (opt_bytes blob))\<rparr>), f_res := Some (Ok ()), f_has_noti := False\<rparr>) noti, Ok ())"
  by (cases blob) (auto simp: dispatch_task_def file_actions decoded_task_def full_get_action_def file_action_try_from_def
      file_set_result_def server_enum_set_result_def full_set_result_only_def opt_bytes_def)

lemma dispatch_read:
  "dispatch_task einval enosys store (lit ''IO'', decoded_task seq (Num 2) req None) noti
    = Returns (None, noti_done (lit ''IO'', (decoded_task seq (Num 2) req None)\<lparr>f_resp_blob := Some (opt_bytes store),
        f_resp := Some (IO_Resp \<lparr>ret_size = of_nat (length (opt_bytes store))\<rparr>), f_res := Some (Ok ()), f_has_noti := False\<rparr>) noti, Ok ())"
  by (cases store) (auto simp: dispatch_task_def file_actions decoded_task_def full_get_action_def file_action_try_from_def
      file_set_result_def server_enum_set_result_def full_set_result_only_def opt_bytes_def)


text \<open>What the service relies on of the codecs: they carry its requests, and its responses as at least one byte.\<close>

definition file_codecs_ok ::
  "(rstr \<Rightarrow> ('c, file_req) Codec) \<Rightarrow> (rstr \<Rightarrow> ('c, file_resp) Codec) \<Rightarrow> ('c, 'e) RpcErrCodec
   \<Rightarrow> (file_req \<Rightarrow> bool) \<Rightarrow> (file_resp \<Rightarrow> bool) \<Rightarrow> ('e \<Rightarrow> bool) \<Rightarrow> 'c \<Rightarrow> bool" where
  "file_codecs_ok A P E valid_q valid_p valid_e codec \<longleftrightarrow> rpc_err_codec E valid_e \<and> codec_ok (A (lit ''IO'')) valid_q \<and> codec_ok (P (lit ''IO'')) valid_p
     \<and> (\<forall>n. valid_p (IO_Resp n) \<and> encoded (P (lit ''IO'')) codec (IO_Resp n) \<noteq> []
          \<and> length (encoded (P (lit ''IO'')) codec (IO_Resp n)) \<le> u32_max)"

lemma file_exchange_said:
  fixes t :: "(file_req, file_resp, 'e, bytes option) GenTask"
  assumes ok: "file_codecs_ok A P E valid_q valid_p valid_e codec" and v: "served_by v = lit ''IO''"
    and served: "file_serve einval enosys A codec store \<lparr>req_seq = common_seq (g_common t),
        req_action = get_action (client_enum_task file_client_arms (file_impl A P E lend)) (v, t),
        req_msg = encoded (A (lit ''IO'')) codec (g_req t),
        req_blob = if opt_bytes (gen_get_req_blob (file_code v) t) = [] then None else gen_get_req_blob (file_code v) t\<rparr>
        \<lparr>noti_queue = [], noti_rx_alive = True\<rparr>
      = Returns (store', noti_done (lit ''IO'', st) \<lparr>noti_queue = [], noti_rx_alive = True\<rparr>, Ok ())"
    and st: "f_resp st = p" "f_resp_blob st = b" "f_res st = Some r"
    and said: "sayable (P (lit ''IO'')) valid_p E valid_e (file_code v) lend codec t (p, b, r)"
  shows "\<exists>t'. file_exchange einval enosys A P E lend codec store (v, t) = Some (store', (v, t')) \<and> task_result (file_code v) lend (p, b, r) t t'"
proof -
  have "codec_ok (P (lit ''IO'')) valid_p" "rpc_err_codec E valid_e" using ok by (simp_all add: file_codecs_ok_def)
  from gen_deliver_said [OF this said, of "A (lit ''IO'')" "\<lambda>_. Num 0"]
  have "task_result (file_code v) lend (p, b, r) t (fact_task (deliver (file_impl A P E lend v) codec
      (full_answer (P (lit ''IO'')) E codec st) t))"
    unfolding finished_answer [OF st] by (simp add: file_impl_def v)
  moreover have "task_seq (file_impl A P E lend v) t = common_seq (g_common t)" by (simp add: file_impl_def gen_client_task_def)
  ultimately show ?thesis using served v
    by (simp add: file_exchange_def enum_deliver noti_done_enqueue enqueue_def)
qed

lemma file_task_blobs:
  "gen_get_req_blob (file_code (lit ''Write'')) ((write_task_new ino off d)\<lparr>g_common := cm\<rparr>) = Some d"
  "gen_get_req_blob (file_code (lit ''Read'')) ((read_task_new ino off n)\<lparr>g_common := cm\<rparr>) = None"
  by (simp_all add: gen_get_req_blob_def file_code_def write_task_new_def read_task_new_def file_task_new_def
      default_get_req_blob_def lit_def)

lemma write_exchange:
  fixes t :: "(file_req, file_resp, 'e, bytes option) GenTask"
  assumes ok: "file_codecs_ok A P E valid_q valid_p valid_e codec" and d: "d \<noteq> []" "length d \<le> i32_max"
    and t: "t = (write_task_new ino off d)\<lparr>g_common := cm\<rparr>" "valid_q (g_req t)"
  shows "\<exists>t'. file_exchange einval enosys A P E lend codec store (lit ''Write'', t) = Some (Some d, (lit ''Write'', t'))
    \<and> gen_get_result t' = Ok () \<and> g_resp t' = Some (IO_Resp \<lparr>ret_size = of_nat (length d)\<rparr>)"
proof -
  let ?p = "Some (IO_Resp \<lparr>ret_size = of_nat (length d)\<rparr>)" and ?v = "lit ''Write''"
  have A: "codec_ok (A (lit ''IO'')) valid_q" using ok by (simp add: file_codecs_ok_def)
  have b: "gen_get_req_blob (file_code ?v) t = Some d" "opt_bytes (Some d) = d"
    using t(1) file_task_blobs by (simp_all add: opt_bytes_def)
  have s: "sayable (P (lit ''IO'')) valid_p E valid_e (file_code ?v) lend codec t (?p, None, Ok ())"
    using ok d by (simp add: file_codecs_ok_def sayable_def said_answer_def opt_bytes_def)
  have "file_decode A codec (Num 3) (common_seq (g_common t)) (encoded (A (lit ''IO'')) codec (g_req t)) (Some d)
      = Ok (lit ''IO'', decoded_task (common_seq (g_common t)) (Num 3) (g_req t) (Some d) :: (file_req, file_resp, 'e) ServerTaskVariantFull)"
    using file_decoded [where A = A and blob = "Some d" and valid = valid_q, OF A t(2), of "Num 3"] d b by simp
  with dispatch_write [of "Some d" einval enosys store] d b
  have "\<exists>t'. file_exchange einval enosys A P E lend codec store (?v, t) = Some (Some d, (?v, t')) \<and> task_result (file_code ?v) lend (?p, None, Ok ()) t t'"
    by (intro file_exchange_said [OF ok file_actions(4) _ _ _ _ s, where st = "(decoded_task (common_seq (g_common t)) (Num 3) (g_req t) (Some d))\<lparr>f_req_blob := None,
        f_resp := ?p, f_res := Some (Ok ()), f_has_noti := False\<rparr>"]) (simp_all add: file_serve_def file_actions decoded_task_def)
  then show ?thesis by (auto simp: task_result_def)
qed

lemma read_exchange:
  fixes t :: "(file_req, file_resp, 'e, bytes option) GenTask"
  assumes ok: "file_codecs_ok A P E valid_q valid_p valid_e codec" and d: "length (opt_bytes store) \<le> i32_max"
    and t: "t = (read_task_new ino off n)\<lparr>g_common := cm\<rparr>" "valid_q (g_req t)"
    and lend: "opt_bytes store \<noteq> [] \<Longrightarrow> \<exists>m. lend (of_nat (length (opt_bytes store))) None = Some (m, fill)"
  shows "\<exists>t'. file_exchange einval enosys A P E lend codec store (lit ''Read'', t) = Some (None, (lit ''Read'', t'))
    \<and> gen_get_result t' = Ok () \<and> g_resp t' = Some (IO_Resp \<lparr>ret_size = of_nat (length (opt_bytes store))\<rparr>)
    \<and> g_resp_blob t' = (if opt_bytes store = [] then None else fill (opt_bytes store))"
proof -
  let ?d = "opt_bytes store" and ?v = "lit ''Read''"
  let ?p = "Some (IO_Resp \<lparr>ret_size = of_nat (length ?d)\<rparr>)"
  have A: "codec_ok (A (lit ''IO'')) valid_q" using ok by (simp add: file_codecs_ok_def)
  have b: "gen_get_req_blob (file_code ?v) t = None" "opt_bytes None = []" "opt_bytes (Some ?d) = ?d" "g_resp_blob t = None"
    using t(1) file_task_blobs by (simp_all add: opt_bytes_def read_task_new_def file_task_new_def)
  have c: "ct_resp_blob (file_code ?v) \<noteq> None" by (simp add: file_code_def)
  have s: "sayable (P (lit ''IO'')) valid_p E valid_e (file_code ?v) lend codec t (?p, Some ?d, Ok ())"
    using ok d b c lend by (auto simp: file_codecs_ok_def sayable_def said_answer_def)
  have "file_decode A codec (Num 2) (common_seq (g_common t)) (encoded (A (lit ''IO'')) codec (g_req t)) None
      = Ok (lit ''IO'', decoded_task (common_seq (g_common t)) (Num 2) (g_req t) None :: (file_req, file_resp, 'e) ServerTaskVariantFull)"
    using file_decoded [where A = A and blob = None and valid = valid_q, OF A t(2), of "Num 2"] b by simp
  with dispatch_read [of einval enosys store] b
  have "\<exists>t'. file_exchange einval enosys A P E lend codec store (?v, t) = Some (None, (?v, t')) \<and> task_result (file_code ?v) lend (?p, Some ?d, Ok ()) t t'"
    by (intro file_exchange_said [OF ok file_actions(3) _ _ _ _ s, where st = "(decoded_task (common_seq (g_common t)) (Num 2) (g_req t) None)\<lparr>f_resp_blob := Some ?d,
        f_resp := ?p, f_res := Some (Ok ()), f_has_noti := False\<rparr>"]) (simp_all add: file_serve_def file_actions decoded_task_def)
  then show ?thesis using b lend by (fastforce simp: task_result_def blob_taken_def)
qed


section \<open>Witness\<close>

lemma file_codecs_fit:
  "file_codecs_ok file_req_codec file_resp_codec file_err (file_req_valid (lit ''IO'')) (file_resp_valid (lit ''IO''))
     (\<lambda>e. e \<le> of_nat i32_max) ()"
  by (simp add: file_codecs_ok_def file_err_ok file_req_codec_ok file_resp_codec_ok file_resp_valid_def file_actions)
     (simp add: encoded_def file_resp_codec_def plain_codec_def u32_max_def to_le_def)


end
