(* ===== verification/Endpoint_Macros.thy ===== *)
theory Endpoint_Macros
  imports Macro_Syntax Api_Server
begin

text \<open>
  The compile-time side of the API macros: \<open>endpoint_async\<close> (\<open>src/macros/src/endpoint_async.rs\<close>),
  which turns a trait into the client stubs that call its methods by name, \<open>endpoint_client\<close>, which
  makes the struct the stubs are methods of, \<open>service\<close> (\<open>src/macros/src/service.rs\<close>), which turns
  the implementation of the trait into a service, and \<open>service_mux_struct\<close>.
  What the generated handlers and the dispatch do is in \<open>Api_Server\<close>.
\<close>

section \<open>Methods and their types\<close>

datatype fn_arg = Receiver | Typed_Ident rstr ty | Typed_Pattern ty

record method_sig =
  ms_name :: rstr
  ms_inputs :: "fn_arg list"
  ms_async :: bool
  ms_output :: "ty option"

datatype item = Item_Method method_sig | Item_Other

fun item_methods :: "item list \<Rightarrow> method_sig list" where
  "item_methods [] = []"
| "item_methods (Item_Method m # items) = m # item_methods items"
| "item_methods (Item_Other # items) = item_methods items"

text \<open>The \<open>Output\<close> of the first \<open>Future<Output = ...>\<close> bound of an \<open>impl\<close> type.\<close>

fun output_binding :: "gen_arg list \<Rightarrow> ty option" where
  "output_binding [] = None"
| "output_binding (Arg_Binding i t # args) = (if i = lit ''Output'' then Some t else output_binding args)"
| "output_binding (_ # args) = output_binding args"

fun future_output :: "bound list \<Rightarrow> ty option" where
  "future_output [] = None"
| "future_output (Trait_Bound segs # bs) = (case last_seg segs of
     Some (Seg i (Angle args)) \<Rightarrow>
       (case (if i = lit ''Future'' then output_binding args else None) of
          Some t \<Rightarrow> Some t | None \<Rightarrow> future_output bs)
   | _ \<Rightarrow> future_output bs)"
| "future_output (Bound_Other _ # bs) = future_output bs"

definition get_result_type_from_future :: "ty \<Rightarrow> ty option" where
  "get_result_type_from_future t = (case t of Ty_Impl_Trait bs \<Rightarrow> future_output bs | _ \<Rightarrow> None)"

text \<open>\<open>Result<_, RpcError<_>>\<close>; the arguments of \<open>RpcError\<close> are not looked at.\<close>

definition check_result_type :: "ty \<Rightarrow> bool" where
  "check_result_type t = (case t of
     Ty_Path q c segs \<Rightarrow> (case last_seg segs of
        Some (Seg i (Angle [_, Arg_Type (Ty_Path q' c' segs')])) \<Rightarrow>
          i = lit ''Result'' \<and> (case last_seg segs' of Some s \<Rightarrow> seg_ident s = lit ''RpcError'' | None \<Rightarrow> False)
      | _ \<Rightarrow> False)
   | _ \<Rightarrow> False)"

definition returns_impl_future :: "method_sig \<Rightarrow> bool" where
  "returns_impl_future m = (case ms_output m of
     Some t \<Rightarrow> get_result_type_from_future t \<noteq> None | None \<Rightarrow> False)"

definition check_return_type :: "ty option \<Rightarrow> bool \<Rightarrow> bool" where
  "check_return_type output impl_future = (case output of
     None \<Rightarrow> False
   | Some t \<Rightarrow> if impl_future
       then (case get_result_type_from_future t of Some out \<Rightarrow> check_result_type out | None \<Rightarrow> False)
       else check_result_type t)"

section \<open>endpoint\_async\<close>

text \<open>
  A generated stub: it calls \<open>service_method\<close> with its argument, or with the unit value, on the
  caller or, when it returns a future of its own, on a clone of it.
\<close>

record endpoint_stub =
  st_name :: rstr
  st_service_method :: rstr
  st_takes_arg :: bool
  st_clones :: bool

definition endpoint_method :: "rstr \<Rightarrow> method_sig \<Rightarrow> endpoint_stub panics" where
  "endpoint_method trait_name m = (case ms_inputs m of
     [_, arg] \<Rightarrow>
       if \<not> check_return_type (ms_output m) (returns_impl_future m) then Panic
       else Returns \<lparr>st_name = ms_name m, st_service_method = trait_name @ dot # ms_name m,
              st_takes_arg = (case arg of Typed_Ident _ _ \<Rightarrow> True | _ \<Rightarrow> False),
              st_clones = returns_impl_future m\<rparr>
   | _ \<Rightarrow> Panic)"

fun generate_trait_impl :: "rstr \<Rightarrow> item list \<Rightarrow> endpoint_stub list panics" where
  "generate_trait_impl trait_name [] = Returns []"
| "generate_trait_impl trait_name (Item_Method m # items) =
    and_then (endpoint_method trait_name m) (\<lambda>stub.
    and_then (generate_trait_impl trait_name items) (\<lambda>stubs. Returns (stub # stubs)))"
| "generate_trait_impl trait_name (Item_Other # items) = generate_trait_impl trait_name items"

text \<open>
  The whole macro. \<open>attrs\<close> are the paths of the trait's attributes; the implementation is marked
  with \<open>async_trait\<close> exactly when the trait is.
\<close>

record endpoint_code =
  ec_client :: rstr
  ec_trait :: rstr
  ec_async_trait :: bool
  ec_stubs :: "endpoint_stub list"

definition has_async_trait :: "seg list list \<Rightarrow> bool" where
  "has_async_trait attrs = list_ex (list_ex (\<lambda>s. seg_ident s = lit ''async_trait'')) attrs"

definition endpoint_async :: "rstr \<Rightarrow> seg list list \<Rightarrow> rstr \<Rightarrow> item list \<Rightarrow> endpoint_code panics" where
  "endpoint_async client_name attrs trait_name items = and_then (generate_trait_impl trait_name items) (\<lambda>stubs.
     Returns \<lparr>ec_client = client_name, ec_trait = trait_name, ec_async_trait = has_async_trait attrs, ec_stubs = stubs\<rparr>)"

section \<open>endpoint\_client\<close>

text \<open>
  The generated struct around a caller, with \<open>new\<close>, \<open>as_ref\<close> and \<open>clone\<close>, and what a stub does
  with it; \<open>clone_caller\<close> and \<open>call\<close> are the caller's own methods.
\<close>

record 'k EndpointClient =
  caller :: 'k

definition endpoint_client_new :: "'k \<Rightarrow> 'k EndpointClient" where
  "endpoint_client_new k = \<lparr>caller = k\<rparr>"

definition endpoint_client_as_ref :: "'k EndpointClient \<Rightarrow> 'k" where
  "endpoint_client_as_ref c = caller c"

definition endpoint_client_clone :: "('k \<Rightarrow> 'k) \<Rightarrow> 'k EndpointClient \<Rightarrow> 'k EndpointClient" where
  "endpoint_client_clone clone_caller c = \<lparr>caller = clone_caller (caller c)\<rparr>"

definition stub_call ::
  "('k \<Rightarrow> 'k) \<Rightarrow> ('k \<Rightarrow> rstr \<Rightarrow> 'a \<Rightarrow> 'r) \<Rightarrow> 'a \<Rightarrow> 'k EndpointClient \<Rightarrow> endpoint_stub \<Rightarrow> 'a \<Rightarrow> 'r" where
  "stub_call clone_caller call unit_arg c stub arg = call (if st_clones stub then clone_caller (caller c) else caller c)
     (st_service_method stub) (if st_takes_arg stub then arg else unit_arg)"

section \<open>service\<close>

text \<open>\<open>service.rs\<close> has its own copy of the test for \<open>impl Future\<close>.\<close>

definition service_result_type_from_future :: "ty \<Rightarrow> ty option" where
  "service_result_type_from_future t = (case t of Ty_Impl_Trait bs \<Rightarrow> future_output bs | _ \<Rightarrow> None)"

definition service_returns_impl_future :: "method_sig \<Rightarrow> bool" where
  "service_returns_impl_future m = (case ms_output m of
     Some t \<Rightarrow> service_result_type_from_future t \<noteq> None | None \<Rightarrow> False)"

definition first_typed :: "fn_arg list \<Rightarrow> ty panics" where
  "first_typed args = (case filter (\<lambda>a. a \<noteq> Receiver) args of
     Typed_Ident _ t # _ \<Rightarrow> Returns t | Typed_Pattern t # _ \<Rightarrow> Returns t | _ \<Rightarrow> Panic)"

definition returns_pin_box_future :: "method_sig \<Rightarrow> bool" where
  "returns_pin_box_future m = (case ms_output m of
     Some (Ty_Path q c segs) \<Rightarrow> (case last_seg segs of
        Some s \<Rightarrow> seg_ident s = lit ''Pin'' \<and> length segs > 1 | None \<Rightarrow> False)
   | _ \<Rightarrow> False)"

definition service_method :: "method_sig \<Rightarrow> (rstr \<times> ty) panics" where
  "service_method m = and_then (first_typed (ms_inputs m)) (\<lambda>arg_ty.
     if \<not> (ms_async m \<or> returns_pin_box_future m \<or> service_returns_impl_future m) then Panic
     else Returns (ms_name m, arg_ty))"

fun service_methods :: "item list \<Rightarrow> (rstr \<times> ty) list panics" where
  "service_methods [] = Returns []"
| "service_methods (Item_Method m # items) =
    and_then (service_method m) (\<lambda>x. and_then (service_methods items) (\<lambda>xs. Returns (x # xs)))"
| "service_methods (Item_Other # items) = service_methods items"

text \<open>
  The macro on \<open>impl Trait for Struct\<close>; \<open>trait_path\<close> is the path of the trait, if there is
  one, and \<open>handlers\<close> the generated handler of each method.
\<close>

definition service_impl ::
  "seg list option \<Rightarrow> item list \<Rightarrow> (rstr \<Rightarrow> 'c serve_fun) \<Rightarrow> 'c ServiceStatic panics" where
  "service_impl trait_path items handlers = (case trait_path of
     None \<Rightarrow> Panic
   | Some segs \<Rightarrow> (case last_seg segs of
        None \<Rightarrow> Panic
      | Some s \<Rightarrow> and_then (service_methods items) (\<lambda>ms.
          Returns (service_expand (seg_ident s) (map (\<lambda>(n, _). (n, handlers n)) ms)))))"

text \<open>
  The attributes on an item of any kind: \<open>service\<close> wants an \<open>impl\<close> block, \<open>service_mux_struct\<close> a
  struct with named fields.
\<close>

datatype 'c rust_item =
    Impl_Block "seg list option" "item list"
  | Struct_Decl "(rstr option \<times> 'c ServiceStatic) list"
  | Other_Item

definition service_macro :: "'c rust_item \<Rightarrow> (rstr \<Rightarrow> 'c serve_fun) \<Rightarrow> 'c ServiceStatic panics" where
  "service_macro it handlers = (case it of
     Impl_Block trait_path items \<Rightarrow> service_impl trait_path items handlers | _ \<Rightarrow> Panic)"

fun named_fields :: "(rstr option \<times> 'a) list \<Rightarrow> 'a list panics" where
  "named_fields [] = Returns []"
| "named_fields ((None, _) # fs) = Panic"
| "named_fields ((Some _, x) # fs) = and_then (named_fields fs) (\<lambda>xs. Returns (x # xs))"

definition service_mux_struct_macro :: "'c rust_item \<Rightarrow> 'c ServiceStatic panics" where
  "service_mux_struct_macro it = (case it of
     Struct_Decl fds \<Rightarrow> and_then (named_fields fds) (\<lambda>svcs. Returns (service_mux_struct svcs)) | _ \<Rightarrow> Panic)"

section \<open>Both sides agree\<close>

lemma generate_trait_impl_stubs:
  "generate_trait_impl trait_name items = Returns stubs \<Longrightarrow>
     map st_name stubs = map ms_name (item_methods items)
   \<and> (\<forall>stub \<in> set stubs. st_service_method stub = trait_name @ dot # st_name stub)
   \<and> (\<forall>m \<in> set (item_methods items). check_return_type (ms_output m) (returns_impl_future m) \<and> length (ms_inputs m) = 2)"
proof (induction items arbitrary: stubs rule: item_methods.induct)
  case (2 m items)
  then obtain stub stubs' where s: "endpoint_method trait_name m = Returns stub"
      "generate_trait_impl trait_name items = Returns stubs'" "stubs = stub # stubs'"
    by (auto simp: and_then_Returns)
  have "st_name stub = ms_name m \<and> st_service_method stub = trait_name @ dot # st_name stub
      \<and> check_return_type (ms_output m) (returns_impl_future m) \<and> length (ms_inputs m) = 2"
    using s(1) by (auto simp: endpoint_method_def split: list.splits if_splits)
  then show ?case using "2.IH" [OF s(2)] s(3) by simp
qed auto

lemma service_methods_names:
  "service_methods items = Returns ms \<Longrightarrow> map fst ms = map ms_name (item_methods items)"
proof (induction items arbitrary: ms rule: item_methods.induct)
  case (2 m items)
  then show ?case by (auto simp: and_then_Returns service_method_def split: if_splits)
qed auto

lemma map_of_handlers: "n \<in> fst ` set ms \<Longrightarrow> map_of (map (\<lambda>(n, _). (n, h n)) ms) n = Some (h n)"
  by (induction ms) auto

text \<open>
  C21: client stubs reach the service methods of the same name. When both macros accept a
  trait and its implementation, a stub exists for every method of the trait, and the request
  a stub sends is routed, by a server that has the service, to the handler of exactly that
  method.
\<close>

theorem endpoint_reaches_service_method:
  assumes stubs: "endpoint_async client_name attrs trait_name items = Returns code"
    and service: "service_macro (Impl_Block (Some segs) impl_items) handlers = Returns svc" "SERVICE_NAME svc = trait_name"
    and same: "ms_name ` set (item_methods items) \<subseteq> ms_name ` set (item_methods impl_items)"
    and name: "dot \<notin> set trait_name" and added: "mux trait_name = Some svc"
  shows "map st_name (ec_stubs code) = map ms_name (item_methods items)
    \<and> (\<forall>stub \<in> set (ec_stubs code). dispatch_req (api_dispatch (mux_dyn mux)) codec
          \<lparr>req_seq = seq, req_action = Str (st_service_method stub), req_msg = msg, req_blob = blob\<rparr> noti
        = (case handlers (st_name stub) codec
             \<lparr>as_seq = seq, as_service = trait_name, as_method = st_name stub, as_req = Some msg\<rparr> noti of
             Panic \<Rightarrow> Panic | Returns q \<Rightarrow> Returns (q, [], Ok ())))"
proof -
  obtain ms where ms: "service_methods impl_items = Returns ms"
      "svc = service_expand trait_name (map (\<lambda>(n, _). (n, handlers n)) ms)"
    using service by (auto simp: service_macro_def service_impl_def and_then_Returns service_expand_def split: option.splits)
  have "generate_trait_impl trait_name items = Returns (ec_stubs code)"
    using stubs by (auto simp: endpoint_async_def and_then_Returns)
  note st = generate_trait_impl_stubs [OF this]
  have "st_name stub \<in> fst ` set ms" if "stub \<in> set (ec_stubs code)" for stub
  proof -
    have "st_name stub \<in> set (map st_name (ec_stubs code))" using that by simp
    then have "st_name stub \<in> ms_name ` set (item_methods items)" using st by simp
    then have "st_name stub \<in> set (map fst ms)" using same service_methods_names [OF ms(1)] by auto
    then show ?thesis by simp
  qed
  then show ?thesis using st ms(2) name added
    by (auto simp: api_dispatch_def api_dispatch_req_def inline_dispatch_fn_def mux_dyn_def mux_dyn_serve_def
        service_expand_def service_serve_map_of map_of_handlers)
qed

section \<open>Witness\<close>

definition demo_sig :: method_sig where
  "demo_sig = \<lparr>ms_name = lit ''inc'', ms_inputs = [Receiver, Typed_Ident (lit ''x'') (Ty_Other [])], ms_async = True,
     ms_output = Some (Ty_Path False False [Seg (lit ''Result'') (Angle [Arg_Type (Ty_Tuple []),
       Arg_Type (Ty_Path False False [Seg (lit ''RpcError'') (Angle [Arg_Type (Ty_Tuple [])])])])])\<rparr>"

theorem endpoint_reaches_service_method_witness:
  "dispatch_req (api_dispatch (mux_dyn [lit ''Calc'' \<mapsto> service_expand (lit ''Calc'')
        [(lit ''inc'', handle_method raw_codec raw_codec unit_err Ok)]])) ()
      \<lparr>req_seq = 3, req_action = Str (lit ''Calc'' @ dot # lit ''inc''), req_msg = [5], req_blob = None\<rparr>
      \<lparr>noti_queue = [], noti_rx_alive = True\<rparr>
    = Returns (\<lparr>noti_queue = [Ok \<lparr>ar_seq = 3, ar_msg = Some [5], ar_res = Some (Ok ())\<rparr>], noti_rx_alive = True\<rparr>, [], Ok ())"
proof -
  let ?h = "\<lambda>_ :: rstr. handle_method raw_codec raw_codec unit_err Ok :: unit serve_fun"
  have g: "endpoint_async (lit ''CalcClient'') [] (lit ''Calc'') [Item_Method demo_sig]
      = Returns \<lparr>ec_client = lit ''CalcClient'', ec_trait = lit ''Calc'', ec_async_trait = False,
          ec_stubs = [\<lparr>st_name = lit ''inc'', st_service_method = lit ''Calc'' @ dot # lit ''inc'', st_takes_arg = True, st_clones = False\<rparr>]\<rparr>"
    by (simp add: endpoint_async_def has_async_trait_def endpoint_method_def demo_sig_def check_return_type_def check_result_type_def returns_impl_future_def
        get_result_type_from_future_def last_seg_def)
  have s: "service_macro (Impl_Block (Some [Seg (lit ''Calc'') No_Args]) [Item_Method demo_sig]) ?h
      = Returns (service_expand (lit ''Calc'') [(lit ''inc'', ?h [])])"
    by (simp add: service_macro_def service_impl_def service_method_def first_typed_def demo_sig_def last_seg_def)
  have n: "dot \<notin> set (lit ''Calc'')" by (simp add: dot_def lit_def)
  have a: "[lit ''Calc'' \<mapsto> service_expand (lit ''Calc'') [(lit ''inc'', ?h [])]] (lit ''Calc'')
      = Some (service_expand (lit ''Calc'') [(lit ''inc'', ?h [])])" by simp
  show ?thesis
    using conjunct2 [OF endpoint_reaches_service_method [where codec = "()" and seq = 3 and msg = "[5]" and blob = None
        and noti = "\<lparr>noti_queue = [], noti_rx_alive = True\<rparr>" and handlers = ?h
        and mux = "[lit ''Calc'' \<mapsto> service_expand (lit ''Calc'') [(lit ''inc'', ?h [])]]", OF g s _ _ n a]]
    by (simp add: service_expand_def handle_method_def raw_codec_def api_set_result_def noti_done_enqueue enqueue_def)
qed

end
