(* ===== verification/Text_Format.thy ===== *)
theory Text_Format
  imports Prelude
begin

text \<open>
  Text in byte strings: the decimal numbers that \<open>to_string\<close> and \<open>{}\<close> print and \<open>str::parse\<close>
  reads, lists joined and split at a separator. The graceful restart passes descriptors this
  way, and every \<open>Display\<close> and \<open>Debug\<close> implementation prints numbers.
\<close>

section \<open>Decimal numbers and lists in strings\<close>

text \<open>\<open>i32::to_string\<close> and \<open>str::parse::<i32>\<close>.\<close>

definition digit :: "nat \<Rightarrow> u8" where
  "digit d = of_nat (48 + d)"

fun show_nat :: "nat \<Rightarrow> rstr" where
  "show_nat n = (if n < 10 then [digit n] else show_nat (n div 10) @ [digit (n mod 10)])"

declare show_nat.simps [simp del]

definition show_int :: "int \<Rightarrow> rstr" where
  "show_int n = (if n < 0 then 45 # show_nat (nat (- n)) else show_nat (nat n))"

fun parse_digits :: "nat \<Rightarrow> rstr \<Rightarrow> nat option" where
  "parse_digits acc [] = Some acc"
| "parse_digits acc (c # cs) =
    (if 48 \<le> c \<and> c \<le> 57 then parse_digits (acc * 10 + (unat c - 48)) cs else None)"

definition in_i32 :: "int \<Rightarrow> bool" where
  "in_i32 n \<longleftrightarrow> - (2 ^ 31) \<le> n \<and> n < 2 ^ 31"

definition parse_magnitude :: "int \<Rightarrow> rstr \<Rightarrow> (int, unit) result" where
  "parse_magnitude sg ds = (if ds = [] then Err () else
     (case parse_digits 0 ds of
        Some v \<Rightarrow> if in_i32 (sg * int v) then Ok (sg * int v) else Err ()
      | None \<Rightarrow> Err ()))"

definition parse_i32 :: "rstr \<Rightarrow> (int, unit) result" where
  "parse_i32 s = (case s of
     [] \<Rightarrow> Err ()
   | c # cs \<Rightarrow> if c = 45 then parse_magnitude (- 1) cs
              else if c = 43 then parse_magnitude 1 cs else parse_magnitude 1 s)"

text \<open>\<open>join(",")\<close> and \<open>split(',')\<close>; splitting the empty string gives one empty piece.\<close>

fun join :: "u8 \<Rightarrow> rstr list \<Rightarrow> rstr" where
  "join d [] = []"
| "join d [s] = s"
| "join d (s # ss) = s @ d # join d ss"

fun split_on :: "u8 \<Rightarrow> rstr \<Rightarrow> rstr list" where
  "split_on d [] = [[]]"
| "split_on d (x # xs) = (if x = d then [] # split_on d xs
     else (case split_on d xs of p # ps \<Rightarrow> (x # p) # ps | [] \<Rightarrow> [[x]]))"

definition comma :: u8 where "comma = 44"

section \<open>Lemmas: numbers\<close>

lemma digit_range: "d < 10 \<Longrightarrow> 48 \<le> digit d \<and> digit d \<le> 57 \<and> unat (digit d) - 48 = d"
proof -
  assume "d < 10"
  then have "d \<in> {0, 1, 2, 3, 4, 5, 6, 7, 8, 9}" by auto
  then show ?thesis by (auto simp: digit_def)
qed

lemma parse_digits_append:
  "parse_digits acc (a @ b) = (case parse_digits acc a of Some v \<Rightarrow> parse_digits v b | None \<Rightarrow> None)"
  by (induction acc a rule: parse_digits.induct) auto

lemma parse_show_nat: "parse_digits 0 (show_nat n) = Some n"
proof (induction n rule: show_nat.induct)
  case (1 n)
  show ?case
  proof (cases "n < 10")
    case True
    then show ?thesis using digit_range [of n] by (simp add: show_nat.simps [of n])
  next
    case False
    then show ?thesis using 1 digit_range [of "n mod 10"]
      by (simp add: show_nat.simps [of n] parse_digits_append)
  qed
qed

lemma show_nat_digits: "c \<in> set (show_nat n) \<Longrightarrow> 48 \<le> c \<and> c \<le> 57"
proof (induction n rule: show_nat.induct)
  case (1 n)
  then show ?case using digit_range [of n] digit_range [of "n mod 10"]
    by (auto simp: show_nat.simps [of n] split: if_splits)
qed

lemma show_nat_ne: "show_nat n \<noteq> []"
  by (simp add: show_nat.simps [of n])

lemma parse_show: "in_i32 n \<Longrightarrow> parse_i32 (show_int n) = Ok n"
proof (cases "n < 0")
  case True
  assume "in_i32 n"
  then show ?thesis using True parse_show_nat [of "nat (- n)"] show_nat_ne
    by (simp add: show_int_def parse_i32_def parse_magnitude_def)
next
  case False
  assume n: "in_i32 n"
  obtain c cs where c: "show_nat (nat n) = c # cs" using show_nat_ne by (cases "show_nat (nat n)") auto
  have "48 \<le> c" using show_nat_digits [of c "nat n"] c by simp
  then have "c \<noteq> 45" "c \<noteq> 43" by auto
  then show ?thesis using False n c parse_show_nat [of "nat n"]
    by (simp add: show_int_def parse_i32_def parse_magnitude_def)
qed

lemma ascii_digit: "(c :: u8) \<le> 57 \<Longrightarrow> c < 0x80"
  by (erule order.strict_trans1) simp

lemma show_int_chars: "c \<in> set (show_int n) \<Longrightarrow> c \<noteq> comma \<and> c < 0x80"
  using show_nat_digits [of c "nat n"] show_nat_digits [of c "nat (- n)"]
  by (auto simp: show_int_def comma_def intro: ascii_digit split: if_splits)

lemma show_int_ne: "show_int n \<noteq> []"
  by (simp add: show_int_def show_nat_ne)

section \<open>Lemmas: lists in strings\<close>

lemma split_ne: "split_on d s \<noteq> []"
  by (cases s) (auto split: list.splits)

lemma split_piece: "d \<notin> set a \<Longrightarrow> split_on d (a @ d # b) = a # split_on d b"
  by (induction a) auto

lemma split_single: "d \<notin> set a \<Longrightarrow> split_on d a = [a]"
  by (induction a) auto

lemma split_join: "ss \<noteq> [] \<Longrightarrow> \<forall>s \<in> set ss. d \<notin> set s \<Longrightarrow> split_on d (join d ss) = ss"
  by (induction d ss rule: join.induct) (auto simp: split_piece split_single)

lemma set_join: "set (join d ss) \<subseteq> insert d (\<Union> (set ` set ss))"
  by (induction d ss rule: join.induct) auto

lemma utf8_ascii: "\<forall>c \<in> set s. c < 0x80 \<Longrightarrow> utf8_valid s"
  by (induction s) auto

lemma joined_fds_text:
  assumes "fds \<noteq> []"
  shows "utf8_valid (join comma (map show_int fds)) \<and> split_on comma (join comma (map show_int fds)) = map show_int fds"
proof
  have c: "\<forall>s \<in> set (map show_int fds). comma \<notin> set s" using show_int_chars by fastforce
  show "split_on comma (join comma (map show_int fds)) = map show_int fds"
    using assms c by (intro split_join) simp_all
  have "\<forall>c \<in> set (join comma (map show_int fds)). c < 0x80"
  proof
    fix c
    assume "c \<in> set (join comma (map show_int fds))"
    then have "c = comma \<or> (\<exists>fd. c \<in> set (show_int fd))" using set_join [of comma "map show_int fds"] by auto
    then show "c < 0x80" using show_int_chars by (auto simp: comma_def)
  qed
  then show "utf8_valid (join comma (map show_int fds))" by (rule utf8_ascii)
qed

end
