(* ===== verification/Graceful.thy ===== *)
theory Graceful
  imports Text_Format
begin

text \<open>
  \<open>GracefulServer\<close> of \<open>src/stream/src/server/graceful.rs\<close>: a server hands its listening sockets
  to the program that replaces it. The descriptors travel as decimal numbers in an environment
  variable. What the operating system answers (binding, spawning, the child's file, signals)
  is an argument of the operations; a descriptor is an integer in the range of \<open>i32\<close>.
\<close>

section \<open>State and operations\<close>

record GracefulServer =
  run_dir :: rstr
  prog_name :: rstr
  listen_fds :: "rstr list"
  recovered :: bool
  recover_listen_fds :: "int list"
  restart_timeout :: nat
  close_signals :: "int list"

fun parse_all :: "rstr list \<Rightarrow> int list panics" where
  "parse_all [] = Returns []"
| "parse_all (s # ss) = (case parse_i32 s of
     Err _ \<Rightarrow> Panic | Ok fd \<Rightarrow> and_then (parse_all ss) (\<lambda>fds. Returns (fd # fds)))"

text \<open>\<open>env\<close> is the value of \<open>_GRACEFUL_RESTART\<close>, if it is set.\<close>

definition check_recover :: "bytes option \<Rightarrow> GracefulServer \<Rightarrow> GracefulServer panics" where
  "check_recover env g = (case env of
     None \<Rightarrow> Returns g
   | Some v \<Rightarrow> (case from_utf8 v of
        Err _ \<Rightarrow> Panic
      | Ok txt \<Rightarrow> and_then (parse_all (split_on comma txt)) (\<lambda>fds.
          Returns (g\<lparr>recover_listen_fds := recover_listen_fds g @ fds, recovered := True\<rparr>))))"

definition graceful_new ::
  "bytes option \<Rightarrow> rstr \<Rightarrow> rstr \<Rightarrow> nat \<Rightarrow> int list \<Rightarrow> GracefulServer panics" where
  "graceful_new env dir prog timeout signals = check_recover env
     \<lparr>run_dir = dir, prog_name = prog, listen_fds = [], recovered = False, recover_listen_fds = [],
      restart_timeout = timeout, close_signals = signals\<rparr>"

text \<open>
  \<open>new_listener\<close>: \<open>inherit\<close> is \<open>try_from_raw_fd\<close>, \<open>bound\<close> the result of binding the address,
  with the descriptor of the new socket. The result has the descriptor in use.
\<close>

definition new_listener ::
  "(rstr \<Rightarrow> int \<Rightarrow> bool) \<Rightarrow> rstr \<times> int option \<Rightarrow> GracefulServer \<Rightarrow> GracefulServer \<times> (int, unit) result" where
  "new_listener inherit = (\<lambda>(addr, bound) g.
    (let fallback = (\<lambda>g. case bound of
           None \<Rightarrow> (g, Err ())
         | Some fd \<Rightarrow> (g\<lparr>listen_fds := listen_fds g @ [show_int fd]\<rparr>, Ok fd))
     in case recover_listen_fds g of
          [] \<Rightarrow> fallback g
        | fd # fds \<Rightarrow>
            (let g' = g\<lparr>recover_listen_fds := fds\<rparr>
             in if inherit addr fd then (g'\<lparr>listen_fds := listen_fds g' @ [show_int fd]\<rparr>, Ok fd)
                else fallback g')))"

text \<open>
  Files, by path. \<open>Path::join\<close> replaces the directory when the name is absolute, and puts a
  separator only where one is missing.
\<close>

type_synonym files = "rstr \<rightharpoonup> bytes"

definition path_join :: "rstr \<Rightarrow> rstr \<Rightarrow> rstr" where
  "path_join dir nm = (if nm \<noteq> [] \<and> hd nm = 47 then nm
     else if dir = [] \<or> last dir = 47 then dir @ nm else dir @ 47 # nm)"

text \<open>
  \<open>write_pid_file\<close>. The file system answers the opening, the write (an error may leave a
  first part of the text in the file) and the sync.
\<close>

record file_io =
  opens :: bool
  writes :: "(unit, nat) result"
  syncs :: bool

definition write_pid_file :: "file_io \<Rightarrow> nat \<Rightarrow> rstr \<Rightarrow> files \<Rightarrow> files \<times> (unit, unit) result" where
  "write_pid_file io pid path fs =
    (if \<not> opens io then (fs, Err ())
     else (case writes io of
             Err n \<Rightarrow> (fs(path \<mapsto> take n (show_nat pid)), Err ())
           | Ok _ \<Rightarrow> (fs(path \<mapsto> show_nat pid), if syncs io then Ok () else Err ())))"

definition pid_file_path :: "GracefulServer \<Rightarrow> rstr" where
  "pid_file_path g = path_join (run_dir g) (prog_name g @ lit ''.pid'')"

definition child_pid_file_path :: "nat \<Rightarrow> GracefulServer \<Rightarrow> rstr" where
  "child_pid_file_path pid g = path_join (run_dir g) (prog_name g @ lit ''_'' @ show_nat pid)"

definition write_child_pid_file ::
  "file_io \<Rightarrow> nat \<Rightarrow> GracefulServer \<Rightarrow> files \<Rightarrow> files \<times> (unit, unit) result" where
  "write_child_pid_file io pid g fs = write_pid_file io pid (child_pid_file_path pid g) fs"

text \<open>
  \<open>restart\<close>: what the child gets (its environment and the descriptors that stay open), the
  file removed, and the result. The world a restart meets: the child's process number when
  spawning works, at each turn of the waiting loop the time since the start and which paths
  can be opened, and the answer of \<open>try_wait\<close>. A result of \<open>None\<close> is a loop still waiting. The
  child gets the arguments of the program as they are; they have no other part in a restart.
\<close>

record restart_env =
  child :: "nat option"
  looks :: "(nat \<times> (rstr \<Rightarrow> bool)) list"
  exited :: "(bool, unit) result"

record restart_out =
  passed_env :: rstr
  kept_fds :: "int list"
  removed_file :: "rstr option"
  outcome :: "(unit, unit) result option"

fun restart_wait :: "nat \<Rightarrow> rstr \<Rightarrow> (nat \<times> (rstr \<Rightarrow> bool)) list \<Rightarrow> bool option" where
  "restart_wait timeout path [] = None"
| "restart_wait timeout path ((elapsed, can_open) # obs) =
    (if elapsed > timeout then Some False
     else if can_open path then Some True else restart_wait timeout path obs)"

definition restart :: "restart_env \<Rightarrow> GracefulServer \<Rightarrow> restart_out panics" where
  "restart env g = and_then (parse_all (listen_fds g)) (\<lambda>fds.
     let out = \<lparr>passed_env = join comma (listen_fds g), kept_fds = sort fds, removed_file = None,
                outcome = None\<rparr>
     in Returns (case child env of
          None \<Rightarrow> out\<lparr>outcome := Some (Err ())\<rparr>
        | Some pid \<Rightarrow>
            (case restart_wait (restart_timeout g) (child_pid_file_path pid g) (looks env) of
               None \<Rightarrow> out
             | Some True \<Rightarrow> out\<lparr>removed_file := Some (child_pid_file_path pid g), outcome := Some (Ok ())\<rparr>
             | Some False \<Rightarrow> out\<lparr>outcome := Some (case exited env of
                   Ok True \<Rightarrow> Err () | Ok False \<Rightarrow> Ok () | Err _ \<Rightarrow> Err ())\<rparr>)))"

text \<open>
  \<open>ready\<close>: the signals that arrive and the worlds of the restarts are given in order. The
  signal loop tells whether it has ended, and the restarts it made.
\<close>

definition ready_signals :: "int option \<Rightarrow> GracefulServer \<Rightarrow> int list" where
  "ready_signals restart_signal g = (case restart_signal of
     Some s \<Rightarrow> if s \<in> set (close_signals g) then close_signals g else close_signals g @ [s]
   | None \<Rightarrow> close_signals g)"

fun signal_loop ::
  "int option \<Rightarrow> restart_env list \<Rightarrow> int list \<Rightarrow> GracefulServer \<Rightarrow> (bool \<times> restart_out list) panics" where
  "signal_loop restart_signal envs [] g = Returns (False, [])"
| "signal_loop restart_signal envs (s # sigs) g =
    (if restart_signal = Some s
     then (case envs of
             [] \<Rightarrow> Returns (False, [])
           | env # envs' \<Rightarrow> and_then (restart env g) (\<lambda>out. case outcome out of
                None \<Rightarrow> Returns (False, [out])
              | Some (Ok _) \<Rightarrow> Returns (True, [out])
              | Some (Err _) \<Rightarrow> and_then (signal_loop restart_signal envs' sigs g) (\<lambda>(ended, outs).
                  Returns (ended, out # outs))))
     else Returns (True, []))"

datatype ready_end = Start_Failed | Serving "restart_out list" | Exit_Closure_Run "restart_out list"

definition ready ::
  "file_io \<Rightarrow> file_io \<Rightarrow> nat \<Rightarrow> (int list \<Rightarrow> bool) \<Rightarrow> int option \<Rightarrow> restart_env list \<Rightarrow> int list
   \<Rightarrow> GracefulServer \<Rightarrow> files \<Rightarrow> files \<times> ready_end panics" where
  "ready io io_child pid registers restart_signal envs arrive g fs =
    (case write_pid_file io pid (pid_file_path g) fs of
       (fs1, Err _) \<Rightarrow> (fs1, Returns Start_Failed)
     | (fs1, Ok _) \<Rightarrow>
         (let fs2 = (if recovered g then fst (write_child_pid_file io_child pid g fs1) else fs1);
              sigs = ready_signals restart_signal g
          in (fs2, if \<not> registers sigs then Panic
                   else and_then (signal_loop restart_signal envs (filter (\<lambda>s. s \<in> set sigs) arrive) g)
                     (\<lambda>(ended, outs). Returns (if ended then Exit_Closure_Run outs else Serving outs)))))"

section \<open>Handing over\<close>

lemma parse_all_show: "\<forall>n \<in> set fds. in_i32 n \<Longrightarrow> parse_all (map show_int fds) = Returns fds"
  by (induction fds) (auto simp: parse_show)

fun open_listeners ::
  "(rstr \<Rightarrow> int \<Rightarrow> bool) \<Rightarrow> (rstr \<times> int option) list \<Rightarrow> GracefulServer \<Rightarrow> GracefulServer \<times> (int, unit) result list" where
  "open_listeners inherit [] g = (g, [])"
| "open_listeners inherit (a # as) g = (case new_listener inherit a g of
     (g', r) \<Rightarrow> (case open_listeners inherit as g' of (g'', rs) \<Rightarrow> (g'', r # rs)))"

lemma open_fresh:
  "recover_listen_fds g = [] \<Longrightarrow>
   open_listeners inherit (map (\<lambda>(a, fd). (a, Some fd)) specs) g
     = (g\<lparr>listen_fds := listen_fds g @ map (show_int \<circ> snd) specs\<rparr>, map (Ok \<circ> snd) specs)"
  by (induction specs arbitrary: g) (auto simp: new_listener_def split: prod.splits)

lemma open_inherited:
  "recover_listen_fds g = map snd specs @ rest \<Longrightarrow> \<forall>(a, fd) \<in> set specs. inherit a fd \<Longrightarrow>
   open_listeners inherit (map (\<lambda>(a, _). (a, None)) specs) g
     = (g\<lparr>recover_listen_fds := rest, listen_fds := listen_fds g @ map (show_int \<circ> snd) specs\<rparr>, map (Ok \<circ> snd) specs)"
  by (induction specs arbitrary: g) (auto simp: new_listener_def split: prod.splits)

lemma restart_passes:
  "listen_fds g = map show_int fds \<Longrightarrow> \<forall>n \<in> set fds. in_i32 n \<Longrightarrow>
   \<exists>out. restart env g = Returns out \<and> passed_env out = join comma (map show_int fds) \<and> kept_fds out = sort fds"
  by (simp add: restart_def parse_all_show Let_def split: option.split bool.split)

text \<open>
  C33: a restart hands every listening socket to the new program. When a server that has
  opened listeners restarts, the descriptors kept open for the child are exactly those of its
  listeners; a child that opens its listeners in the same order gets the socket of each
  address, without binding any, and could hand them on in the same way.
\<close>

theorem restart_hands_over_listeners:
  assumes "specs \<noteq> []" and "\<forall>(a, fd) \<in> set specs. in_i32 fd \<and> inherit a fd"
    and "graceful_new None dir prog timeout signals = Returns g0"
    and "open_listeners inherit0 (map (\<lambda>(a, fd). (a, Some fd)) specs) g0 = (g, rs)"
  shows "\<exists>out h h'. restart world g = Returns out \<and> kept_fds out = sort (map snd specs)
    \<and> graceful_new (Some (passed_env out)) dir prog timeout signals = Returns h \<and> recovered h
    \<and> open_listeners inherit (map (\<lambda>(a, _). (a, None)) specs) h = (h', map (Ok \<circ> snd) specs)
    \<and> listen_fds h' = listen_fds g \<and> recover_listen_fds h' = []"
proof -
  let ?fds = "map snd specs"
  have rng: "\<forall>n \<in> set ?fds. in_i32 n" using assms(2) by auto
  have g0: "recover_listen_fds g0 = []" "listen_fds g0 = []" using assms(3) by (auto simp: graceful_new_def check_recover_def)
  have g: "listen_fds g = map show_int ?fds" using assms(4) open_fresh [OF g0(1), of inherit0 specs] g0(2) by auto
  obtain out where r: "restart world g = Returns out" "passed_env out = join comma (map show_int ?fds)"
      "kept_fds out = sort ?fds"
    using restart_passes [of g ?fds world] g rng by blast
  let ?h = "\<lparr>run_dir = dir, prog_name = prog, listen_fds = [], recovered = True, recover_listen_fds = ?fds,
      restart_timeout = timeout, close_signals = signals\<rparr>"
  have h: "graceful_new (Some (join comma (map show_int ?fds))) dir prog timeout signals = Returns ?h"
    using joined_fds_text [of ?fds] assms(1) parse_all_show [OF rng]
    by (simp add: graceful_new_def check_recover_def from_utf8_def)
  have "open_listeners inherit (map (\<lambda>(a, _). (a, None)) specs) ?h
      = (?h\<lparr>recover_listen_fds := [], listen_fds := map show_int ?fds\<rparr>, map (Ok \<circ> snd) specs)"
    using open_inherited [of ?h specs "[]" inherit] assms(2) by auto
  then show ?thesis using r h g by auto
qed

text \<open>
  Without listeners the child is given an empty list, which is split into one empty piece and
  cannot be parsed: the new program panics at once.
\<close>

lemma empty_handover_panics: "graceful_new (Some (join comma [])) dir prog timeout signals = Panic"
  by (simp add: graceful_new_def check_recover_def from_utf8_def parse_i32_def)

theorem restart_hands_over_listeners_witness:
  "\<exists>g out h h'. open_listeners (\<lambda>_ _. False) [(lit ''a'', Some 7), (lit ''b'', Some 12)] (g :: GracefulServer)
      = (g\<lparr>listen_fds := [lit ''7'', lit ''12'']\<rparr>, [Ok 7, Ok 12])
    \<and> restart \<lparr>child = Some 9, looks = [], exited = Ok False\<rparr> (g\<lparr>listen_fds := [lit ''7'', lit ''12'']\<rparr>) = Returns out
    \<and> kept_fds out = [7, 12] \<and> graceful_new (Some (passed_env out)) [] [] 5 [] = Returns h
    \<and> open_listeners (\<lambda>_ _. True) [(lit ''a'', None), (lit ''b'', None)] h = (h', [Ok 7, Ok 12])"
proof -
  let ?specs = "[(lit ''a'', 7), (lit ''b'', 12)] :: (rstr \<times> int) list"
  let ?g0 = "\<lparr>run_dir = [], prog_name = [], listen_fds = [], recovered = False, recover_listen_fds = [],
      restart_timeout = 5, close_signals = []\<rparr>"
  have new: "graceful_new None [] [] 5 [] = Returns ?g0" by (simp add: graceful_new_def check_recover_def)
  have shown: "show_int 7 = lit ''7''" "show_int 12 = lit ''12''"
    by (simp_all add: show_int_def show_nat.simps digit_def lit_def)
  have opened: "open_listeners (\<lambda>_ _. False) (map (\<lambda>(a, fd). (a, Some fd)) ?specs) ?g0
      = (?g0\<lparr>listen_fds := [lit ''7'', lit ''12'']\<rparr>, [Ok 7, Ok 12])"
    by (simp add: new_listener_def shown)
  have rng: "\<forall>(a, fd) \<in> set ?specs. in_i32 fd \<and> True" by (simp add: in_i32_def)
  show ?thesis
    using restart_hands_over_listeners [OF _ rng new opened, of "\<lparr>child = Some 9, looks = [], exited = Ok False\<rparr>"] opened
    by (intro exI [of _ ?g0]) auto
qed

section \<open>The handshake of parent and child\<close>

lemma restart_wait_True:
  "restart_wait timeout path obs = Some True \<longleftrightarrow>
   (\<exists>before t can_open after. obs = before @ (t, can_open) # after \<and> t \<le> timeout \<and> can_open path
      \<and> (\<forall>(e, c) \<in> set before. e \<le> timeout))" (is "?L obs \<longleftrightarrow> ?R obs")
proof
  show "?L obs \<Longrightarrow> ?R obs"
  proof (induction obs)
    case (Cons ob obs)
    obtain e c where ob: "ob = (e, c)" by (cases ob)
    show ?case
    proof (cases "c path")
      case True
      then show ?thesis using Cons.prems ob
        by (intro exI [of _ "[]"] exI [of _ e] exI [of _ c] exI [of _ obs]) (auto split: if_splits)
    next
      case False
      then have e: "e \<le> timeout" "?L obs" using Cons.prems ob by (auto split: if_splits)
      then obtain before t can_open after where "obs = before @ (t, can_open) # after" "t \<le> timeout" "can_open path"
          "\<forall>(e, c) \<in> set before. e \<le> timeout" using Cons.IH by blast
      then show ?thesis using e ob
        by (intro exI [of _ "ob # before"] exI [of _ t] exI [of _ can_open] exI [of _ after]) auto
    qed
  qed simp
next
  assume "?R obs"
  then obtain before t can_open after where obs: "obs = before @ (t, can_open) # after" and t: "t \<le> timeout"
      "can_open path" and b: "\<forall>(e, c) \<in> set before. e \<le> timeout" by blast
  show "?L obs" unfolding obs using b t by (induction before) auto
qed

text \<open>
  The parent counts a restart as done exactly when the child's file appears while it waits,
  or the time is over and the child is still there.
\<close>

lemma restart_done_iff:
  assumes "restart env g = Returns out"
  shows "outcome out = Some (Ok ()) \<longleftrightarrow> (\<exists>pid. child env = Some pid \<and>
    (restart_wait (restart_timeout g) (child_pid_file_path pid g) (looks env) = Some True
     \<or> restart_wait (restart_timeout g) (child_pid_file_path pid g) (looks env) = Some False \<and> exited env = Ok False))"
proof (cases "child env")
  case None
  then show ?thesis using assms by (auto simp: restart_def Let_def and_then_Returns)
next
  case (Some pid)
  then show ?thesis using assms
    by (cases "restart_wait (restart_timeout g) (child_pid_file_path pid g) (looks env)")
       (auto simp: restart_def Let_def and_then_Returns split: bool.splits result.splits)
qed

lemma ready_writes:
  assumes "ready io io_child pid registers rs envs arrive g fs = (fs', r)" and "r \<noteq> Returns Start_Failed"
  shows "pid_file_path g \<in> dom fs'"
    and "recovered g \<Longrightarrow> opens io_child \<Longrightarrow> child_pid_file_path pid g \<in> dom fs'"
  using assms
  by (auto simp: ready_def write_child_pid_file_def write_pid_file_def Let_def split: if_splits result.splits prod.splits)

lemma same_place:
  "run_dir h = run_dir g \<Longrightarrow> prog_name h = prog_name g \<Longrightarrow> child_pid_file_path pid h = child_pid_file_path pid g"
  by (simp add: child_pid_file_path_def)

text \<open>
  C34: the handshake of a restart. When the new program, started with the same directory and
  name, reaches \<open>ready\<close> and creates its announcement file, and the parent looks while it is
  still waiting, the parent's own \<open>ready\<close> ends after this one restart: it removes that file and
  runs its exit closure.
\<close>

theorem restart_handshake:
  assumes "recovered h" and "run_dir h = run_dir g" and "prog_name h = prog_name g"
    and "ready io io_child pid registers rs envs arrive h fs = (fs', r)" and "r \<noteq> Returns Start_Failed"
    and "opens io_child"
    and "looks world = before @ (t, can_open) # after" and "t \<le> restart_timeout g"
    and "\<forall>(e, c) \<in> set before. e \<le> restart_timeout g \<and> \<not> c (child_pid_file_path pid g)"
    and "\<forall>p \<in> dom fs'. can_open p" and "child world = Some pid"
    and "listen_fds g = map show_int fds" and "\<forall>n \<in> set fds. in_i32 n"
    and "opens io0" and "writes io0 = Ok ()" and "syncs io0" and "registers0 (ready_signals (Some s) g)"
  shows "\<exists>out. snd (ready io0 io1 ppid registers0 (Some s) (world # worlds) (s # later) g gfs)
      = Returns (Exit_Closure_Run [out])
    \<and> removed_file out = Some (child_pid_file_path pid h) \<and> passed_env out = join comma (map show_int fds)"
proof -
  let ?path = "child_pid_file_path pid g"
  have "?path \<in> dom fs'"
    using ready_writes(2) [OF assms(4,5,1,6)] same_place [OF assms(2,3)] by simp
  then have "restart_wait (restart_timeout g) ?path (looks world) = Some True"
    using assms(7,8,9,10) unfolding restart_wait_True by blast
  then obtain out where out: "restart world g = Returns out" "outcome out = Some (Ok ())"
      "removed_file out = Some ?path" "passed_env out = join comma (map show_int fds)"
    using assms(11,12) parse_all_show [OF assms(13)] by (simp add: restart_def Let_def)
  have "s \<in> set (ready_signals (Some s) g)" by (simp add: ready_signals_def)
  then show ?thesis using out assms(14-17) same_place [OF assms(2,3)]
    by (simp add: ready_def write_pid_file_def Let_def)
qed

definition demo_server :: "bool \<Rightarrow> GracefulServer" where
  "demo_server rec = \<lparr>run_dir = lit ''/run'', prog_name = lit ''p'', listen_fds = [show_int 7], recovered = rec,
     recover_listen_fds = [], restart_timeout = 5, close_signals = [15]\<rparr>"

definition demo_io :: file_io where
  "demo_io = \<lparr>opens = True, writes = Ok (), syncs = True\<rparr>"

theorem restart_handshake_witness:
  "\<exists>out. snd (ready demo_io demo_io 1 (\<lambda>_. True) (Some 12)
      [\<lparr>child = Some 9, looks = [(0, \<lambda>_. False),
         (1, \<lambda>p. p \<in> dom (fst (ready demo_io demo_io 9 (\<lambda>_. True) None [] [] (demo_server True) Map.empty)))],
         exited = Ok False\<rparr>] [12] (demo_server False) Map.empty) = Returns (Exit_Closure_Run [out])
    \<and> removed_file out = Some (lit ''/run/p_9'')"
proof -
  let ?r = "ready demo_io demo_io 9 (\<lambda>_. True) None [] [] (demo_server True) Map.empty"
  let ?w = "\<lparr>child = Some 9, looks = [(0, \<lambda>_. False), (1, \<lambda>p. p \<in> dom (fst ?r))], exited = Ok False\<rparr>"
  have r: "snd ?r \<noteq> Returns Start_Failed"
    by (simp add: ready_def demo_io_def demo_server_def write_pid_file_def Let_def)
  have path: "child_pid_file_path 9 (demo_server True) = lit ''/run/p_9''"
    by (simp add: child_pid_file_path_def demo_server_def path_join_def lit_def show_nat.simps digit_def)
  have "\<exists>out. snd (ready demo_io demo_io 1 (\<lambda>_. True) (Some 12) (?w # []) (12 # []) (demo_server False) Map.empty)
      = Returns (Exit_Closure_Run [out])
    \<and> removed_file out = Some (child_pid_file_path 9 (demo_server True)) \<and> passed_env out = join comma (map show_int [7])"
    by (rule restart_handshake [where before = "[(0, \<lambda>_. False)]" and t = 1 and after = "[]"
          and can_open = "\<lambda>p. p \<in> dom (fst ?r)", OF _ _ _ surjective_pairing r])
       (simp_all add: demo_server_def demo_io_def in_i32_def)
  then show ?thesis unfolding path by blast
qed

end
