(* ===== verification/Text_Output.thy ===== *)
theory Text_Output
  imports Api_Server Api_Client Task_Macros Text_Format
begin

text \<open>
  The text of the program's values: the \<open>Display\<close> and \<open>Debug\<close> implementations that log lines and
  error messages are made of. A printer of a type parameter is an argument, and so is \<open>quote\<close>, the
  \<open>Debug\<close> of a string, whose escapes follow Unicode tables.
\<close>

section \<open>Errors (\<open>stream/src/error.rs\<close>)\<close>

definition int_err_display :: "RpcIntErr \<Rightarrow> rstr" where
  "int_err_display e = as_ref e"

definition int_err_debug :: "RpcIntErr \<Rightarrow> rstr" where
  "int_err_debug e = int_err_display e"

definition rpc_error_display :: "('e \<Rightarrow> rstr) \<Rightarrow> 'e RpcError \<Rightarrow> rstr" where
  "rpc_error_display err_fmt e = (case e of User u \<Rightarrow> err_fmt u | Rpc i \<Rightarrow> int_err_display i)"

definition rpc_error_debug :: "('e \<Rightarrow> rstr) \<Rightarrow> 'e RpcError \<Rightarrow> rstr" where
  "rpc_error_debug err_fmt e = rpc_error_display err_fmt e"

definition signed_err_fmt :: "'a::len word \<Rightarrow> rstr" where
  "signed_err_fmt e = lit ''errno '' @ show_int (sint e)"

definition unsigned_err_fmt :: "'a::len word \<Rightarrow> rstr" where
  "unsigned_err_fmt e = lit ''errno '' @ show_nat (unat e)"

definition errno_err_fmt :: "('e \<Rightarrow> rstr) \<Rightarrow> 'e \<Rightarrow> rstr" where
  "errno_err_fmt errno_debug e = errno_debug e"

definition unit_err_fmt :: "unit \<Rightarrow> rstr" where
  "unit_err_fmt e = lit ''err''"

definition string_err_fmt :: "rstr \<Rightarrow> rstr" where
  "string_err_fmt e = e"

definition encoded_err_display :: "EncodedErr \<Rightarrow> rstr" where
  "encoded_err_display e = (case e of
     ERpc i \<Rightarrow> int_err_display i
   | ENum n \<Rightarrow> lit ''errno '' @ show_nat (unat n)
   | EStatic s \<Rightarrow> s
   | EBuf b \<Rightarrow> (case from_utf8 b of Ok s \<Rightarrow> s | Err _ \<Rightarrow> lit ''err blob '' @ show_nat (length b) @ lit '' length''))"

section \<open>Headers and actions (\<open>stream/src/proto.rs\<close>)\<close>

definition req_head_display :: "ReqHead \<Rightarrow> rstr" where
  "req_head_display h = lit ''[client_id:'' @ show_nat (unat (rq_client_id h)) @ lit '', seq:'' @ show_nat (unat (rq_seq h))
     @ lit '', msg:'' @ show_nat (unat (rq_msg_len h)) @ lit '', blob:'' @ show_int (sint (rq_blob_len h))
     @ (case req_get_action h of
          Ok action_num \<Rightarrow> lit '', action:'' @ show_int (sint action_num) @ lit '']''
        | Err action_len \<Rightarrow> lit ''action_len:'' @ show_int (sint action_len) @ lit '']'')"

definition resp_head_display :: "RespHead \<Rightarrow> rstr" where
  "resp_head_display h = lit ''[seq:'' @ show_nat (unat (rs_seq h)) @ lit '', flag:'' @ show_nat (unat (rs_flag h))
     @ lit '', msg:'' @ show_nat (unat (rs_msg_len h)) @ lit '', blob:'' @ show_int (sint (rs_blob_len h)) @ lit '']''"

definition action_debug :: "(rstr \<Rightarrow> rstr) \<Rightarrow> RpcAction \<Rightarrow> rstr" where
  "action_debug quote a = (case a of
     Str s \<Rightarrow> lit ''Str('' @ quote s @ lit '')'' | Num n \<Rightarrow> lit ''Num('' @ show_int (sint n) @ lit '')'')"

section \<open>Requests, tasks and connections\<close>

definition svr_req_debug :: "(rstr \<Rightarrow> rstr) \<Rightarrow> RpcSvrReq \<Rightarrow> rstr" where
  "svr_req_debug quote r = lit ''req(seq='' @ show_nat (unat (req_seq r)) @ lit '', action='' @ action_debug quote (req_action r) @ lit '')''"

definition res_text :: "('e \<Rightarrow> rstr) \<Rightarrow> (unit, 'e) result option \<Rightarrow> rstr" where
  "res_text err_display r = (case r of
     Some (Ok _) \<Rightarrow> lit '' ok'' | Some (Err e) \<Rightarrow> lit '' err: '' @ err_display e | None \<Rightarrow> [])"

definition variant_debug :: "(rstr \<Rightarrow> rstr) \<Rightarrow> ('m \<Rightarrow> rstr) \<Rightarrow> ('e \<Rightarrow> rstr) \<Rightarrow> ('m, 'e) ServerTaskVariant \<Rightarrow> rstr" where
  "variant_debug quote msg_debug err_display t = lit ''task seq='' @ show_nat (unat (v_seq t)) @ lit '' action=''
     @ action_debug quote (to_action (v_action t)) @ lit '' '' @ msg_debug (v_msg t) @ res_text err_display (v_res t)"

definition full_debug :: "(rstr \<Rightarrow> rstr) \<Rightarrow> ('r \<Rightarrow> rstr) \<Rightarrow> ('e \<Rightarrow> rstr) \<Rightarrow> ('r, 'p, 'e) ServerTaskVariantFull \<Rightarrow> rstr" where
  "full_debug quote req_debug err_display t = lit ''task seq='' @ show_nat (unat (f_seq t)) @ lit '' action=''
     @ action_debug quote (to_action (f_action t)) @ lit '' '' @ req_debug (f_req t) @ res_text err_display (f_res t)"

definition api_resp_debug :: "((unit, EncodedErr) result option \<Rightarrow> rstr) \<Rightarrow> APIServerResp \<Rightarrow> rstr" where
  "api_resp_debug res_debug r = lit ''resp '' @ show_nat (unat (ar_seq r)) @ lit '' res '' @ res_debug (ar_res r)"

definition api_client_req_debug :: "APIClientReq \<Rightarrow> rstr" where
  "api_client_req_debug t = lit ''APIClientReq(seq='' @ show_nat (unat (common_seq (ac_common t))) @ lit '', action=''
     @ ac_action t @ lit '')''"

text \<open>The \<open>Debug\<close> that \<open>client_task(debug)\<close> generates.\<close>

definition gen_task_debug :: "rstr \<Rightarrow> ('q \<Rightarrow> rstr) \<Rightarrow> ('p \<Rightarrow> rstr) \<Rightarrow> ('q, 'p, 'e, 'b) GenTask \<Rightarrow> rstr" where
  "gen_task_debug struct_name req_debug resp_debug t = struct_name @ lit ''(seq='' @ show_nat (unat (common_seq (g_common t)))
     @ lit '' req='' @ req_debug (g_req t)
     @ (case g_resp t of Some p \<Rightarrow> lit '' resp='' @ resp_debug p | None \<Rightarrow> []) @ lit '')''"

definition pool_conn_id :: "rstr \<Rightarrow> rstr" where
  "pool_conn_id addr = lit ''to '' @ addr"

definition conn_pool_display :: "rstr \<Rightarrow> rstr" where
  "conn_pool_display conn_id = lit ''ConnPool '' @ conn_id"

definition tcp_client_debug :: "rstr \<Rightarrow> rstr" where
  "tcp_client_debug conn_id = lit ''client '' @ conn_id"

section \<open>The error a user sees\<close>

text \<open>
  The two sides print an error alike when its printer is that of the encoded form: integers that
  are not negative, and strings. The errors of type \<open>()\<close> and \<open>Errno\<close> are printed differently.
\<close>

lemma show_nat_inj: "show_nat a = show_nat b \<longleftrightarrow> a = b"
  by (metis parse_show_nat option.inject)

lemma show_nat_no_minus: "show_nat n \<noteq> 45 # s"
proof
  assume "show_nat n = 45 # s"
  then have "(48 :: u8) \<le> 45" using show_nat_digits [of 45 n] by simp
  then show False by simp
qed

lemma signed_err_text:
  fixes e :: "'a::len word"
  assumes "LENGTH('a) \<le> 32"
  shows "encoded_err_display (err_encode signed_err c e) = rpc_error_display signed_err_fmt (User e) \<longleftrightarrow> 0 \<le> sint e"
proof -
  have "unat (scast e :: u32) = nat (if 0 \<le> sint e then sint e else sint e + 2 ^ 32)"
    by (simp only: unat_eq_nat_uint uint_scast [OF assms])
  then show ?thesis
    by (simp add: encoded_err_display_def signed_err_def rpc_error_display_def signed_err_fmt_def show_int_def show_nat_no_minus)
qed

lemma unsigned_err_text:
  fixes e :: "'a::len word"
  assumes "LENGTH('a) \<le> 32"
  shows "encoded_err_display (err_encode unsigned_err c e) = rpc_error_display unsigned_err_fmt (User e)"
proof -
  have "unat (ucast e :: u32) = unat e"
    unfolding unsigned_ucast_eq
    by (rule take_bit_nat_eq_self, rule order.strict_trans2 [OF unsigned_less power_increasing]) (use assms in simp_all)
  then show ?thesis
    by (simp add: encoded_err_display_def unsigned_err_def rpc_error_display_def unsigned_err_fmt_def)
qed

lemma string_err_text:
  "utf8_valid e \<Longrightarrow> encoded_err_display (err_encode string_err c e) = rpc_error_display string_err_fmt (User e)"
  by (simp add: encoded_err_display_def string_err_def rpc_error_display_def string_err_fmt_def from_utf8_def)

lemma int_err_text: "encoded_err_display (ERpc i) = rpc_error_display err_fmt (Rpc i)"
  by (simp add: encoded_err_display_def rpc_error_display_def)

section \<open>A printed header tells its fields\<close>

text \<open>A number ends where the text that follows it starts with something else.\<close>

definition num_char :: "u8 \<Rightarrow> bool" where
  "num_char c \<longleftrightarrow> c = 45 \<or> (48 \<le> c \<and> c \<le> 57)"

lemma show_nat_chars: "\<forall>c \<in> set (show_nat n). num_char c"
  using show_nat_digits by (auto simp: num_char_def)

lemma show_int_num_chars: "\<forall>c \<in> set (show_int n). num_char c"
  using show_nat_chars by (auto simp: show_int_def num_char_def)

lemma show_int_inj: "show_int a = show_int b \<longleftrightarrow> a = b"
proof
  assume "show_int a = show_int b"
  then show "a = b"
    using show_nat_no_minus [of "nat a"] show_nat_no_minus [of "nat b"]
    by (auto simp: show_int_def show_nat_inj eq_nat_nat_iff split: if_splits dest: sym)
qed simp

lemma text_then:
  assumes "\<forall>c \<in> set x. num_char c" "\<forall>c \<in> set y. num_char c" "p \<noteq> []" "q \<noteq> []"
    "\<not> num_char (hd p)" "\<not> num_char (hd q)" "x @ p = y @ q"
  shows "x = y \<and> p = q"
proof -
  have t: "takeWhile num_char (z @ r) = z" if "\<forall>c \<in> set z. num_char c" "r \<noteq> []" "\<not> num_char (hd r)" for z r
    using that by (cases r) (simp_all add: takeWhile_append2)
  have "x = y" using t [OF assms(1,3,5)] t [OF assms(2,4,6)] assms(7) by simp
  then show ?thesis using assms(7) by simp
qed

lemma nat_then:
  assumes "p \<noteq> []" "q \<noteq> []" "\<not> num_char (hd p)" "\<not> num_char (hd q)"
  shows "show_nat a @ p = show_nat b @ q \<longleftrightarrow> a = b \<and> p = q"
  using text_then [OF show_nat_chars show_nat_chars assms, of a b] by (auto simp: show_nat_inj)

lemma int_then:
  assumes "p \<noteq> []" "q \<noteq> []" "\<not> num_char (hd p)" "\<not> num_char (hd q)"
  shows "show_int a @ p = show_int b @ q \<longleftrightarrow> a = b \<and> p = q"
  using text_then [OF show_int_num_chars show_int_num_chars assms, of a b] by (auto simp: show_int_inj)

text \<open>Text that starts with a letter of a literal.\<close>

lemma lit_starts: "lit (c # s) @ x \<noteq> []" "hd (lit (c # s) @ x) = of_char c" "lit (c # s) \<noteq> []" "hd (lit (c # s)) = of_char c"
  by (simp_all add: lit_def)

lemma separators:
  "\<not> num_char (of_char CHR '','')" "\<not> num_char (of_char CHR '']'')" "\<not> num_char (of_char CHR ''a'')"
  by (simp_all add: num_char_def)

lemma word_texts: "unat a = unat b \<longleftrightarrow> a = b" "sint a = sint b \<longleftrightarrow> a = b"
  by (rule word_unat_eq_iff [symmetric], rule word_eq_iff_signed [symmetric])

lemmas text_eqs = nat_then int_then lit_starts separators same_append_eq word_texts append_assoc simp_thms

text \<open>
  Two response headers are printed alike only if they have the same sequence number, flag and
  lengths, and two request headers only if they have the same client, sequence number, lengths
  and action, although the length of an action string follows the blob length without a separator.
\<close>

lemma head_text_identifies:
  "(resp_head_display r = resp_head_display r' \<longleftrightarrow>
      rs_seq r = rs_seq r' \<and> rs_flag r = rs_flag r' \<and> rs_msg_len r = rs_msg_len r' \<and> rs_blob_len r = rs_blob_len r')
   \<and> (req_head_display h = req_head_display h' \<longleftrightarrow>
      rq_client_id h = rq_client_id h' \<and> rq_seq h = rq_seq h' \<and> rq_msg_len h = rq_msg_len h'
      \<and> rq_blob_len h = rq_blob_len h' \<and> req_get_action h = req_get_action h')"
proof
  show "resp_head_display r = resp_head_display r' \<longleftrightarrow>
      rs_seq r = rs_seq r' \<and> rs_flag r = rs_flag r' \<and> rs_msg_len r = rs_msg_len r' \<and> rs_blob_len r = rs_blob_len r'"
    by (simp only: resp_head_display_def text_eqs)
  have neq: "lit '', action:'' @ x \<noteq> lit ''action_len:'' @ y" "lit ''action_len:'' @ y \<noteq> lit '', action:'' @ x" for x y
    by (simp_all add: lit_def)
  show "req_head_display h = req_head_display h' \<longleftrightarrow>
      rq_client_id h = rq_client_id h' \<and> rq_seq h = rq_seq h' \<and> rq_msg_len h = rq_msg_len h'
      \<and> rq_blob_len h = rq_blob_len h' \<and> req_get_action h = req_get_action h'"
    by (cases "req_get_action h"; cases "req_get_action h'")
       (simp_all only: req_head_display_def result.case text_eqs neq, simp_all)
qed

end
