(* ===== verification/Spec2Isabelle.thy ===== *)
theory Spec2Isabelle
  imports Pool_Stream Query_Cluster File_Store Endpoint_Macros Graceful Text_Output
begin

text \<open>
  A verification of razor-rpc, a Rust framework for remote procedure calls.

  \<^bold>\<open>The program.\<close> A client hands tasks to a connection pool (\<open>ConnPool\<close>) or to a pool of pools
  with failover (\<open>FailoverPool\<close>). A pool's workers put them on connections (\<open>ClientStream\<close>),
  which number and encode them (\<open>ReqHead\<close>), write them to a transport (\<open>TcpClient\<close>) and register
  them with a timer (\<open>ClientTaskTimer\<close>) until the answer arrives or the time is over. On the
  other side an \<open>RpcServer\<close> reads requests from each connection (\<open>TcpServer\<close>), gives them to a
  dispatcher, and writes the answers (\<open>RespHead\<close>) that tasks send through the connection's
  response channel. Above this streaming layer (\<open>src/stream\<close>) lies the API layer (\<open>src/src\<close>,
  \<open>src/macros\<close>): services with methods on the server, calls by name on the client. Macros
  generate the task types of the streaming layer and the stubs and services of the API layer.

  \<^bold>\<open>The theories\<close>, in the order of their imports:
  \<^item> \<open>Prelude\<close>: results, panics, polls, byte strings, little-endian words, UTF-8, and ordered
    maps (the locale \<open>ordered_map\<close>, interpreted on the model of \<open>BTreeMap\<close>).
  \<^item> \<open>Rpc_Error\<close> (\<open>stream/src/error.rs\<close>): internal errors and their names, encoded errors, and
    the error codecs; the locale \<open>rpc_err_codec\<close> is what an error type needs to survive the
    wire, with an interpretation for every implementation in the source.
  \<^item> \<open>Rpc_Task\<close> (\<open>stream/src/client/task.rs\<close>, \<open>codec/src\<close>): the task traits and the codec trait
    as records of methods; their contracts are the locales \<open>client_task_laws\<close> and
    \<open>server_task_laws\<close> and the predicate \<open>codec_ok\<close>.
  \<^item> \<open>Proto\<close> (\<open>stream/src/proto.rs\<close>): headers, their bytes, and the frames of requests and answers.
  \<^item> \<open>Alloc_Buf\<close> (\<open>stream/src/buffer.rs\<close>): buffers for blobs, with capacities and undefined
    behaviour as a value.
  \<^item> \<open>Task_Timer\<close> (\<open>client/timer.rs\<close>): the waiting tasks as a timeline; \<open>take_task\<close> refines lookup
    and removal on it; a step relation for registration, answers and ticks.
  \<^item> \<open>Throttler\<close> (\<open>client/throttler.rs\<close>) and \<open>Client_Stream\<close> (\<open>client/stream.rs\<close>): one client
    connection; \<open>client_transport\<close> is the contract of a transport, \<open>stream_step\<close> interleaves
    sender, receiver, ticks and drops.
  \<^item> \<open>Tcp_Client\<close>, \<open>Tcp_Server\<close> (\<open>transport/tcp/src\<close>): both transports over an abstract socket.
    \<open>byte_stream\<close> and \<open>byte_sink\<close> state what is relied on of the socket library.
  \<^item> \<open>Server_Task\<close> (\<open>server/task.rs\<close>, \<open>server/mod.rs\<close>): requests, responses and the response channel.
  \<^item> \<open>Rpc_Server\<close> (\<open>server/server.rs\<close>, \<open>server/dispatch.rs\<close>): a connection's reader and writer as a
    step relation; the locales \<open>dispatch_laws\<close> and \<open>inline_dispatch\<close> are the contracts of dispatchers.
  \<^item> \<open>Conn_Pool\<close> (\<open>client/pool.rs\<close>) and \<open>Failover\<close> (\<open>client/failover.rs\<close>): the pools as step
    relations over callers, workers, streams, retries and changes of address. \<open>Pool_Stream\<close> joins
    the layers: what a TCP connection does with its tasks are steps of the failover pool.
  \<^item> \<open>Api_Server\<close> and \<open>Api_Client\<close> (\<open>src/src/server\<close>, \<open>src/src/client\<close>): services, muxes, dispatch by
    \<open>Service.method\<close>, the API task and \<open>call\<close>, whose loop runs over an environment with a state of
    its own (\<open>call_env\<close>). The locale \<open>serves_once\<close> is the contract of services.
  \<^item> \<open>Client_Facts\<close> (\<open>client/mod.rs\<close>, \<open>src/src/client/mod.rs\<close>, \<open>client/failover.rs\<close>): the user's
    settings of a client, their defaults, and what reaches the wire of them.
  \<^item> \<open>Macro_Syntax\<close>, \<open>Task_Macros\<close>, \<open>Server_Enum\<close>, \<open>Endpoint_Macros\<close> (\<open>stream/macros/src\<close>,
    \<open>macros/src\<close>): what the macros accept and the code they generate.
  \<^item> \<open>Text_Format\<close>, \<open>Graceful\<close> (\<open>server/graceful.rs\<close>): decimal numbers and lists as text; handing
    the listening sockets to a new program, pid files, the wait for the child, signals.
  \<^item> \<open>Text_Output\<close>: the \<open>Display\<close> and \<open>Debug\<close> texts of errors, headers and tasks.
  \<^item> \<open>Remote_Call\<close>, \<open>Typed_Call\<close> and this theory: the way of an API call and of a typed request
    through both sides; \<open>File_Service\<close> (\<open>test-suite/src/stream\<close>) is the repository's own service,
    on which the macros and the theorem on typed requests are run, and \<open>File_Store\<close>
    (\<open>stream/basic/test_normal.rs\<close> there) its server with a store.
  \<^item> \<open>Query_Cluster\<close> (\<open>test-suite/src/api/basic/test_failover_redirect.rs\<close>): a cluster with a leader;
    its environment of the call loop is the failover pool with the nodes behind it.

  \<^bold>\<open>How the code is modelled.\<close> A struct is a record, an enum a datatype, an integer of fixed
  width a word. A function that may panic has a result in \<open>panics\<close>; a \<open>Result\<close> is \<open>result\<close>. An
  asynchronous operation is what one poll of it does: its result is \<open>Pending\<close> or \<open>Ready\<close>, and the
  places where a coroutine can wait are states of the model. Coroutines that run side by side
  are steps of an inductive relation over a common state, so a theorem about all runs is about
  all interleavings of the turns. Channels are lists with a flag for the other side; the calls
  of \<open>error_handle\<close> and \<open>done\<close> are outputs, so that a ledger of tasks can be kept.

  \<^bold>\<open>What is shown.\<close> A remote call returns what the method returned, a typed request gets what
  its handler said (both below), and each part of the way on its own: frames and headers round trip, the server reads what the client wrote,
  the client delivers what the server answered. Nothing is lost or answered twice: in the
  timer, the stream, the pool, the failover pool and the server's connection each task is
  settled once or still held once, over all runs, and a connection is what the failover pool
  takes it for. Services run end to end: a query reaches the leader of a cluster through a redirect,
  a read returns what was written. Loops end: retries and redirects are bounded,
  closing writers drain and stop, a receiver that exits strands nothing, timeouts come at the
  right tick, a parent sees the child it restarted become ready. The tasks in flight on a
  connection stay within the configured threshold and one. The macros generate code that meets the contracts of the tasks, and client stubs
  reach the service methods of their name. Some theorems state where the code falls short:
  numeric errors below zero, negative actions, a vector with spare capacity, a codec that fails
  half way, the answer to a ping, a pool that failed once, the client id of a failover pool.

  \<^bold>\<open>Bounds and fuel.\<close> Sequence numbers are 64-bit words and are assumed not to wrap within a
  connection. The receive loops of the stream and the API call loop take fuel; the theorems
  about them give an amount that is enough, or hold for every amount. Header fields have their
  widths, and the theorems on frames require that lengths fit.

  \<^bold>\<open>Not modelled.\<close> Logging; the asynchronous runtimes, sockets, timers and channels of other
  crates, which are parameters with stated behaviour or inlined as above; MessagePack itself;
  memory ordering of atomics (an operation of a coroutine between two waits is one step); the
  parsing of tokens and the generic parameters of the macros; the files, processes and signals of
  a graceful restart, whose answers are arguments of its operations; re-exports and tests.
\<close>

section \<open>A remote call\<close>

text \<open>
  C1: a remote call behaves like a local one. The bytes that the client encodes for a call
  make an idle server connection read the request, run the method, and write one reply; when
  that reply reaches the client, the task that waits for it is handed over, and the caller
  gets exactly what the method returned for the argument: the response, the internal error or
  the user error.
\<close>

theorem remote_call_is_local_call:
  fixes codec :: 'c
  assumes codecs: "codec_ok A valid_a" "codec_ok P valid_p" "rpc_err_codec E valid_e"
    and task: "valid_a a" "api_req_new A codec (service @ dot # method) a = Returns t0"
      "t = set_seq (api_client_task :: ('c, APIClientReq) ClientTask) seq (api_set_noti t0)" "length (the (ac_req_msg t0)) \<le> u32_max" "length room = 32"
    and routed: "dot \<notin> set service" "action_ok (Str (service @ dot # method))" "table service = Some arms"
      "map_of arms method = Some (handle_method A P E f)"
    and result: "returnable P valid_p E valid_e dflt codec (f a)"
    and sockets: "byte_stream io arrived" "byte_sink io written" "byte_stream io' arrived'"
  shows "\<exists>request reply. req_encode api_client_task codec room cid t = Returns (request, Ok None)
    \<and> (\<forall>c rest. conn_idle c \<and> arrived (sv_stream (sc_conn c)) = request @ rest \<longrightarrow>
        (\<exists>c1 c2 req resp. reader_turn (tcp_server_transport api_resp_task io)
            (api_dispatch (mux_dyn (\<lambda>s. map_option (service_expand s) (table s)))) codec cancel c = Returns (c1, [req])
          \<and> arrived (sv_stream (sc_conn c1)) = rest
          \<and> writer_turn (tcp_server_transport api_resp_task io) codec c1 = Returns (c2, [Ok resp])
          \<and> written (sv_stream (sc_conn c2)) = written (sv_stream (sc_conn c1)) @ reply))
    \<and> (\<forall>tm cl close rest. timer_inv (api_client_task :: ('c, APIClientReq) ClientTask) tm \<and> task_with (api_client_task :: ('c, APIClientReq) ClientTask) seq (timeline tm) = Some t
          \<and> \<not> reg_stopped_flag tm \<and> waiting_reg cl = None \<and> arrived' (stream cl) = reply @ rest \<longrightarrow>
        (\<exists>tm' cl' handed t'. tcp_read_resp api_client_task io' codec close tm cl
              = Returns (tm', cl', [handed], Ready (Ok True))
          \<and> arrived' (stream cl') = rest
          \<and> process_res P E dflt codec (fact_task handed) = Returns (t', f a)))"
proof -
  obtain msg where msg: "codec_decode A codec msg = Ok a" "length msg \<le> u32_max" "ac_resp t = None"
      "req_encode api_client_task codec room cid t
        = Returns (req_frame cid seq (Str (service @ dot # method)) msg None, Ok None)"
    by (rule api_call_frame [OF codecs(1) task])
  let ?ans = "method_answer P E codec (f a)"
  have ans: "sendable ?ans" using result by (simp add: returnable_def)
  obtain t' where t': "process_res P E dflt codec (fact_task (deliver api_client_task codec ?ans t)) = Returns (t', f a)"
    using delivered_result [OF codecs(2,3) result msg(3)] by blast
  show ?thesis
  proof (rule exI [of _ "req_frame cid seq (Str (service @ dot # method)) msg None"],
      rule exI [of _ "answer_frame seq ?ans"], intro conjI allI impI)
    fix c :: "(_ TcpServer, APIServerResp, unit) SvrConn" and rest
    assume "conn_idle c \<and> arrived (sv_stream (sc_conn c)) = req_frame cid seq (Str (service @ dot # method)) msg None @ rest"
    then show "\<exists>c1 c2 req resp. reader_turn (tcp_server_transport api_resp_task io)
            (api_dispatch (mux_dyn (\<lambda>s. map_option (service_expand s) (table s)))) codec cancel c = Returns (c1, [req])
          \<and> arrived (sv_stream (sc_conn c1)) = rest
          \<and> writer_turn (tcp_server_transport api_resp_task io) codec c1 = Returns (c2, [Ok resp])
          \<and> written (sv_stream (sc_conn c2)) = written (sv_stream (sc_conn c1)) @ answer_frame seq ?ans"
      using server_turns [where table = table, OF sockets(1,2) _ _ routed(2) msg(2,1) routed(1,3,4) sendable_fits [OF ans]] by blast
  next
    fix tm and cl :: "_ TcpClient" and close rest
    assume "timer_inv (api_client_task :: ('c, APIClientReq) ClientTask) tm \<and> task_with (api_client_task :: ('c, APIClientReq) ClientTask) seq (timeline tm) = Some t
          \<and> \<not> reg_stopped_flag tm \<and> waiting_reg cl = None \<and> arrived' (stream cl) = answer_frame seq ?ans @ rest"
    then show "\<exists>tm' cl' handed t'. tcp_read_resp api_client_task io' codec close tm cl
              = Returns (tm', cl', [handed], Ready (Ok True))
          \<and> arrived' (stream cl') = rest
          \<and> process_res P E dflt codec (fact_task handed) = Returns (t', f a)"
      using read_resp_delivers [OF sockets(3) api_reserves _ _ _ _ _ ans, of tm seq t cl rest codec close] t' by blast
  qed (rule msg(4))
qed

text \<open>The method that reverses its argument, called with two bytes.\<close>

definition rev_table :: "rstr \<rightharpoonup> (rstr \<times> unit serve_fun) list" where
  "rev_table = [lit ''S'' \<mapsto> [(lit ''m'', handle_method raw_codec raw_codec unit_err (\<lambda>a. Ok (rev a)))]]"

definition rev_task :: APIClientReq where
  "rev_task = \<lparr>ac_common = \<lparr>common_seq = 0\<rparr>, ac_req_msg = Some [7, 8], ac_action = lit ''S'' @ dot # lit ''m'',
     ac_resp = None, ac_res = None, ac_noti = False, ac_config_ver = 0, ac_last_index = 0\<rparr>"

lemma rev_task_new: "api_req_new raw_codec () (lit ''S'' @ dot # lit ''m'') [7, 8] = Returns rev_task"
  by (simp add: api_req_new_def raw_codec_def rev_task_def)

theorem remote_call_is_local_call_witness:
  "\<exists>request reply. req_encode api_client_task () (replicate 32 0) 9
        (set_seq (api_client_task :: (unit, APIClientReq) ClientTask) 3 (api_set_noti rev_task)) = Returns (request, Ok None)
    \<and> (\<exists>c1 c2 req resp. reader_turn (tcp_server_transport api_resp_task duplex_io)
          (api_dispatch (mux_dyn (\<lambda>s. map_option (service_expand s) (rev_table s)))) () False
          (server_conn (duplex_server request)) = Returns (c1, [req])
        \<and> writer_turn (tcp_server_transport api_resp_task duplex_io) () c1 = Returns (c2, [Ok resp])
        \<and> snd (sv_stream (sc_conn c2)) = snd (sv_stream (sc_conn c1)) @ reply)"
proof -
  have r: "returnable raw_codec (\<lambda>_. True) unit_err (\<lambda>_. True) [] () (Ok (rev [7, 8]))"
    by (simp add: returnable_def method_answer_def raw_codec_def opt_bytes_def u32_max_def i32_max_def)
  have s: "dot \<notin> set (lit ''S'')" "action_ok (Str (lit ''S'' @ dot # lit ''m''))"
    "rev_table (lit ''S'') = Some [(lit ''m'', handle_method raw_codec raw_codec unit_err (\<lambda>a. Ok (rev a)))]"
    "map_of [(lit ''m'', handle_method raw_codec raw_codec unit_err (\<lambda>a. Ok (rev a)))] (lit ''m'')
      = Some (handle_method raw_codec raw_codec unit_err (\<lambda>a. Ok (rev a)))"
    by (simp_all add: lit_def dot_def i32_max_def rev_table_def)
  have l: "length (the (ac_req_msg rev_task)) \<le> u32_max" by (simp add: rev_task_def u32_max_def)
  have i: "conn_idle (server_conn (duplex_server b) :: (_, _, unit) SvrConn)"
      "fst (sv_stream (sc_conn (server_conn (duplex_server b) :: (_, APIServerResp, unit) SvrConn))) = b @ []" for b
    by (simp_all add: conn_idle_def server_conn_def duplex_server_def)
  show ?thesis
    using remote_call_is_local_call [where table = rev_table and room = "replicate 32 0" and cid = 9 and cancel = False
        and seq = 3 and io' = list_io and arrived' = "\<lambda>s. s",
        OF raw_codec_ok raw_codec_ok err_unit.rpc_err_codec_axioms TrueI rev_task_new refl l _ s r
          duplex_io_stream duplex_io_sink list_io_stream] i
    by (metis (lifting) length_replicate)
qed

text \<open>
  C2: a typed request behaves like a call of the server's handler. The bytes that a task of a
  \<open>client_task_enum\<close> is encoded as make an idle server connection, with a closure over a
  \<open>server_task_enum\<close>, decode it into the first variant that lists the task's action, with the
  request and the blob of the client, run the handler and write one reply; when that reply reaches
  the client, the waiting task is handed over in its own variant with what the handler said: the
  response and the blob, or the user's error.
\<close>

theorem typed_call_is_handled:
  fixes codec :: 'c and CT :: "('c, rstr \<times> ('q, 'p, 'e, 'b) GenTask) ClientTask"
  assumes codecs: "\<And>s. codec_ok (SA s) (valid_q s)" "\<And>s. codec_ok (SP s) (valid_p s)" "rpc_err_codec E valid_e"
      "lends_exactly lend"
    and client: "CT = client_enum_task carms (\<lambda>v. gen_client_task (code v) (A v) (P v) E lend (by_hand v))"
      "action = get_action CT (v, t)"
    and server: "i < length sarms" "action \<in> set (sm_actions (sarms ! i))" "\<forall>j < i. action \<notin> set (sm_actions (sarms ! j))"
    and same: "s = sm_name (sarms ! i)" "A v = SA s" "P v = SP s"
    and fits: "valid_q s (g_req t)" "action_ok action" "length (encoded (A v) codec (g_req t)) \<le> u32_max"
      "length (opt_bytes (gen_get_req_blob (code v) t)) \<le> i32_max"
      "\<not> (action = Num 0 \<and> encoded (A v) codec (g_req t) = [])" "length room = 32"
    and said: "said = h s (decoded_task seq action (g_req t) (gen_get_req_blob (code v) t))"
      "sayable (P v) (valid_p s) E valid_e (code v) lend codec t said" "seq = common_seq (g_common t)"
    and sockets: "byte_stream io arrived" "byte_sink io written" "byte_stream io' arrived'"
  shows "\<exists>buf blob reply. req_encode CT codec room cid (v, t) = Returns (buf, Ok blob)
    \<and> (\<forall>c rest. conn_idle c \<and> arrived (sv_stream (sc_conn c)) = buf @ opt_bytes blob @ rest \<longrightarrow>
        (\<exists>c1 c2 req st. reader_turn (tcp_server_transport (server_enum_task (\<lambda>s. full_task (SP s) E)) io)
            (typed_dispatch sarms SA h :: ('c, _, 'j) Dispatch) codec cancel c = Returns (c1, [req])
          \<and> arrived (sv_stream (sc_conn c1)) = rest
          \<and> writer_turn (tcp_server_transport (server_enum_task (\<lambda>s. full_task (SP s) E)) io) codec c1 = Returns (c2, [Ok (s, st)])
          \<and> f_req st = g_req t
          \<and> written (sv_stream (sc_conn c2)) = written (sv_stream (sc_conn c1)) @ reply))
    \<and> (\<forall>tm cl close rest. timer_inv CT tm \<and> task_with CT seq (timeline tm) = Some (v, t)
          \<and> \<not> reg_stopped_flag tm \<and> waiting_reg cl = None \<and> arrived' (stream cl) = reply @ rest \<longrightarrow>
        (\<exists>tm' cl' handed t'. tcp_read_resp CT io' codec close tm cl = Returns (tm', cl', [handed], Ready (Ok True))
          \<and> arrived' (stream cl') = rest \<and> fact_task handed = (v, t') \<and> task_result (code v) lend said t t'))"
proof -
  let ?blob = "gen_get_req_blob (code v) t" and ?msg = "encoded (A v) codec (g_req t)"
  let ?ans = "said_answer (P v) E codec said"
  obtain buf where buf: "req_encode CT codec room cid (v, t) = Returns (buf, Ok ?blob)"
      "buf @ opt_bytes ?blob = req_frame cid seq action ?msg ?blob" "codec_decode (A v) codec ?msg = Ok (g_req t)"
    by (rule typed_request [where A = "A v" and valid = "valid_q s" and t = t and code = "code v" and codec = codec
          and v = v and room = room and cid = cid and P = "P v" and E = E and lend = lend and by_hand = "by_hand v"
          and impls = "\<lambda>v. gen_client_task (code v) (A v) (P v) E lend (by_hand v)" and arms = carms,
          OF _ fits(1,6,3,4) refl client(1)])
       (use codecs(1) same(2) client(2) said(3) in auto)
  have dec: "codec_decode (SA s) codec ?msg = Ok (g_req t)" using buf(3) same(2) by simp
  show ?thesis
  proof (rule exI [of _ buf], rule exI [of _ ?blob], rule exI [of _ "answer_frame seq ?ans"], intro conjI allI impI)
    fix c :: "(_ TcpServer, rstr \<times> ('q, 'p, 'e) ServerTaskVariantFull, 'j) SvrConn" and rest
    assume "conn_idle c \<and> arrived (sv_stream (sc_conn c)) = buf @ opt_bytes ?blob @ rest"
    then have f: "conn_idle c" "arrived (sv_stream (sc_conn c)) = req_frame cid seq action ?msg ?blob @ rest"
      by (simp_all add: buf(2) [symmetric])
    show "\<exists>c1 c2 req st. reader_turn (tcp_server_transport (server_enum_task (\<lambda>s. full_task (SP s) E)) io)
            (typed_dispatch sarms SA h :: ('c, _, 'j) Dispatch) codec cancel c = Returns (c1, [req])
          \<and> arrived (sv_stream (sc_conn c1)) = rest
          \<and> writer_turn (tcp_server_transport (server_enum_task (\<lambda>s. full_task (SP s) E)) io) codec c1 = Returns (c2, [Ok (s, st)])
          \<and> f_req st = g_req t
          \<and> written (sv_stream (sc_conn c2)) = written (sv_stream (sc_conn c1)) @ answer_frame seq ?ans"
      unfolding same(3)
      by (rule typed_server_turns [where SA = SA and msg = ?msg and blob = ?blob and t = t and code = "code v"
            and valid_p = valid_p and SP = SP and h = h and s = s and arrived = arrived and written = written,
            OF codecs(2) server same(1) dec said(1) said(2) [unfolded same(3)]
              sockets(1,2) f fits(2,3,4,5)])
  next
    fix tm and cl :: "_ TcpClient" and close rest
    assume "timer_inv CT tm \<and> task_with CT seq (timeline tm) = Some (v, t)
          \<and> \<not> reg_stopped_flag tm \<and> waiting_reg cl = None \<and> arrived' (stream cl) = answer_frame seq ?ans @ rest"
    then show "\<exists>tm' cl' handed t'. tcp_read_resp CT io' codec close tm cl = Returns (tm', cl', [handed], Ready (Ok True))
          \<and> arrived' (stream cl') = rest \<and> fact_task handed = (v, t') \<and> task_result (code v) lend said t t'"
      using typed_reply_delivered [OF codecs(2) [of s, folded same(3)] codecs(3,4) client(1) said(2) sockets(3)] by blast
  qed (rule buf(1))
qed

theorem typed_call_is_handled_witness:
  "\<exists>buf blob reply. req_encode file_client () (replicate 32 0) 9 (lit ''Write'', demo_write) = Returns (buf, Ok blob)
    \<and> (\<exists>c1 c2 req st. reader_turn (tcp_server_transport (server_enum_task (\<lambda>s. full_task (file_resp_codec s) file_err)) duplex_io)
          (typed_dispatch file_server_arms file_req_codec (file_handler [])) () False
          (server_conn (duplex_server (buf @ opt_bytes blob)) :: (_, _, unit) SvrConn) = Returns (c1, [req])
        \<and> writer_turn (tcp_server_transport (server_enum_task (\<lambda>s. full_task (file_resp_codec s) file_err)) duplex_io) () c1
            = Returns (c2, [Ok (lit ''IO'', st)])
        \<and> snd (sv_stream (sc_conn c2)) = snd (sv_stream (sc_conn c1)) @ reply)
    \<and> (\<exists>tm' cl' handed t'. tcp_read_resp file_client list_io () None demo_write_timer (demo_client (reply @ []))
          = Returns (tm', cl', [handed], Ready (Ok True))
        \<and> fact_task handed = (lit ''Write'', t') \<and> gen_get_result t' = Ok () \<and> g_resp t' = Some (IO_Resp \<lparr>ret_size = 2\<rparr>))"
  (is "\<exists>buf blob reply. ?P buf blob reply")
proof -
  have v: "lit ''Write'' \<in> {lit ''Open'', lit ''Read'', lit ''Write''}" by simp
  have s: "served_by (lit ''Write'') = lit ''IO''" by (simp add: served_by_def lit_def)
  have arm: "1 < length file_server_arms" "Num 3 \<in> set (sm_actions (file_server_arms ! 1))"
      "\<forall>j < 1. Num 3 \<notin> set (sm_actions (file_server_arms ! j))" "lit ''IO'' = sm_name (file_server_arms ! 1)"
    by (simp_all add: file_server_arms_def)
  have fits: "file_req_valid (lit ''IO'') (g_req demo_write)" "action_ok (Num 3)"
      "length (encoded (file_req_codec (served_by (lit ''Write''))) () (g_req demo_write)) \<le> u32_max"
      "length (opt_bytes (gen_get_req_blob (file_code (lit ''Write'')) demo_write)) \<le> i32_max"
      "\<not> (Num 3 = Num 0 \<and> encoded (file_req_codec (served_by (lit ''Write''))) () (g_req demo_write) = [])"
      "length (replicate 32 (0 :: u8)) = 32"
    using demo_write_task(3,5)
    by (simp_all add: s file_req_valid_def encoded_def file_req_codec_def plain_codec_def u32_max_def
        i32_max_def opt_bytes_def lit_def [of "''Open''"] lit_def [of "''IO''"])
  note call = typed_call_is_handled [where SA = file_req_codec and valid_q = file_req_valid and SP = file_resp_codec
      and valid_p = file_resp_valid and code = file_code and v = "lit ''Write''" and t = demo_write and h = "file_handler []"
      and cid = 9 and cancel = False and room = "replicate 32 0" and s = "lit ''IO''" and i = 1 and action = "Num 3"
      and io = duplex_io and io' = list_io and arrived' = "\<lambda>s. s" and sarms = file_server_arms and E = file_err
      and lend = file_lend and valid_e = "\<lambda>e. e \<le> of_nat i32_max"
      and A = "\<lambda>v. file_req_codec (served_by v)" and P = "\<lambda>v. file_resp_codec (served_by v)" and by_hand = "\<lambda>_ _. Num 0"
      and carms = file_client_arms and CT = file_client and 'j = unit,
      OF file_req_codec_ok file_resp_codec_ok file_err_ok file_lends refl demo_write_task(1) [symmetric] arm _ _ fits refl _
        demo_write_task(2) [symmetric] duplex_io_stream duplex_io_sink list_io_stream]
  have said: "file_handler [] (lit ''IO'') (decoded_task 1 (Num 3) (g_req demo_write)
      (gen_get_req_blob (file_code (lit ''Write'')) demo_write)) = (Some (IO_Resp \<lparr>ret_size = 2\<rparr>), None, Ok ())"
    using demo_write_said demo_write_task(5) by simp
  have idle: "conn_idle (server_conn (duplex_server b) :: (_, rstr \<times> (file_req, file_resp, u32) ServerTaskVariantFull, unit) SvrConn)"
      "fst (sv_stream (sc_conn (server_conn (duplex_server b) :: (_, rstr \<times> (file_req, file_resp, u32) ServerTaskVariantFull, unit) SvrConn))) = b @ []" for b
    by (simp_all add: conn_idle_def server_conn_def duplex_server_def)
  note all = call [unfolded s said, OF refl refl demo_write_sayable]
  show ?thesis
    using all
  proof (elim exE conjE, goal_cases)
    case (1 buf blob reply)
    show ?case
      using 1(1) 1(2) [rule_format, of "server_conn (duplex_server (buf @ opt_bytes blob))" "[]"]
        1(3) [rule_format, of demo_write_timer "demo_client (reply @ [])" "[]" None] idle demo_write_waits demo_client_fields
      by (intro exI [of _ buf] exI [of _ blob] exI [of _ reply] conjI) (auto simp: task_result_def)
  qed
qed

end
